(* ===== verification/Prelude.thy ===== *)
theory Prelude
  imports Main "HOL-Library.Word" "HOL-Library.List_Lexorder"
begin

text \<open>
  Shared vocabulary of the development: the machine integers of the Rust code as words, Rust's
  \<^verbatim>\<open>Result\<close> and \<^verbatim>\<open>?\<close> as a sum with its bind, code that mutates a value and may fail as a function
  on an explicit state, and the lemma collections every component extends.
\<close>

unbundle bit_operations_syntax

type_synonym byte = "8 word"
type_synonym bytes = "byte list"
type_synonym u8 = "8 word"
type_synonym u32 = "32 word"
type_synonym u64 = "64 word"
type_synonym u128 = "128 word"
type_synonym u256 = "256 word"

named_theorems wire_simps \<open>evaluating a wire reader on the bytes its encoder wrote\<close>
named_theorems store_simps \<open>reads after writes on the key-value store\<close>
named_theorems frontier_simps \<open>the Merkle accumulator and its reference tree\<close>

section \<open>Results\<close>

text \<open>
  \<^verbatim>\<open>Result<T, E>\<close> is \<open>'e + 'a\<close>. Where the code can also panic (an \<^verbatim>\<open>expect\<close>, an \<^verbatim>\<open>assert!\<close>, an
  index out of range), the error is an \<open>'e exn\<close>, and the panic is a value like any other.
\<close>

datatype 'e exn = Err 'e | Panic

definition res_bind :: "'e + 'a \<Rightarrow> ('a \<Rightarrow> 'e + 'b) \<Rightarrow> 'e + 'b" where
  "res_bind r f = (case r of Inl e \<Rightarrow> Inl e | Inr x \<Rightarrow> f x)"

definition map_err :: "('e \<Rightarrow> 'f) \<Rightarrow> 'e + 'a \<Rightarrow> 'f + 'a" where
  "map_err f r = (case r of Inl e \<Rightarrow> Inl (f e) | Inr x \<Rightarrow> Inr x)"

definition ok_or :: "'e \<Rightarrow> 'a option \<Rightarrow> 'e + 'a" where
  "ok_or e x = (case x of None \<Rightarrow> Inl e | Some y \<Rightarrow> Inr y)"

lemma res_bind_simps [simp]:
  "res_bind (Inl e) f = Inl e"
  "res_bind (Inr x) f = f x"
  by (simp_all add: res_bind_def)

lemma res_bind_eq_Inr [simp]:
  "res_bind r f = Inr y \<longleftrightarrow> (\<exists>x. r = Inr x \<and> f x = Inr y)"
  by (cases r) simp_all

lemma res_bind_eq_Inl:
  "res_bind r f = Inl e \<longleftrightarrow> r = Inl e \<or> (\<exists>x. r = Inr x \<and> f x = Inl e)"
  by (cases r) simp_all

lemma map_err_simps [simp]:
  "map_err f (Inl e) = Inl (f e)"
  "map_err f (Inr x) = Inr x"
  by (simp_all add: map_err_def)

lemma map_err_eq_Inr [simp]: "map_err f r = Inr x \<longleftrightarrow> r = Inr x"
  by (cases r) simp_all

lemma ok_or_simps [simp]:
  "ok_or e None = Inl e"
  "ok_or e (Some x) = Inr x"
  by (simp_all add: ok_or_def)

lemma ok_or_eq_Inr [simp]: "ok_or e x = Inr y \<longleftrightarrow> x = Some y"
  by (cases x) simp_all

section \<open>State that is mutated by code that may fail\<close>

text \<open>
  A \<^verbatim>\<open>&mut self\<close> operation that returns a \<^verbatim>\<open>Result\<close> maps the state to the result and the state it
  leaves behind; the state is there after an error too, as it is in Rust.
\<close>

type_synonym ('s, 'e, 'a) step = "'s \<Rightarrow> ('e + 'a) \<times> 's"

definition st_ok :: "'a \<Rightarrow> ('s, 'e, 'a) step" where
  "st_ok x s = (Inr x, s)"

definition st_lift :: "'e + 'a \<Rightarrow> ('s, 'e, 'a) step" where
  "st_lift r s = (r, s)"

definition st_bind :: "('s, 'e, 'a) step \<Rightarrow> ('a \<Rightarrow> ('s, 'e, 'b) step) \<Rightarrow> ('s, 'e, 'b) step" where
  "st_bind m f s = (case m s of (Inl e, s') \<Rightarrow> (Inl e, s') | (Inr x, s') \<Rightarrow> f x s')"

text \<open>\<^verbatim>\<open>for x in xs { body(x)?; }\<close>\<close>

primrec st_for :: "('x \<Rightarrow> ('s, 'e, unit) step) \<Rightarrow> 'x list \<Rightarrow> ('s, 'e, unit) step" where
  "st_for body [] = st_ok ()"
| "st_for body (x # xs) = st_bind (body x) (\<lambda>_. st_for body xs)"

lemma st_ok_apply [simp]: "st_ok x s = (Inr x, s)"
  by (simp add: st_ok_def)

lemma st_lift_apply [simp]: "st_lift r s = (r, s)"
  by (simp add: st_lift_def)

lemma st_bind_eq_Inr:
  "st_bind m f s = (Inr y, s'') \<longleftrightarrow> (\<exists>x s'. m s = (Inr x, s') \<and> f x s' = (Inr y, s''))"
  by (auto simp: st_bind_def split: prod.splits sum.splits)

lemma st_bind_Inr: "m s = (Inr x, s') \<Longrightarrow> st_bind m f s = f x s'"
  by (simp add: st_bind_def)

lemma st_bind_Inl: "m s = (Inl e, s') \<Longrightarrow> st_bind m f s = (Inl e, s')"
  by (simp add: st_bind_def)

lemma st_for_append:
  "st_for body (xs @ ys) = st_bind (st_for body xs) (\<lambda>_. st_for body ys)"
  by (induction xs) (simp_all add: fun_eq_iff st_bind_def split: prod.splits sum.splits)

text \<open>An invariant that every successful iteration keeps holds after the loop.\<close>

lemma st_for_invariant:
  assumes "st_for body xs s = (Inr u, s')"
    and "I s"
    and "\<And>x s s'. x \<in> set xs \<Longrightarrow> I s \<Longrightarrow> body x s = (Inr (), s') \<Longrightarrow> I s'"
  shows "I s'"
  using assms
proof (induction xs arbitrary: s)
  case Nil
  then show ?case by simp
next
  case (Cons x xs)
  then obtain t v where body: "body x s = (Inr v, t)" and rest: "st_for body xs t = (Inr u, s')"
    by (auto simp: st_bind_eq_Inr)
  have "I t" using Cons.prems(3) [of x s t] Cons.prems(2) body by simp
  then show ?case
    using Cons.IH [OF rest] Cons.prems(3) by (meson list.set_intros(2))
qed

section \<open>Lists\<close>

lemma map_of_nth_fst:
  "distinct (map fst xs) \<Longrightarrow> i < length xs \<Longrightarrow> map_of xs (fst (xs ! i)) = Some (snd (xs ! i))"
  by (simp add: map_of_eq_Some_iff)

lemma distinct_map_of_conv:
  "distinct (map fst xs) \<Longrightarrow> xs = map (\<lambda>k. (k, the (map_of xs k))) (map fst xs)"
  by (rule nth_equalityI) (simp_all add: map_of_nth_fst)

text \<open>A strictly ascending association list is determined by the map it represents.\<close>

lemma ascending_map_of_unique:
  fixes xs ys :: "('k::linorder \<times> 'v) list"
  assumes "sorted_wrt (<) (map fst xs)" and "sorted_wrt (<) (map fst ys)"
    and "map_of xs = map_of ys"
  shows "xs = ys"
proof -
  have dist: "distinct (map fst xs)" "distinct (map fst ys)"
    using assms(1,2) by (simp_all add: strict_sorted_iff)
  have "set (map fst xs) = set (map fst ys)"
    using assms(3) by (metis dom_map_of_conv_image_fst list.set_map)
  then have keys: "map fst xs = map fst ys"
    using assms(1,2) strict_sorted_equal by blast
  show ?thesis
    using distinct_map_of_conv [OF dist(1)] distinct_map_of_conv [OF dist(2)] keys assms(3)
    by simp
qed

section \<open>Words\<close>

text \<open>\<^verbatim>\<open>checked_mul\<close> and \<^verbatim>\<open>checked_add\<close> of the unsigned integers.\<close>

definition checked_mul :: "'a::len word \<Rightarrow> 'a word \<Rightarrow> 'a word option" where
  "checked_mul a b = (if unat a * unat b < 2 ^ LENGTH('a) then Some (a * b) else None)"

definition checked_add :: "'a::len word \<Rightarrow> 'a word \<Rightarrow> 'a word option" where
  "checked_add a b = (if unat a + unat b < 2 ^ LENGTH('a) then Some (a + b) else None)"

text \<open>The step of every positional number reader of the code: multiply by the base, add the digit.\<close>

definition push_digit :: "'a::len word \<Rightarrow> 'a word \<Rightarrow> 'a word \<Rightarrow> 'a word option" where
  "push_digit base acc d = Option.bind (checked_mul acc base) (\<lambda>v. checked_add v d)"

lemma push_digit_eq:
  fixes acc :: "'a::len word"
  shows "push_digit base acc d =
     (if unat acc * unat base + unat d < 2 ^ LENGTH('a)
      then Some (of_nat (unat acc * unat base + unat d)) else None)"
proof (cases "unat acc * unat base < 2 ^ LENGTH('a)")
  case True
  then have "unat (acc * base) = unat acc * unat base"
    by (simp add: unat_mult_lem [THEN iffD1])
  moreover have "acc * base + d = of_nat (unat acc * unat base + unat d)" by simp
  ultimately show ?thesis
    using True by (simp add: push_digit_def checked_mul_def checked_add_def)
next
  case False
  then show ?thesis by (simp add: push_digit_def checked_mul_def)
qed

lemma unat_less_power: "unat (w :: 'a::len word) < 2 ^ LENGTH('a)"
  by (rule unsigned_less)

lemma unat_ucast_small:
  "unat (w :: 'a::len word) < 2 ^ LENGTH('b::len) \<Longrightarrow> unat (ucast w :: 'b word) = unat w"
  by (simp add: unsigned_ucast_eq take_bit_nat_eq_self)

lemma unat_of_nat_small: "n < 2 ^ LENGTH('a::len) \<Longrightarrow> unat (of_nat n :: 'a word) = n"
  by (simp add: unat_of_nat)

lemma unat_minus_one: "unat (- 1 :: 'a::len word) = 2 ^ LENGTH('a) - 1"
  by (simp add: unsigned_minus_1_eq_mask mask_eq_exp_minus_1)

end
