(* ===== verification/Merkle.thy ===== *)
theory Merkle
  imports Prelude
begin

text \<open>
  The accumulator of \<^verbatim>\<open>crypto/src/merkle.rs\<close>, generic over the tree configuration as the code is. The
  specification is \<open>tree_node\<close>, the value of a node of the complete tree over zero-padded leaves; the
  invariant \<open>accumulates\<close> says that an accumulator's frontier and root are those of the leaves it was
  given, and the append-only insert keeps it.
\<close>

section \<open>Configuration\<close>

record merkle_config =
  mc_depth :: nat
  mc_hash :: "u256 \<Rightarrow> u256 \<Rightarrow> u256"
  mc_zero :: u256

definition RAILGUN_TREE_DEPTH :: nat where
  "RAILGUN_TREE_DEPTH = 16"

definition RAILGUN_MERKLE_ZERO :: u256 where
  "RAILGUN_MERKLE_ZERO =
     2051258411002736885948763699317990061539314419500486054347250703186609807356"

text \<open>The pairwise Poseidon hash is the argument.\<close>

definition railgun_merkle_config :: "(u256 \<Rightarrow> u256 \<Rightarrow> u256) \<Rightarrow> merkle_config" where
  "railgun_merkle_config poseidon =
     \<lparr>mc_depth = RAILGUN_TREE_DEPTH, mc_hash = poseidon, mc_zero = RAILGUN_MERKLE_ZERO\<rparr>"

section \<open>The accumulator\<close>

record accumulator =
  ac_zeros :: "u256 list"
  ac_filled_subtrees :: "u256 list"
  ac_next_index :: u64
  ac_root :: u256

record merkle_accumulator_state =
  as_filled_subtrees :: "u256 list"
  as_next_index :: u64
  as_root :: u256

primrec levels_from :: "merkle_config \<Rightarrow> u256 \<Rightarrow> nat \<Rightarrow> u256 list" where
  "levels_from C current 0 = []"
| "levels_from C current (Suc k) = current # levels_from C (mc_hash C current current) k"

definition zero_value_levels :: "merkle_config \<Rightarrow> u256 list" where
  "zero_value_levels C = levels_from C (mc_zero C) (mc_depth C + 1)"

definition accumulator_new :: "merkle_config \<Rightarrow> accumulator" where
  "accumulator_new C =
     (let zeros = zero_value_levels C
      in \<lparr>ac_zeros = zeros, ac_filled_subtrees = take (mc_depth C) zeros, ac_next_index = 0,
          ac_root = zeros ! mc_depth C\<rparr>)"

definition accumulator_state :: "accumulator \<Rightarrow> merkle_accumulator_state" where
  "accumulator_state a =
     \<lparr>as_filled_subtrees = ac_filled_subtrees a, as_next_index = ac_next_index a, as_root = ac_root a\<rparr>"

datatype frontier_error = MalformedFrontier nat nat

definition from_state :: "merkle_config \<Rightarrow> merkle_accumulator_state \<Rightarrow> frontier_error + accumulator" where
  "from_state C st =
     (if length (as_filled_subtrees st) \<noteq> mc_depth C
      then Inl (MalformedFrontier (mc_depth C) (length (as_filled_subtrees st)))
      else Inr \<lparr>ac_zeros = zero_value_levels C, ac_filled_subtrees = as_filled_subtrees st,
                ac_next_index = as_next_index st, ac_root = as_root st\<rparr>)"

text \<open>One level of the fold: the index, the current value and the frontier.\<close>

definition insert_level ::
  "merkle_config \<Rightarrow> u256 list \<Rightarrow> nat \<Rightarrow> u64 \<times> u256 \<times> u256 list \<Rightarrow> u64 \<times> u256 \<times> u256 list" where
  "insert_level C zeros level = (\<lambda>(index, current, filled).
     if index AND 1 = 0
     then (drop_bit 1 index, mc_hash C current (zeros ! level), filled[level := current])
     else (drop_bit 1 index, mc_hash C (filled ! level) current, filled))"

definition accumulator_insert :: "merkle_config \<Rightarrow> u256 \<Rightarrow> accumulator \<Rightarrow> accumulator" where
  "accumulator_insert C leaf a =
     (case fold (insert_level C (ac_zeros a)) [0..<mc_depth C]
             (ac_next_index a, leaf, ac_filled_subtrees a) of
        (_, current, filled) \<Rightarrow>
          a\<lparr>ac_filled_subtrees := filled, ac_root := current, ac_next_index := ac_next_index a + 1\<rparr>)"

definition accumulator_root :: "accumulator \<Rightarrow> u256" where
  "accumulator_root a = ac_root a"

definition accumulator_len :: "accumulator \<Rightarrow> u64" where
  "accumulator_len a = ac_next_index a"

definition accumulator_is_empty :: "accumulator \<Rightarrow> bool" where
  "accumulator_is_empty a \<longleftrightarrow> ac_next_index a = 0"

section \<open>The specification\<close>

text \<open>Node \<open>i\<close> of level \<open>l\<close> of the complete tree over the leaves \<open>f 0, f 1, ...\<close>\<close>

primrec tree_node :: "merkle_config \<Rightarrow> (nat \<Rightarrow> u256) \<Rightarrow> nat \<Rightarrow> nat \<Rightarrow> u256" where
  "tree_node C f 0 i = f i"
| "tree_node C f (Suc l) i = mc_hash C (tree_node C f l (2 * i)) (tree_node C f l (2 * i + 1))"

definition padded :: "merkle_config \<Rightarrow> u256 list \<Rightarrow> nat \<Rightarrow> u256" where
  "padded C xs i = (if i < length xs then xs ! i else mc_zero C)"

definition tree_root :: "merkle_config \<Rightarrow> u256 list \<Rightarrow> u256" where
  "tree_root C xs = tree_node C (padded C xs) (mc_depth C) 0"

text \<open>
  The frontier after \<open>n\<close> leaves: at each level where the next node is a right child, its left sibling.
\<close>

definition accumulates :: "merkle_config \<Rightarrow> u256 list \<Rightarrow> accumulator \<Rightarrow> bool" where
  "accumulates C xs a \<longleftrightarrow>
     ac_zeros a = zero_value_levels C
   \<and> length (ac_filled_subtrees a) = mc_depth C
   \<and> unat (ac_next_index a) = length xs
   \<and> ac_root a = tree_root C xs
   \<and> (\<forall>l < mc_depth C. odd (length xs div 2 ^ l) \<longrightarrow>
        ac_filled_subtrees a ! l = tree_node C (padded C xs) l (length xs div 2 ^ l - 1))"

section \<open>The tree\<close>

lemma tree_node_cong:
  assumes "\<And>j. i * 2 ^ l \<le> j \<Longrightarrow> j < (i + 1) * 2 ^ l \<Longrightarrow> f j = g j"
  shows "tree_node C f l i = tree_node C g l i"
  using assms
proof (induction l arbitrary: i)
  case 0
  then show ?case by simp
next
  case (Suc l)
  have "tree_node C f l (2 * i) = tree_node C g l (2 * i)"
    by (rule Suc.IH) (rule Suc.prems, simp_all add: algebra_simps)
  moreover have "tree_node C f l (2 * i + 1) = tree_node C g l (2 * i + 1)"
    by (rule Suc.IH) (rule Suc.prems, simp_all add: algebra_simps)
  ultimately show ?case by simp
qed

lemma length_levels_from [simp]: "length (levels_from C c k) = k"
  by (induction k arbitrary: c) simp_all

lemma tree_node_const: "tree_node C (\<lambda>_. c) l i = ((\<lambda>x. mc_hash C x x) ^^ l) c"
  by (induction l arbitrary: i) simp_all

lemma nth_levels_from: "l < k \<Longrightarrow> levels_from C c k ! l = ((\<lambda>x. mc_hash C x x) ^^ l) c"
proof (induction k arbitrary: l c)
  case (Suc k)
  show ?case
  proof (cases l)
    case 0
    then show ?thesis by simp
  next
    case (Suc l')
    then show ?thesis
      using Suc.IH [of l' "mc_hash C c c"] Suc.prems funpow_swap1 [of "\<lambda>x. mc_hash C x x" l' c] by simp
  qed
qed simp

lemma zeros_eq: "l \<le> mc_depth C \<Longrightarrow> zero_value_levels C ! l = tree_node C (\<lambda>_. mc_zero C) l i"
  by (simp add: zero_value_levels_def nth_levels_from tree_node_const del: levels_from.simps)

lemma length_zeros [simp]: "length (zero_value_levels C) = mc_depth C + 1"
  by (simp add: zero_value_levels_def del: levels_from.simps)

text \<open>A node all of whose leaves lie past the last one is a zero subtree.\<close>

lemma padded_past:
  assumes "length xs \<le> i * 2 ^ l" and "l \<le> mc_depth C"
  shows "tree_node C (padded C xs) l i = zero_value_levels C ! l"
  unfolding zeros_eq [OF assms(2), of i]
  by (rule tree_node_cong) (use assms(1) in \<open>simp add: padded_def\<close>)

text \<open>Appending a leaf leaves every node before it alone.\<close>

lemma padded_before:
  assumes "(i + 1) * 2 ^ l \<le> length xs"
  shows "tree_node C (padded C (xs @ ys)) l i = tree_node C (padded C xs) l i"
  by (rule tree_node_cong) (use assms in \<open>simp add: padded_def nth_append\<close>)

lemma tree_root_empty: "tree_root C [] = zero_value_levels C ! mc_depth C"
  unfolding tree_root_def by (rule padded_past) simp_all

lemma accumulates_new: "accumulates C [] (accumulator_new C)"
  by (simp add: accumulates_def accumulator_new_def Let_def tree_root_empty)

section \<open>Insertion\<close>

lemma u64_low_bit: "(w :: u64) AND 1 = 0 \<longleftrightarrow> even (unat w)"
proof -
  have "odd (unat w) = bit (unat w) 0" by (simp add: bit_0)
  also have "\<dots> = bit w 0" by (simp add: bit_unsigned_iff)
  also have "\<dots> = odd w" by (simp add: bit_0)
  finally show ?thesis by (simp add: and_one_eq mod_2_eq_odd)
qed

lemma unat_drop_1: "unat (drop_bit 1 (w :: u64)) = unat w div 2"
  by (simp add: drop_bit_eq_div unat_div)

text \<open>
  The fold over the levels below \<open>k\<close>, for the leaf appended to \<open>xs\<close>: the index is shifted, the current
  value is the tree node above the new leaf, and the frontier is updated at the levels passed.
\<close>

lemma insert_levels:
  fixes C and xs :: "u256 list" and leaf :: u256 and filled :: "u256 list" and index :: u64
  defines "n \<equiv> length xs"
  defines "f \<equiv> padded C (xs @ [leaf])"
  assumes k: "k \<le> mc_depth C" and filled: "length filled = mc_depth C" and index: "unat index = n"
    and old: "\<forall>l < mc_depth C. odd (n div 2 ^ l) \<longrightarrow> filled ! l = tree_node C (padded C xs) l (n div 2 ^ l - 1)"
  shows "\<exists>index' filled'.
      fold (insert_level C (zero_value_levels C)) [0..<k] (index, leaf, filled)
        = (index', tree_node C f k (n div 2 ^ k), filled')
    \<and> unat index' = n div 2 ^ k \<and> length filled' = mc_depth C
    \<and> (\<forall>l. filled' ! l = (if l < k \<and> even (n div 2 ^ l) then tree_node C f l (n div 2 ^ l) else filled ! l))"
  using k
proof (induction k)
  case 0
  have "f n = leaf" by (simp add: f_def n_def padded_def)
  with filled index show ?case by simp
next
  case (Suc k)
  then obtain index' filled' where IH:
    "fold (insert_level C (zero_value_levels C)) [0..<k] (index, leaf, filled)
        = (index', tree_node C f k (n div 2 ^ k), filled')"
    "unat index' = n div 2 ^ k" "length filled' = mc_depth C"
    "\<forall>l. filled' ! l = (if l < k \<and> even (n div 2 ^ l) then tree_node C f l (n div 2 ^ l) else filled ! l)"
    by auto
  let ?i = "n div 2 ^ k"
  have half: "n div 2 ^ Suc k = ?i div 2" by (simp only: power_Suc2 div_mult2_eq)
  have drop: "unat (drop_bit 1 index') = n div 2 ^ Suc k" by (simp only: unat_drop_1 IH(2) half)
  have step: "fold (insert_level C (zero_value_levels C)) [0..<Suc k] (index, leaf, filled)
      = insert_level C (zero_value_levels C) k (index', tree_node C f k ?i, filled')"
    by (simp add: IH(1))
  show ?case
  proof (cases "even ?i")
    case True
    then have i: "?i = 2 * (?i div 2)" by simp
    have "n < (?i + 1) * 2 ^ k"
      by (metis Suc_eq_plus1 dividend_less_times_div mult.commute mult_Suc zero_less_numeral zero_less_power add.commute)
    then have "tree_node C f k (?i + 1) = zero_value_levels C ! k"
      unfolding f_def using Suc.prems by (intro padded_past) (simp_all add: n_def)
    then have "tree_node C f (Suc k) (n div 2 ^ Suc k) = mc_hash C (tree_node C f k ?i) (zero_value_levels C ! k)"
      unfolding half tree_node.simps i [symmetric] by simp
    with True drop IH(3,4) Suc.prems show ?thesis
      unfolding step by (auto simp: insert_level_def u64_low_bit IH(2) nth_list_update less_Suc_eq)
  next
    case False
    then have i: "2 * (?i div 2) = ?i - 1" "2 * (?i div 2) + 1 = ?i" by (simp_all add: odd_two_times_div_two_succ)
    have "?i - 1 + 1 = ?i" using i by metis
    then have le: "(?i - 1 + 1) * 2 ^ k \<le> length xs" by (simp only:) (simp add: n_def)
    have "filled' ! k = tree_node C (padded C xs) k (?i - 1)"
      using IH(4) old False Suc.prems by simp
    also have "\<dots> = tree_node C f k (?i - 1)" unfolding f_def using padded_before [OF le] by simp
    finally have "tree_node C f (Suc k) (n div 2 ^ Suc k) = mc_hash C (filled' ! k) (tree_node C f k ?i)"
      unfolding half tree_node.simps i using odd_pos [OF False] by simp
    with False drop IH(3,4) Suc.prems show ?thesis
      unfolding step by (auto simp: insert_level_def u64_low_bit IH(2) less_Suc_eq)
  qed
qed

text \<open>
  One insert. Level \<open>l\<close> of the new frontier is the old one, unless the new leaf's ancestor there is a
  left child.
\<close>

lemma accumulates_insert:
  assumes acc: "accumulates C xs a" and room: "length xs < 2 ^ mc_depth C" "length xs + 1 < 2 ^ 64"
  shows "accumulates C (xs @ [leaf]) (accumulator_insert C leaf a)"
proof -
  let ?n = "length xs" and ?f = "padded C (xs @ [leaf])"
  have a: "ac_zeros a = zero_value_levels C" "length (ac_filled_subtrees a) = mc_depth C"
    "unat (ac_next_index a) = ?n"
    "\<forall>l < mc_depth C. odd (?n div 2 ^ l) \<longrightarrow>
       ac_filled_subtrees a ! l = tree_node C (padded C xs) l (?n div 2 ^ l - 1)"
    using acc by (simp_all add: accumulates_def)
  obtain index' filled' where fold:
    "fold (insert_level C (zero_value_levels C)) [0..<mc_depth C] (ac_next_index a, leaf, ac_filled_subtrees a)
        = (index', tree_node C ?f (mc_depth C) (?n div 2 ^ mc_depth C), filled')"
    "length filled' = mc_depth C"
    "\<forall>l. filled' ! l = (if l < mc_depth C \<and> even (?n div 2 ^ l) then tree_node C ?f l (?n div 2 ^ l)
        else ac_filled_subtrees a ! l)"
    using insert_levels [OF order.refl a(2,3,4), of leaf] by auto
  have ins: "accumulator_insert C leaf a = a\<lparr>ac_filled_subtrees := filled',
      ac_root := tree_node C ?f (mc_depth C) 0, ac_next_index := ac_next_index a + 1\<rparr>"
    using fold(1) room(1) by (simp add: accumulator_insert_def a(1))
  have next_index: "unat (ac_next_index a + 1) = ?n + 1"
    using a(3) room(2) by (simp add: unat_word_ariths)
  have frontier: "filled' ! l = tree_node C ?f l ((?n + 1) div 2 ^ l - 1)"
    if l: "l < mc_depth C" and odd: "odd ((?n + 1) div 2 ^ l)" for l
  proof (cases "2 ^ l dvd ?n + 1")
    case True
    then have succ: "(?n + 1) div 2 ^ l = Suc (?n div 2 ^ l)"
      by (metis Suc_eq_plus1 div_Suc dvd_eq_mod_eq_0)
    with odd have "even (?n div 2 ^ l)" by simp
    with fold(3) l succ show ?thesis by simp
  next
    case False
    then have same: "(?n + 1) div 2 ^ l = ?n div 2 ^ l"
      by (metis Suc_eq_plus1 div_Suc dvd_eq_mod_eq_0)
    with odd have odd': "odd (?n div 2 ^ l)" by simp
    have "?n div 2 ^ l - 1 + 1 = ?n div 2 ^ l" using odd_pos [OF odd'] by simp
    then have le: "(?n div 2 ^ l - 1 + 1) * 2 ^ l \<le> ?n" by (simp only:) simp
    show ?thesis
      unfolding same using fold(3) l odd' a(4) padded_before [OF le, of C "[leaf]"] by simp
  qed
  show ?thesis
    unfolding accumulates_def ins
    using a(1) fold(2) next_index frontier by (simp add: tree_root_def)
qed

lemma accumulates_fold:
  assumes "accumulates C xs a" and "length xs + length ys \<le> 2 ^ mc_depth C" and "mc_depth C < 64"
  shows "accumulates C (xs @ ys) (fold (accumulator_insert C) ys a)"
  using assms
proof (induction ys arbitrary: xs a)
  case Nil
  then show ?case by simp
next
  case (Cons y ys)
  have "(2::nat) ^ mc_depth C \<le> 2 ^ 63" using Cons.prems(3) by (intro power_increasing) simp_all
  with Cons.prems have "accumulates C (xs @ [y]) (accumulator_insert C y a)"
    by (intro accumulates_insert) simp_all
  from Cons.IH [OF this] Cons.prems show ?case by simp
qed

lemma accumulates_root: "accumulates C xs a \<Longrightarrow> accumulator_root a = tree_root C xs"
  by (simp add: accumulates_def accumulator_root_def)

lemma accumulates_len: "accumulates C xs a \<Longrightarrow> unat (accumulator_len a) = length xs"
  by (simp add: accumulates_def accumulator_len_def)

section \<open>Snapshots\<close>

lemma from_state_state:
  "accumulates C xs a \<Longrightarrow> from_state C (accumulator_state a) = Inr a"
  by (simp add: accumulates_def from_state_def accumulator_state_def)

section \<open>A root binds its leaves\<close>

text \<open>
  Two trees disagree at a node they hash to the same value: a concrete collision of the pairwise hash.
\<close>

definition children :: "merkle_config \<Rightarrow> (nat \<Rightarrow> u256) \<Rightarrow> nat \<Rightarrow> nat \<Rightarrow> u256 \<times> u256" where
  "children C f l i = (tree_node C f l (2 * i), tree_node C f l (2 * i + 1))"

definition collide :: "merkle_config \<Rightarrow> u256 \<times> u256 \<Rightarrow> u256 \<times> u256 \<Rightarrow> bool" where
  "collide C p q \<longleftrightarrow> p \<noteq> q \<and> mc_hash C (fst p) (snd p) = mc_hash C (fst q) (snd q)"

lemma tree_node_binding:
  assumes "tree_node C f l i = tree_node C g l i"
    and "i * 2 ^ l \<le> j" and "j < (i + 1) * 2 ^ l" and "f j \<noteq> g j"
  shows "\<exists>m < l. \<exists>k. collide C (children C f m k) (children C g m k)"
  using assms
proof (induction l arbitrary: i)
  case 0
  then have "j = i" by simp
  with "0.prems" show ?case by simp
next
  case (Suc l)
  show ?case
  proof (cases "children C f l i = children C g l i")
    case True
    then have eq: "tree_node C f l (2 * i) = tree_node C g l (2 * i)"
      "tree_node C f l (2 * i + 1) = tree_node C g l (2 * i + 1)" by (simp_all add: children_def)
    have "\<exists>m < l. \<exists>k. collide C (children C f m k) (children C g m k)"
    proof (cases "j < (2 * i + 1) * 2 ^ l")
      case True
      with Suc.IH [OF eq(1)] Suc.prems(2,4) show ?thesis by (simp add: algebra_simps)
    next
      case False
      with Suc.IH [OF eq(2)] Suc.prems(3,4) show ?thesis by (simp add: algebra_simps)
    qed
    then show ?thesis by (meson less_Suc_eq)
  next
    case False
    with Suc.prems(1) have "collide C (children C f l i) (children C g l i)"
      by (simp add: collide_def children_def)
    then show ?thesis by blast
  qed
qed

lemma tree_root_binding:
  assumes "tree_root C xs = tree_root C ys" and "xs \<noteq> ys"
    and "length xs = length ys" and "length xs \<le> 2 ^ mc_depth C"
  shows "\<exists>m < mc_depth C. \<exists>k. collide C (children C (padded C xs) m k) (children C (padded C ys) m k)"
proof -
  obtain i where i: "i < length xs" "xs ! i \<noteq> ys ! i"
    using assms(2,3) by (metis nth_equalityI)
  show ?thesis
    by (rule tree_node_binding [OF assms(1) [unfolded tree_root_def], of i])
      (use i assms(3,4) in \<open>simp_all add: padded_def\<close>)
qed

section \<open>Properties\<close>

text \<open>C10: the streaming accumulator computes the Merkle root. After inserting any leaves that fit the
  tree, one at a time, holding only one value per level, the accumulator's root is the root of the complete
  tree over the leaves with every remaining position zero-filled, and its length is their number.\<close>

theorem accumulator_root_correct:
  assumes "mc_depth C < 64" and "length leaves \<le> 2 ^ mc_depth C"
  shows "accumulator_root (fold (accumulator_insert C) leaves (accumulator_new C)) = tree_root C leaves
     \<and> unat (accumulator_len (fold (accumulator_insert C) leaves (accumulator_new C))) = length leaves"
  using accumulates_fold [OF accumulates_new, of leaves C] assms accumulates_root accumulates_len by auto

definition sample_config :: "nat \<Rightarrow> merkle_config" where
  "sample_config depth = \<lparr>mc_depth = depth, mc_hash = (\<lambda>a b. 3 * a + 5 * b + 1), mc_zero = 9\<rparr>"

theorem accumulator_root_correct_witness:
  "accumulator_root (fold (accumulator_insert (sample_config 2)) [1, 2, 3] (accumulator_new (sample_config 2)))
       = tree_root (sample_config 2) [1, 2, 3]
     \<and> unat (accumulator_len (fold (accumulator_insert (sample_config 2)) [1, 2, 3] (accumulator_new (sample_config 2))))
       = length [1, 2, 3 :: u256]"
  by (rule accumulator_root_correct) (simp_all add: sample_config_def)

text \<open>A snapshot resumes exactly. Saving an accumulator's state, loading it and appending more
  leaves gives the same accumulator as appending all leaves to a new one.\<close>

theorem snapshot_resumes:
  assumes "mc_depth C < 64" and "length xs + length ys \<le> 2 ^ mc_depth C"
  shows "map_sum id (fold (accumulator_insert C) ys)
       (from_state C (accumulator_state (fold (accumulator_insert C) xs (accumulator_new C))))
     = Inr (fold (accumulator_insert C) (xs @ ys) (accumulator_new C))"
proof -
  have "accumulates C xs (fold (accumulator_insert C) xs (accumulator_new C))"
    using accumulates_fold [OF accumulates_new, of xs C] assms by simp
  then show ?thesis by (simp add: from_state_state)
qed

theorem snapshot_resumes_witness:
  "map_sum id (fold (accumulator_insert (sample_config 2)) [3])
       (from_state (sample_config 2)
          (accumulator_state (fold (accumulator_insert (sample_config 2)) [1, 2] (accumulator_new (sample_config 2)))))
     = Inr (fold (accumulator_insert (sample_config 2)) ([1, 2] @ [3]) (accumulator_new (sample_config 2)))"
  by (rule snapshot_resumes) (simp_all add: sample_config_def)

text \<open>C24: a root commits to its leaves. If two different leaf lists of the same length give the same
  accumulated root, the two trees contain, at one position, two different pairs of children with the
  same hash: validating a wrong set of leaves takes a collision of the pairwise hash.\<close>

theorem root_commits_to_leaves:
  assumes "mc_depth C < 64" and "length ys \<le> 2 ^ mc_depth C" and "length xs = length ys" and "xs \<noteq> ys"
    and "accumulator_root (fold (accumulator_insert C) xs (accumulator_new C))
       = accumulator_root (fold (accumulator_insert C) ys (accumulator_new C))"
  shows "\<exists>level < mc_depth C. \<exists>i. collide C (children C (padded C xs) level i) (children C (padded C ys) level i)"
proof -
  have root: "accumulator_root (fold (accumulator_insert C) zs (accumulator_new C)) = tree_root C zs"
    if "length zs \<le> 2 ^ mc_depth C" for zs
    using accumulates_root [OF accumulates_fold [OF accumulates_new, of zs C]] that assms(1) by simp
  show ?thesis
    by (rule tree_root_binding) (use assms root [of xs] root [of ys] in simp_all)
qed

theorem root_commits_to_leaves_witness:
  "\<exists>level < mc_depth (sample_config 1). \<exists>i.
     collide (sample_config 1) (children (sample_config 1) (padded (sample_config 1) [5, 0]) level i)
       (children (sample_config 1) (padded (sample_config 1) [0, 3]) level i)"
proof (rule root_commits_to_leaves)
  show "accumulator_root (fold (accumulator_insert (sample_config 1)) [5, 0] (accumulator_new (sample_config 1)))
      = accumulator_root (fold (accumulator_insert (sample_config 1)) [0, 3] (accumulator_new (sample_config 1)))"
    by code_simp
qed (simp_all add: sample_config_def)

end
