(* ===== verification/Domain.thy ===== *)
theory Domain
  imports Bytes
begin

text \<open>
  The \<^verbatim>\<open>types\<close> crate: the vocabulary every other crate passes around. The newtypes over \<^verbatim>\<open>U256\<close> and
  \<^verbatim>\<open>B256\<close> (\<^verbatim>\<open>macros.rs\<close>, \<^verbatim>\<open>protocol.rs\<close>, \<^verbatim>\<open>scalar.rs\<close>) have only a constructor and an accessor, so they
  are type synonyms here; a Rust array \<^verbatim>\<open>[u8; N]\<close> is a byte list, and the \<open>wf\<close> predicates say which
  lists have the length the Rust type fixes.
\<close>

section \<open>Errors (lib.rs, protocol.rs, derivation.rs)\<close>

text \<open>A Rust \<^verbatim>\<open>char\<close> is a Unicode scalar value, here its code point.\<close>

type_synonym rust_char = nat

datatype base37_error = InvalidCharacter rust_char | OutputTooLong nat

datatype derivation_path_error = InvalidDerivationPath | DerivationPathTooDeep

datatype type_error =
    Base37Err base37_error
  | DerivationPathErr derivation_path_error
  | InvalidLength nat nat
  | InvalidTokenHash
  | InvalidNodePosition u32
  | ValueOverflow

section \<open>Newtypes (protocol.rs, scalar.rs, curve.rs, block.rs)\<close>

type_synonym nullifier = bytes
type_synonym poseidon_hash = u256
type_synonym commitment_hash = u256
type_synonym railgun_txid = u256
type_synonym field_scalar = u256
type_synonym block_number = u64
type_synonym key32 = bytes

record babyjubjub_point =
  pt_x :: u256
  pt_y :: u256

text \<open>\<^verbatim>\<open>try_from_slice\<close> of the key newtypes, secret and public alike.\<close>

definition key_try_from_slice :: "bytes \<Rightarrow> type_error + key32" where
  "key_try_from_slice bs =
     (if length bs \<noteq> 32 then Inl (InvalidLength 32 (length bs)) else Inr bs)"

text \<open>\<^verbatim>\<open>u64::saturating_add\<close>, behind \<^verbatim>\<open>BlockNumber::saturating_add\<close>.\<close>

definition block_saturating_add :: "block_number \<Rightarrow> u64 \<Rightarrow> block_number" where
  "block_saturating_add b rhs =
     (if unat b + unat rhs < 2 ^ 64 then b + rhs else - 1)"

section \<open>Asset identifiers (asset.rs)\<close>

datatype asset_id = Erc20 bytes

fun token_hash :: "asset_id \<Rightarrow> u256" where
  "token_hash (Erc20 address) = from_be_bytes (replicate 12 0 @ address)"

definition from_token_hash :: "bytes \<Rightarrow> type_error + asset_id" where
  "from_token_hash hash =
     (if length hash \<noteq> 32 then Inl (InvalidLength 32 (length hash))
      else if list_ex (\<lambda>byte. byte \<noteq> 0) (take 12 hash) then Inl InvalidTokenHash
      else Inr (Erc20 (take 20 (drop 12 hash))))"

fun wf_asset :: "asset_id \<Rightarrow> bool" where
  "wf_asset (Erc20 address) \<longleftrightarrow> length address = 20"

section \<open>Positions and note values (commitment.rs)\<close>

definition TREE_LEAF_CAPACITY :: u32 where
  "TREE_LEAF_CAPACITY = 65536"

record node_position =
  tree_number :: u32
  leaf_index :: u32

definition try_new :: "u32 \<Rightarrow> u32 \<Rightarrow> type_error + node_position" where
  "try_new tree leaf =
     (if leaf \<ge> TREE_LEAF_CAPACITY then Inl (InvalidNodePosition leaf)
      else Inr \<lparr>tree_number = tree, leaf_index = leaf\<rparr>)"

text \<open>\<^verbatim>\<open>None\<close> is the panic of \<^verbatim>\<open>expect("normalized tree fits u32")\<close>; the arithmetic is on \<^verbatim>\<open>u64\<close>.\<close>

definition normalized :: "u32 \<Rightarrow> u32 \<Rightarrow> node_position option" where
  "normalized tree leaf =
     (let global = (ucast tree :: u64) * ucast TREE_LEAF_CAPACITY + ucast leaf;
          tree' = global div ucast TREE_LEAF_CAPACITY;
          leaf' = global mod ucast TREE_LEAF_CAPACITY
      in if unat tree' < 2 ^ 32
         then Some \<lparr>tree_number = ucast tree', leaf_index = ucast leaf'\<rparr>
         else None)"

definition wf_position :: "node_position \<Rightarrow> bool" where
  "wf_position p \<longleftrightarrow> leaf_index p < TREE_LEAF_CAPACITY"

definition note_value_try_from_u256 :: "u256 \<Rightarrow> type_error + u128" where
  "note_value_try_from_u256 v =
     (let bs = to_be_bytes v
      in if list_ex (\<lambda>byte. byte \<noteq> 0) (take 16 bs) then Inl ValueOverflow
         else Inr (from_be_bytes (drop 16 bs)))"

definition note_value_as_u256 :: "u128 \<Rightarrow> u256" where
  "note_value_as_u256 v = ucast v"

section \<open>Commitment nodes (commitment.rs)\<close>

record ciphertext =
  ct_iv :: bytes
  ct_tag :: bytes
  ct_data :: "bytes list"

datatype blinded_commitment_type = ShieldCommitment | TransactCommitment

record shield_body =
  sh_npk :: u256
  sh_token :: asset_id
  sh_value :: u256
  sh_encrypted_bundle :: "bytes list"
  sh_shield_key :: key32

record transact_body =
  tr_ciphertext :: ciphertext
  tr_memo :: bytes
  tr_blinded_sender_key :: key32
  tr_blinded_receiver_key :: key32
  tr_annotation :: bytes

datatype node_body = Shield shield_body | Transact transact_body

record node =
  nd_position :: node_position
  nd_hash :: commitment_hash
  nd_block :: block_number
  nd_body :: node_body

record nullified =
  nf_tree_number :: u32
  nf_nullifier :: nullifier

text \<open>What the Rust types guarantee of a node: the array lengths and the position's invariant.\<close>

definition wf_ciphertext :: "ciphertext \<Rightarrow> bool" where
  "wf_ciphertext c \<longleftrightarrow> length (ct_iv c) = 16 \<and> length (ct_tag c) = 16"

definition wf_shield :: "shield_body \<Rightarrow> bool" where
  "wf_shield b \<longleftrightarrow> wf_asset (sh_token b) \<and> list_all (\<lambda>w. length w = 32) (sh_encrypted_bundle b)
     \<and> length (sh_shield_key b) = 32"

definition wf_transact :: "transact_body \<Rightarrow> bool" where
  "wf_transact b \<longleftrightarrow> wf_ciphertext (tr_ciphertext b)
     \<and> length (tr_blinded_sender_key b) = 32 \<and> length (tr_blinded_receiver_key b) = 32"

fun wf_body :: "node_body \<Rightarrow> bool" where
  "wf_body (Shield b) = wf_shield b"
| "wf_body (Transact b) = wf_transact b"

definition wf_node :: "node \<Rightarrow> bool" where
  "wf_node n \<longleftrightarrow> wf_position (nd_position n) \<and> wf_body (nd_body n)"

definition wf_nullified :: "nullified \<Rightarrow> bool" where
  "wf_nullified n \<longleftrightarrow> length (nf_nullifier n) = 32"

section \<open>Lemmas\<close>

lemma try_new_eq_Inr:
  "try_new t l = Inr p \<longleftrightarrow> l < TREE_LEAF_CAPACITY \<and> p = \<lparr>tree_number = t, leaf_index = l\<rparr>"
  by (auto simp: try_new_def)

lemma wf_position_nat: "wf_position p \<longleftrightarrow> unat (leaf_index p) < 65536"
  by (simp add: wf_position_def TREE_LEAF_CAPACITY_def word_less_nat_alt)

lemma unat_block_saturating_add:
  "unat (block_saturating_add b r) = min (unat b + unat r) (2 ^ 64 - 1)"
proof (cases "unat b + unat r < 2 ^ 64")
  case True
  then show ?thesis by (simp add: block_saturating_add_def unat_word_ariths)
next
  case False
  then show ?thesis by (simp add: block_saturating_add_def unat_minus_one)
qed

lemma list_all_zero_replicate: "\<not> list_ex (\<lambda>b. b \<noteq> (0 :: byte)) bs \<longleftrightarrow> bs = replicate (length bs) 0"
  by (induction bs) auto

lemma be_nat_zeros_append: "be_nat (replicate k 0 @ bs) = be_nat bs"
  by (induction k) (simp_all add: be_nat_Cons)

lemma be_nat_take_zero:
  assumes "k \<le> length bs"
  shows "take k bs = replicate k 0 \<longleftrightarrow> be_nat bs < 256 ^ (length bs - k)"
proof -
  have split: "be_nat bs = be_nat (take k bs) * 256 ^ (length bs - k) + be_nat (drop k bs)"
    using be_nat_append [of "take k bs" "drop k bs"] by simp
  have low: "be_nat (drop k bs) < 256 ^ (length bs - k)"
    using be_nat_less [of "drop k bs"] by simp
  have "take k bs = replicate k 0 \<longleftrightarrow> be_nat (take k bs) = 0"
    using be_bytes_be_nat [of "take k bs"] be_bytes_be_nat [of "replicate k (0 :: byte)"]
      be_nat_zeros_append [of k "[]"] assms
    by (metis append_Nil2 be_nat_Nil length_replicate length_take min.absorb2)
  also have "\<dots> \<longleftrightarrow> be_nat bs < 256 ^ (length bs - k)"
    using split low by (cases "be_nat (take k bs)") auto
  finally show ?thesis .
qed

lemma from_token_hash_eq_Inr:
  "from_token_hash h = Inr a \<longleftrightarrow>
     length h = 32 \<and> take 12 h = replicate 12 0 \<and> a = Erc20 (drop 12 h)"
  using list_all_zero_replicate [of "take 12 h"]
  by (auto simp: from_token_hash_def)

lemma from_token_hash_token_hash:
  "wf_asset a \<Longrightarrow> from_token_hash (to_be_bytes (token_hash a)) = Inr a"
  by (cases a) (simp add: from_token_hash_eq_Inr to_from_be_bytes)

lemma token_hash_from_token_hash:
  assumes "from_token_hash h = Inr a"
  shows "wf_asset a \<and> to_be_bytes (token_hash a) = h"
proof -
  from assms have h: "length h = 32" "take 12 h = replicate 12 0" and a: "a = Erc20 (drop 12 h)"
    by (simp_all add: from_token_hash_eq_Inr)
  have "replicate 12 0 @ drop 12 h = h"
    using h(2) by (metis append_take_drop_id)
  with h a show ?thesis by (simp add: to_from_be_bytes)
qed

lemma note_value_try_from_u256_eq:
  "note_value_try_from_u256 v = (if unat v < 2 ^ 128 then Inr (ucast v) else Inl ValueOverflow)"
proof -
  let ?bs = "to_be_bytes v"
  have n: "be_nat ?bs = unat v" by (simp add: be_nat_to_be_bytes)
  have zero: "list_ex (\<lambda>b. b \<noteq> 0) (take 16 ?bs) \<longleftrightarrow> \<not> unat v < 2 ^ 128"
    using be_nat_take_zero [of 16 ?bs] list_all_zero_replicate [of "take 16 ?bs"] n by auto
  have "from_be_bytes (drop 16 ?bs) = (ucast v :: u128)" if "unat v < 2 ^ 128"
  proof -
    have "take 16 ?bs = replicate 16 0"
      using be_nat_take_zero [of 16 ?bs] n that by simp
    then have "be_nat ?bs = be_nat (drop 16 ?bs)"
      by (metis append_take_drop_id be_nat_zeros_append)
    then have "from_be_bytes (drop 16 ?bs) = (of_nat (unat v) :: u128)"
      using n by (simp add: from_be_bytes_def del: of_nat_unat)
    then show ?thesis by simp
  qed
  with zero show ?thesis by (simp add: note_value_try_from_u256_def)
qed

lemma normalized_eq:
  "normalized t l =
     (let g = unat t * 65536 + unat l
      in if g div 65536 < 2 ^ 32
         then Some \<lparr>tree_number = of_nat (g div 65536), leaf_index = of_nat (g mod 65536)\<rparr>
         else None)"
proof -
  have t: "unat t < 2 ^ 32" and l: "unat l < 2 ^ 32"
    using unsigned_less [of t, where 'a = nat] unsigned_less [of l, where 'a = nat] by simp_all
  let ?g = "(ucast t :: u64) * 65536 + ucast l"
  have g: "unat ?g = unat t * 65536 + unat l"
    using t l by (simp add: unat_word_ariths unat_ucast_small)
  have d: "unat (?g div 65536) = (unat t * 65536 + unat l) div 65536"
    using g by (simp add: unat_div)
  have m: "unat (?g mod 65536) = (unat t * 65536 + unat l) mod 65536"
    using g by (simp add: unat_mod)
  have ucast_nat: "ucast w = (of_nat (unat w) :: u32)" for w :: u64
    by simp
  show ?thesis
    unfolding normalized_def Let_def TREE_LEAF_CAPACITY_def
    by (simp add: ucast_nat d m del: of_nat_unat)
qed

lemma note_value_widen:
  "note_value_try_from_u256 w = Inr v \<longleftrightarrow> note_value_as_u256 v = w"
proof -
  have v: "unat (ucast v :: u256) = unat v"
    using unsigned_less [of v, where 'a = nat] by (intro unat_ucast_small) simp
  have "(ucast v :: u256) = w \<longleftrightarrow> unat v = unat w"
    by (metis v word_unat_eq_iff)
  moreover have "(ucast w :: u128) = v \<longleftrightarrow> unat w = unat v" if "unat w < 2 ^ 128"
    using that by (simp add: word_unat_eq_iff unat_ucast_small)
  moreover have "unat v < 2 ^ 128" using unsigned_less [of v, where 'a = nat] by simp
  ultimately show ?thesis
    by (auto simp: note_value_try_from_u256_eq note_value_as_u256_def)
qed

lemma normalized_cases:
  "case normalized tree leaf of
     Some p \<Rightarrow> wf_position p
       \<and> unat (tree_number p) * 65536 + unat (leaf_index p) = unat tree * 65536 + unat leaf
   | None \<Rightarrow> \<not> (\<exists>p. wf_position p
       \<and> unat (tree_number p) * 65536 + unat (leaf_index p) = unat tree * 65536 + unat leaf)"
proof -
  let ?g = "unat tree * 65536 + unat leaf"
  show ?thesis
  proof (cases "?g div 65536 < 2 ^ 32")
    case True
    have "unat (of_nat (?g div 65536) :: u32) = ?g div 65536"
      using True by (intro unat_of_nat_small) simp
    moreover have "?g mod 65536 < 65536" by simp
    then have "unat (of_nat (?g mod 65536) :: u32) = ?g mod 65536"
      by (intro unat_of_nat_small) (erule order.strict_trans, simp)
    moreover have "?g div 65536 * 65536 + ?g mod 65536 = ?g" by (rule div_mult_mod_eq)
    ultimately show ?thesis
      using True by (simp add: normalized_eq Let_def wf_position_nat)
  next
    case False
    have "unat (tree_number p) * 65536 + unat (leaf_index p) \<noteq> ?g" if "wf_position p" for p
    proof
      assume eq: "unat (tree_number p) * 65536 + unat (leaf_index p) = ?g"
      have "?g div 65536 = unat (tree_number p)"
        using that by (subst eq [symmetric]) (simp add: wf_position_nat)
      with False unsigned_less [of "tree_number p", where 'a = nat] show False by simp
    qed
    with False show ?thesis by (simp add: normalized_eq Let_def)
  qed
qed

lemma normalized_position:
  "normalized tree leaf = Some p \<Longrightarrow> wf_position p
     \<and> unat (tree_number p) * 65536 + unat (leaf_index p) = unat tree * 65536 + unat leaf"
  using normalized_cases [of tree leaf] by simp

section \<open>Properties\<close>

text \<open>An asset and its token hash determine each other. A 32-byte hash parses to an asset if and
  only if it is the big-endian token hash of that asset, a well-formed 20-byte address; every other byte
  string is rejected.\<close>

theorem token_hash_exact:
  "from_token_hash hash = Inr a \<longleftrightarrow> wf_asset a \<and> to_be_bytes (token_hash a) = hash"
  using from_token_hash_token_hash token_hash_from_token_hash by blast

text \<open>A note value is read from a 256-bit word exactly when it fits 128 bits: the conversion
  succeeds with \<open>v\<close> if and only if widening \<open>v\<close> gives the word back.\<close>

theorem note_value_exact:
  "note_value_try_from_u256 w = Inr v \<longleftrightarrow> note_value_as_u256 v = w"
  by (rule note_value_widen)

text \<open>Normalizing a raw chain position keeps the global leaf index. The result is a valid position
  (leaf index below the capacity of a tree) that denotes the same global leaf; the panic on a tree number
  past 32 bits happens exactly when no such position exists.\<close>

theorem normalized_keeps_global_index:
  "case normalized tree leaf of
     Some p \<Rightarrow> wf_position p
       \<and> unat (tree_number p) * 65536 + unat (leaf_index p) = unat tree * 65536 + unat leaf
   | None \<Rightarrow> \<not> (\<exists>p. wf_position p
       \<and> unat (tree_number p) * 65536 + unat (leaf_index p) = unat tree * 65536 + unat leaf)"
  by (rule normalized_cases)

end
