(* ===== verification/Codec.thy ===== *)
theory Codec
  imports Domain
begin

text \<open>
  The byte-exact record codec (\<^verbatim>\<open>database/src/tables/codec.rs\<close>): \<^verbatim>\<open>encode_node\<close> and its \<^verbatim>\<open>put_*\<close>
  helpers, the cursor \<^verbatim>\<open>Reader\<close> and its \<^verbatim>\<open>take_*\<close> methods, \<^verbatim>\<open>decode_node\<close> and \<^verbatim>\<open>decode_hash\<close>. An
  encoder that meets \<^verbatim>\<open>blob_len\<close>'s \<^verbatim>\<open>expect\<close> panics: that is \<open>None\<close>. The lemmas show that the two
  directions are inverse, so the layout is canonical: a record has one encoding and only encodings
  decode.
\<close>

section \<open>Encoding\<close>

datatype codec_error =
    UnexpectedEof
  | TrailingBytes
  | InvalidCommitmentTag u8
  | InvalidAssetTag u8
  | CodecType type_error

definition TAG_SHIELD :: u8 where "TAG_SHIELD = 0"
definition TAG_TRANSACT :: u8 where "TAG_TRANSACT = 1"
definition TAG_ERC20 :: u8 where "TAG_ERC20 = 0"

definition put_u256 :: "bytes \<Rightarrow> u256 \<Rightarrow> bytes" where
  "put_u256 buf v = buf @ to_be_bytes v"

definition put_u64 :: "bytes \<Rightarrow> u64 \<Rightarrow> bytes" where
  "put_u64 buf v = buf @ to_be_bytes v"

definition put_u32 :: "bytes \<Rightarrow> u32 \<Rightarrow> bytes" where
  "put_u32 buf v = buf @ to_be_bytes v"

definition blob_len :: "nat \<Rightarrow> u32 option" where
  "blob_len len = (if len < 2 ^ 32 then Some (of_nat len) else None)"

definition put_blob :: "bytes \<Rightarrow> bytes \<Rightarrow> bytes option" where
  "put_blob buf bs =
     (case blob_len (length bs) of None \<Rightarrow> None | Some n \<Rightarrow> Some (put_u32 buf n @ bs))"

primrec put_blobs :: "bytes \<Rightarrow> bytes list \<Rightarrow> bytes option" where
  "put_blobs buf [] = Some buf"
| "put_blobs buf (block # blocks) =
     (case put_blob buf block of None \<Rightarrow> None | Some buf' \<Rightarrow> put_blobs buf' blocks)"

definition put_bundle :: "bytes \<Rightarrow> bytes list \<Rightarrow> bytes option" where
  "put_bundle buf bundle =
     (case blob_len (length bundle) of None \<Rightarrow> None
      | Some n \<Rightarrow> Some (foldl (@) (put_u32 buf n) bundle))"

definition put_ciphertext :: "bytes \<Rightarrow> ciphertext \<Rightarrow> bytes option" where
  "put_ciphertext buf c =
     (case blob_len (length (ct_data c)) of None \<Rightarrow> None
      | Some n \<Rightarrow> put_blobs (put_u32 (buf @ ct_iv c @ ct_tag c) n) (ct_data c))"

fun put_asset :: "bytes \<Rightarrow> asset_id \<Rightarrow> bytes" where
  "put_asset buf (Erc20 address) = (buf @ [TAG_ERC20]) @ address"

definition put_position :: "bytes \<Rightarrow> node_position \<Rightarrow> bytes" where
  "put_position buf p = put_u32 (put_u32 buf (tree_number p)) (leaf_index p)"

fun put_body :: "bytes \<Rightarrow> node_body \<Rightarrow> bytes option" where
  "put_body buf (Shield b) =
     (let buf = buf @ [TAG_SHIELD];
          buf = put_u256 buf (sh_npk b);
          buf = put_asset buf (sh_token b);
          buf = put_u256 buf (sh_value b)
      in case put_bundle buf (sh_encrypted_bundle b) of None \<Rightarrow> None
         | Some buf \<Rightarrow> Some (buf @ sh_shield_key b))"
| "put_body buf (Transact b) =
     (let buf = buf @ [TAG_TRANSACT]
      in case put_ciphertext buf (tr_ciphertext b) of None \<Rightarrow> None
         | Some buf \<Rightarrow>
            (case put_blob buf (tr_memo b) of None \<Rightarrow> None
             | Some buf \<Rightarrow>
                put_blob ((buf @ tr_blinded_sender_key b) @ tr_blinded_receiver_key b)
                  (tr_annotation b)))"

definition encode_node :: "node \<Rightarrow> bytes option" where
  "encode_node n =
     (let buf = put_position [] (nd_position n);
          buf = put_u256 buf (nd_hash n);
          buf = put_u64 buf (nd_block n)
      in put_body buf (nd_body n))"

section \<open>Decoding\<close>

record wire_reader =
  wr_bytes :: bytes
  wr_pos :: nat

type_synonym 'a wire = "wire_reader \<Rightarrow> codec_error + 'a \<times> wire_reader"

text \<open>A method on \<^verbatim>\<open>&mut Reader\<close> returns its value and the advanced reader; \<open>wr_bind\<close> is \<^verbatim>\<open>?\<close>.\<close>

definition wr_return :: "'a \<Rightarrow> 'a wire" where
  "wr_return x r = Inr (x, r)"

definition wr_fail :: "codec_error \<Rightarrow> 'a wire" where
  "wr_fail e r = Inl e"

definition wr_bind :: "'a wire \<Rightarrow> ('a \<Rightarrow> 'b wire) \<Rightarrow> 'b wire" where
  "wr_bind p q r = res_bind (p r) (\<lambda>(x, r'). q x r')"

text \<open>\<^verbatim>\<open>usize::checked_add\<close>, then the bounds check of \<^verbatim>\<open>slice::get\<close>.\<close>

definition wr_take :: "nat \<Rightarrow> bytes wire" where
  "wr_take len r =
     (let end = wr_pos r + len
      in if end \<ge> 2 ^ 64 then Inl UnexpectedEof
         else if end > length (wr_bytes r) then Inl UnexpectedEof
         else Inr (take len (drop (wr_pos r) (wr_bytes r)), r\<lparr>wr_pos := end\<rparr>))"

definition take_u8 :: "u8 wire" where
  "take_u8 = wr_bind (wr_take 1) (\<lambda>bs. wr_return (hd bs))"

definition take_u32 :: "u32 wire" where
  "take_u32 = wr_bind (wr_take 4) (\<lambda>bs. wr_return (from_be_bytes bs))"

definition take_u64 :: "u64 wire" where
  "take_u64 = wr_bind (wr_take 8) (\<lambda>bs. wr_return (from_be_bytes bs))"

definition take_array32 :: "bytes wire" where
  "take_array32 = wr_take 32"

definition take_u256 :: "u256 wire" where
  "take_u256 = wr_bind take_array32 (\<lambda>bs. wr_return (from_be_bytes bs))"

definition take_blob :: "bytes wire" where
  "take_blob = wr_bind take_u32 (\<lambda>len. wr_take (unat len))"

primrec wr_repeat :: "nat \<Rightarrow> 'a wire \<Rightarrow> 'a list wire" where
  "wr_repeat 0 p = wr_return []"
| "wr_repeat (Suc n) p = wr_bind p (\<lambda>x. wr_bind (wr_repeat n p) (\<lambda>xs. wr_return (x # xs)))"

definition take_bundle :: "bytes list wire" where
  "take_bundle = wr_bind take_u32 (\<lambda>count. wr_repeat (unat count) take_array32)"

definition take_position :: "node_position wire" where
  "take_position =
     wr_bind take_u32 (\<lambda>tree. wr_bind take_u32 (\<lambda>leaf.
       (\<lambda>r. map_err CodecType (res_bind (try_new tree leaf) (\<lambda>p. Inr (p, r))))))"

definition take_asset :: "asset_id wire" where
  "take_asset =
     wr_bind take_u8 (\<lambda>tag.
       if tag = TAG_ERC20 then wr_bind (wr_take 20) (\<lambda>address. wr_return (Erc20 address))
       else wr_fail (InvalidAssetTag tag))"

definition take_ciphertext :: "ciphertext wire" where
  "take_ciphertext =
     wr_bind (wr_take 16) (\<lambda>iv. wr_bind (wr_take 16) (\<lambda>tag.
     wr_bind take_u32 (\<lambda>block_count. wr_bind (wr_repeat (unat block_count) take_blob) (\<lambda>data.
     wr_return \<lparr>ct_iv = iv, ct_tag = tag, ct_data = data\<rparr>))))"

definition finish :: "unit wire" where
  "finish r = (if wr_pos r = length (wr_bytes r) then Inr ((), r) else Inl TrailingBytes)"

definition take_body :: "node_body wire" where
  "take_body =
     wr_bind take_u8 (\<lambda>tag.
       if tag = TAG_SHIELD then
         wr_bind take_u256 (\<lambda>npk. wr_bind take_asset (\<lambda>token. wr_bind take_u256 (\<lambda>value.
         wr_bind take_bundle (\<lambda>bundle. wr_bind take_array32 (\<lambda>key.
         wr_return (Shield \<lparr>sh_npk = npk, sh_token = token, sh_value = value,
           sh_encrypted_bundle = bundle, sh_shield_key = key\<rparr>))))))
       else if tag = TAG_TRANSACT then
         wr_bind take_ciphertext (\<lambda>ciphertext. wr_bind take_blob (\<lambda>memo.
         wr_bind take_array32 (\<lambda>sender. wr_bind take_array32 (\<lambda>receiver.
         wr_bind take_blob (\<lambda>annotation.
         wr_return (Transact \<lparr>tr_ciphertext = ciphertext, tr_memo = memo,
           tr_blinded_sender_key = sender, tr_blinded_receiver_key = receiver,
           tr_annotation = annotation\<rparr>))))))
       else wr_fail (InvalidCommitmentTag tag))"

text \<open>The body of \<^verbatim>\<open>decode_node\<close> on the reader that \<^verbatim>\<open>Reader::new(bytes)\<close> starts.\<close>

definition take_node :: "node wire" where
  "take_node =
     wr_bind take_position (\<lambda>position. wr_bind take_u256 (\<lambda>hash. wr_bind take_u64 (\<lambda>block.
     wr_bind take_body (\<lambda>body. wr_bind finish (\<lambda>_.
     wr_return \<lparr>nd_position = position, nd_hash = hash, nd_block = block, nd_body = body\<rparr>)))))"

definition decode_node :: "bytes \<Rightarrow> codec_error + node" where
  "decode_node bs = res_bind (take_node \<lparr>wr_bytes = bs, wr_pos = 0\<rparr>) (\<lambda>(n, r). Inr n)"

definition decode_hash :: "bytes \<Rightarrow> codec_error + commitment_hash" where
  "decode_hash bs =
     res_bind (wr_bind take_position (\<lambda>_. take_u256) \<lparr>wr_bytes = bs, wr_pos = 0\<rparr>)
       (\<lambda>(h, r). Inr h)"

section \<open>Decoding what was encoded\<close>

text \<open>
  \<open>written p e x\<close>: on any input where the bytes \<open>e\<close> stand at the cursor, \<open>p\<close> returns \<open>x\<close> and
  leaves the cursor behind them. A Rust slice never has \<open>2 ^ 64\<close> bytes.
\<close>

definition written :: "'a wire \<Rightarrow> bytes \<Rightarrow> 'a \<Rightarrow> bool" where
  "written p e x \<longleftrightarrow> (\<forall>pre post. length (pre @ e @ post) < 2 ^ 64 \<longrightarrow>
     p \<lparr>wr_bytes = pre @ e @ post, wr_pos = length pre\<rparr>
       = Inr (x, \<lparr>wr_bytes = pre @ e @ post, wr_pos = length pre + length e\<rparr>))"

lemma written_return: "written (wr_return x) [] x"
  by (simp add: written_def wr_return_def)

lemma written_bind:
  assumes "written p e x" and "written (q x) e' y"
  shows "written (wr_bind p q) (e @ e') y"
  unfolding written_def
proof (intro allI impI)
  fix pre post :: bytes
  assume len: "length (pre @ (e @ e') @ post) < 2 ^ 64"
  have "p \<lparr>wr_bytes = pre @ e @ (e' @ post), wr_pos = length pre\<rparr>
      = Inr (x, \<lparr>wr_bytes = pre @ e @ (e' @ post), wr_pos = length pre + length e\<rparr>)"
    using assms(1) [unfolded written_def, rule_format, of pre "e' @ post"] len by simp
  moreover have "q x \<lparr>wr_bytes = (pre @ e) @ e' @ post, wr_pos = length (pre @ e)\<rparr>
      = Inr (y, \<lparr>wr_bytes = (pre @ e) @ e' @ post, wr_pos = length (pre @ e) + length e'\<rparr>)"
    using assms(2) [unfolded written_def, rule_format, of "pre @ e" post] len by simp
  ultimately show "wr_bind p q \<lparr>wr_bytes = pre @ (e @ e') @ post, wr_pos = length pre\<rparr>
      = Inr (y, \<lparr>wr_bytes = pre @ (e @ e') @ post, wr_pos = length pre + length (e @ e')\<rparr>)"
    by (simp add: wr_bind_def add.assoc)
qed

lemma written_bind_return:
  "written p e x \<Longrightarrow> f x = y \<Longrightarrow> written (wr_bind p (\<lambda>x. wr_return (f x))) e y"
  using written_bind [of p e x "\<lambda>x. wr_return (f x)" "[]" y] written_return [of y] by simp

lemma written_take: "length e = n \<Longrightarrow> written (wr_take n) e e"
  by (auto simp: written_def wr_take_def Let_def)

lemma written_u8: "written take_u8 [b] b"
  unfolding take_u8_def by (rule written_bind_return [OF written_take]) simp_all

lemma written_u32: "written take_u32 (to_be_bytes v) v"
  unfolding take_u32_def by (rule written_bind_return [OF written_take]) simp_all

lemma written_u64: "written take_u64 (to_be_bytes v) v"
  unfolding take_u64_def by (rule written_bind_return [OF written_take]) simp_all

lemma written_array32: "length e = 32 \<Longrightarrow> written take_array32 e e"
  unfolding take_array32_def by (rule written_take)

lemma written_u256: "written take_u256 (to_be_bytes v) v"
  unfolding take_u256_def by (rule written_bind_return [OF written_array32]) simp_all

lemma written_repeat:
  assumes "\<forall>x \<in> set xs. written p (f x) x"
  shows "written (wr_repeat (length xs) p) (concat (map f xs)) xs"
  using assms
proof (induction xs)
  case Nil
  then show ?case by (simp add: written_return)
next
  case (Cons x xs)
  have "written (wr_bind (wr_repeat (length xs) p) (\<lambda>xs. wr_return (x # xs)))
      (concat (map f xs)) (x # xs)"
    using Cons by (intro written_bind_return) simp_all
  with Cons.prems show ?case by (auto intro!: written_bind)
qed

lemma blob_len_eq_Some: "blob_len n = Some w \<longleftrightarrow> n < 2 ^ 32 \<and> w = of_nat n"
  by (auto simp: blob_len_def)

definition blob_bytes :: "bytes \<Rightarrow> bytes" where
  "blob_bytes bs = to_be_bytes (of_nat (length bs) :: u32) @ bs"

lemma put_blob_eq [wire_simps]:
  "put_blob buf bs = (if length bs < 2 ^ 32 then Some (buf @ blob_bytes bs) else None)"
  by (simp add: put_blob_def blob_len_def put_u32_def blob_bytes_def)

lemma put_blobs_eq [wire_simps]:
  "put_blobs buf blocks =
     (if \<forall>b \<in> set blocks. length b < 2 ^ 32 then Some (buf @ concat (map blob_bytes blocks)) else None)"
  by (induction blocks arbitrary: buf) (simp_all add: put_blob_eq)

lemma foldl_append: "foldl (@) buf xs = buf @ concat xs"
  by (induction xs arbitrary: buf) simp_all

lemma written_blob:
  assumes "length bs < 2 ^ 32"
  shows "written take_blob (blob_bytes bs) bs"
  unfolding take_blob_def blob_bytes_def
proof (rule written_bind [OF written_u32])
  show "written (wr_take (unat (of_nat (length bs) :: u32))) bs bs"
    using assms by (intro written_take) (simp add: unat_of_nat_small)
qed

definition bundle_bytes :: "bytes list \<Rightarrow> bytes" where
  "bundle_bytes ws = to_be_bytes (of_nat (length ws) :: u32) @ concat ws"

lemma put_bundle_eq [wire_simps]:
  "put_bundle buf ws = (if length ws < 2 ^ 32 then Some (buf @ bundle_bytes ws) else None)"
  by (simp add: put_bundle_def blob_len_def put_u32_def bundle_bytes_def foldl_append)

lemma written_bundle:
  assumes "length ws < 2 ^ 32" and "list_all (\<lambda>w. length w = 32) ws"
  shows "written take_bundle (bundle_bytes ws) ws"
  unfolding take_bundle_def bundle_bytes_def
proof (rule written_bind [OF written_u32])
  have "written (wr_repeat (length ws) take_array32) (concat (map (\<lambda>w. w) ws)) ws"
    using assms(2) by (intro written_repeat) (auto simp: list_all_iff intro: written_array32)
  then show "written (wr_repeat (unat (of_nat (length ws) :: u32)) take_array32) (concat ws) ws"
    using assms(1) by (simp add: unat_of_nat_small)
qed

definition ciphertext_bytes :: "ciphertext \<Rightarrow> bytes" where
  "ciphertext_bytes c = ct_iv c @ ct_tag c @ to_be_bytes (of_nat (length (ct_data c)) :: u32)
     @ concat (map blob_bytes (ct_data c))"

lemma put_ciphertext_eq [wire_simps]:
  "put_ciphertext buf c =
     (if length (ct_data c) < 2 ^ 32 \<and> (\<forall>b \<in> set (ct_data c). length b < 2 ^ 32)
      then Some (buf @ ciphertext_bytes c) else None)"
  by (simp add: put_ciphertext_def blob_len_def put_blobs_eq put_u32_def ciphertext_bytes_def)

lemma written_ciphertext:
  assumes "wf_ciphertext c" and "length (ct_data c) < 2 ^ 32"
    and "\<forall>b \<in> set (ct_data c). length b < 2 ^ 32"
  shows "written take_ciphertext (ciphertext_bytes c) c"
proof -
  have data: "written (wr_repeat (unat (of_nat (length (ct_data c)) :: u32)) take_blob)
      (concat (map blob_bytes (ct_data c))) (ct_data c)"
    using written_repeat [of "ct_data c" take_blob blob_bytes] assms(2,3)
    by (simp add: unat_of_nat_small written_blob)
  show ?thesis
    unfolding take_ciphertext_def ciphertext_bytes_def
    using assms(1)
    by (intro written_bind [OF written_take] written_bind [OF written_u32]
        written_bind_return [OF data]) (simp_all add: wf_ciphertext_def)
qed

lemma written_asset: "wf_asset a \<Longrightarrow> written take_asset (put_asset [] a) a"
  by (cases a) (auto simp: take_asset_def TAG_ERC20_def
      intro!: written_bind [OF written_u8, where e' = "_ :: bytes", simplified]
        written_bind_return [OF written_take])

lemma put_asset_append: "put_asset buf a = buf @ put_asset [] a"
  by (cases a) simp

lemma written_position:
  assumes "wf_position p"
  shows "written take_position (put_position [] p) p"
proof -
  have "written (\<lambda>r. map_err CodecType (res_bind (try_new (tree_number p) (leaf_index p))
      (\<lambda>p. Inr (p, r)))) [] p"
    using assms by (auto simp: written_def try_new_def wf_position_def not_le)
  then have "written take_position (to_be_bytes (tree_number p) @ to_be_bytes (leaf_index p) @ []) p"
    unfolding take_position_def by (intro written_bind [OF written_u32])
  then show ?thesis by (simp add: put_position_def put_u32_def)
qed

text \<open>The bytes of a body and of a record, and when \<^verbatim>\<open>blob_len\<close> lets the encoder through.\<close>

fun encodable_body :: "node_body \<Rightarrow> bool" where
  "encodable_body (Shield b) \<longleftrightarrow> length (sh_encrypted_bundle b) < 2 ^ 32"
| "encodable_body (Transact b) \<longleftrightarrow> length (ct_data (tr_ciphertext b)) < 2 ^ 32
     \<and> (\<forall>block \<in> set (ct_data (tr_ciphertext b)). length block < 2 ^ 32)
     \<and> length (tr_memo b) < 2 ^ 32 \<and> length (tr_annotation b) < 2 ^ 32"

fun body_bytes :: "node_body \<Rightarrow> bytes" where
  "body_bytes (Shield b) = [TAG_SHIELD] @ to_be_bytes (sh_npk b) @ put_asset [] (sh_token b)
     @ to_be_bytes (sh_value b) @ bundle_bytes (sh_encrypted_bundle b) @ sh_shield_key b"
| "body_bytes (Transact b) = [TAG_TRANSACT] @ ciphertext_bytes (tr_ciphertext b)
     @ blob_bytes (tr_memo b) @ tr_blinded_sender_key b @ tr_blinded_receiver_key b
     @ blob_bytes (tr_annotation b)"

definition node_bytes :: "node \<Rightarrow> bytes" where
  "node_bytes n = put_position [] (nd_position n) @ to_be_bytes (nd_hash n)
     @ to_be_bytes (nd_block n) @ body_bytes (nd_body n)"

lemma put_body_eq [wire_simps]:
  "put_body buf b = (if encodable_body b then Some (buf @ body_bytes b) else None)"
proof (cases b)
  case (Shield s)
  then show ?thesis
    using put_asset_append [of "buf @ TAG_SHIELD # to_be_bytes (sh_npk s)" "sh_token s"]
    by (simp add: Let_def put_u256_def put_bundle_eq)
next
  case (Transact t)
  then show ?thesis
    by (simp add: Let_def put_ciphertext_eq put_blob_eq)
qed

lemma encode_node_eq [wire_simps]:
  "encode_node n = (if encodable_body (nd_body n) then Some (node_bytes n) else None)"
  by (simp add: encode_node_def Let_def put_body_eq node_bytes_def put_u256_def put_u64_def)

lemma written_shield:
  assumes "wf_shield b" and "encodable_body (Shield b)"
  shows "written take_body (body_bytes (Shield b)) (Shield b)"
proof -
  let ?fields = "wr_bind take_u256 (\<lambda>npk. wr_bind take_asset (\<lambda>token. wr_bind take_u256 (\<lambda>value.
         wr_bind take_bundle (\<lambda>bundle. wr_bind take_array32 (\<lambda>key.
         wr_return (Shield \<lparr>sh_npk = npk, sh_token = token, sh_value = value,
           sh_encrypted_bundle = bundle, sh_shield_key = key\<rparr>))))))"
  have "written ?fields (to_be_bytes (sh_npk b) @ put_asset [] (sh_token b)
     @ to_be_bytes (sh_value b) @ bundle_bytes (sh_encrypted_bundle b) @ sh_shield_key b) (Shield b)"
    using assms
    by (intro written_bind [OF written_u256] written_bind [OF written_asset]
        written_bind [OF written_bundle] written_bind_return [OF written_array32])
      (simp_all add: wf_shield_def)
  then show ?thesis
    unfolding take_body_def body_bytes.simps by (intro written_bind [OF written_u8]) simp
qed

lemma written_transact:
  assumes "wf_transact b" and "encodable_body (Transact b)"
  shows "written take_body (body_bytes (Transact b)) (Transact b)"
proof -
  let ?fields = "wr_bind take_ciphertext (\<lambda>ciphertext. wr_bind take_blob (\<lambda>memo.
         wr_bind take_array32 (\<lambda>sender. wr_bind take_array32 (\<lambda>receiver.
         wr_bind take_blob (\<lambda>annotation.
         wr_return (Transact \<lparr>tr_ciphertext = ciphertext, tr_memo = memo,
           tr_blinded_sender_key = sender, tr_blinded_receiver_key = receiver,
           tr_annotation = annotation\<rparr>))))))"
  have "written ?fields (ciphertext_bytes (tr_ciphertext b) @ blob_bytes (tr_memo b)
     @ tr_blinded_sender_key b @ tr_blinded_receiver_key b @ blob_bytes (tr_annotation b)) (Transact b)"
    using assms
    by (intro written_bind [OF written_ciphertext] written_bind [OF written_blob]
        written_bind [OF written_array32] written_bind_return [OF written_blob])
      (simp_all add: wf_transact_def)
  then show ?thesis
    unfolding take_body_def body_bytes.simps
    by (intro written_bind [OF written_u8]) (simp add: TAG_SHIELD_def TAG_TRANSACT_def)
qed

lemma written_body: "wf_body b \<Longrightarrow> encodable_body b \<Longrightarrow> written take_body (body_bytes b) b"
  by (cases b) (simp_all add: written_shield written_transact del: body_bytes.simps encodable_body.simps)

text \<open>
  \<open>written_end\<close> is the same for bytes that reach the end of the input, where \<^verbatim>\<open>finish\<close> succeeds.
\<close>

definition written_end :: "'a wire \<Rightarrow> bytes \<Rightarrow> 'a \<Rightarrow> bool" where
  "written_end p e x \<longleftrightarrow> (\<forall>pre. length (pre @ e) < 2 ^ 64 \<longrightarrow>
     (\<exists>r. p \<lparr>wr_bytes = pre @ e, wr_pos = length pre\<rparr> = Inr (x, r)))"

lemma written_end_bind:
  assumes "written p e x" and "written_end (q x) e' y"
  shows "written_end (wr_bind p q) (e @ e') y"
  unfolding written_end_def
proof (intro allI impI)
  fix pre :: bytes
  assume len: "length (pre @ (e @ e')) < 2 ^ 64"
  have "p \<lparr>wr_bytes = pre @ e @ e', wr_pos = length pre\<rparr>
      = Inr (x, \<lparr>wr_bytes = pre @ e @ e', wr_pos = length pre + length e\<rparr>)"
    using assms(1) [unfolded written_def, rule_format, of pre e'] len by simp
  moreover obtain r where "q x \<lparr>wr_bytes = (pre @ e) @ e', wr_pos = length (pre @ e)\<rparr> = Inr (y, r)"
    using assms(2) [unfolded written_end_def, rule_format, of "pre @ e"] len by auto
  ultimately show "\<exists>r. wr_bind p q \<lparr>wr_bytes = pre @ (e @ e'), wr_pos = length pre\<rparr> = Inr (y, r)"
    by (simp add: wr_bind_def)
qed

lemma written_end_finish: "written_end (wr_bind finish (\<lambda>_. wr_return x)) [] x"
  by (simp add: written_end_def wr_bind_def finish_def wr_return_def)

lemma written_end_take_any: "written p e x \<Longrightarrow> written_end p (e @ rest) x"
  by (auto simp: written_end_def written_def)

lemma written_end_start:
  "written_end p e x \<Longrightarrow> length e < 2 ^ 64 \<Longrightarrow> \<exists>r. p \<lparr>wr_bytes = e, wr_pos = 0\<rparr> = Inr (x, r)"
  unfolding written_end_def by (erule allE [of _ "[]"]) simp

lemma decode_hash_node_bytes:
  assumes "wf_position (nd_position n)" and "length (node_bytes n) < 2 ^ 64"
  shows "decode_hash (node_bytes n) = Inr (nd_hash n)"
proof -
  have "written_end (wr_bind take_position (\<lambda>_. take_u256)) (node_bytes n) (nd_hash n)"
    unfolding node_bytes_def using assms(1)
    by (intro written_end_bind [OF written_position] written_end_take_any [OF written_u256])
  from written_end_start [OF this assms(2)] show ?thesis
    by (auto simp: decode_hash_def)
qed

lemma decode_node_node_bytes:
  assumes "wf_node n" and "encodable_body (nd_body n)" and "length (node_bytes n) < 2 ^ 64"
  shows "decode_node (node_bytes n) = Inr n"
proof -
  have n: "\<lparr>nd_position = nd_position n, nd_hash = nd_hash n, nd_block = nd_block n,
      nd_body = nd_body n\<rparr> = n"
    by simp
  have "written_end take_node
    (put_position [] (nd_position n) @ to_be_bytes (nd_hash n) @ to_be_bytes (nd_block n)
      @ body_bytes (nd_body n) @ []) n"
    unfolding take_node_def
    using assms(1,2) written_end_finish [of n]
    by (intro written_end_bind [OF written_position] written_end_bind [OF written_u256]
        written_end_bind [OF written_u64] written_end_bind [OF written_body]) (simp_all add: wf_node_def n)
  then have "written_end take_node (node_bytes n) n"
    by (simp add: node_bytes_def)
  from written_end_start [OF this assms(3)] show ?thesis
    by (auto simp: decode_node_def)
qed

section \<open>Only encodings decode\<close>

text \<open>
  \<open>consumed r r' e\<close>: the reader \<open>r'\<close> is \<open>r\<close> advanced over the bytes \<open>e\<close> that stand at its cursor.
  \<open>reads p P\<close>: whatever \<open>p\<close> returns, it consumed bytes \<open>e\<close> with \<open>P x e\<close>.
\<close>

definition consumed :: "wire_reader \<Rightarrow> wire_reader \<Rightarrow> bytes \<Rightarrow> bool" where
  "consumed r r' e \<longleftrightarrow> wr_bytes r' = wr_bytes r \<and> wr_pos r' = wr_pos r + length e
     \<and> (e \<noteq> [] \<longrightarrow> wr_pos r' \<le> length (wr_bytes r))
     \<and> take (length e) (drop (wr_pos r) (wr_bytes r)) = e"

definition reads :: "'a wire \<Rightarrow> ('a \<Rightarrow> bytes \<Rightarrow> bool) \<Rightarrow> bool" where
  "reads p P \<longleftrightarrow> (\<forall>r x r'. p r = Inr (x, r') \<longrightarrow> (\<exists>e. consumed r r' e \<and> P x e))"

lemma consumed_trans: "consumed r r1 e1 \<Longrightarrow> consumed r1 r2 e2 \<Longrightarrow> consumed r r2 (e1 @ e2)"
  by (auto simp: consumed_def take_add add.commute)

lemma readsI: "(\<And>r x r'. p r = Inr (x, r') \<Longrightarrow> \<exists>e. consumed r r' e \<and> P x e) \<Longrightarrow> reads p P"
  by (simp add: reads_def)

lemma readsD: "reads p P \<Longrightarrow> p r = Inr (x, r') \<Longrightarrow> \<exists>e. consumed r r' e \<and> P x e"
  by (simp add: reads_def)

lemma reads_return: "P x [] \<Longrightarrow> reads (wr_return x) P"
  by (auto simp: reads_def wr_return_def consumed_def)

lemma reads_fail: "reads (wr_fail err) P"
  by (simp add: reads_def wr_fail_def)

lemma reads_bind:
  assumes "reads p P" and "\<And>x e1. P x e1 \<Longrightarrow> reads (q x) (\<lambda>y e2. Q y (e1 @ e2))"
  shows "reads (wr_bind p q) Q"
proof (rule readsI)
  fix r y r2
  assume "wr_bind p q r = Inr (y, r2)"
  then obtain x r1 where p: "p r = Inr (x, r1)" and q: "q x r1 = Inr (y, r2)"
    by (auto simp: wr_bind_def)
  obtain e1 where e1: "consumed r r1 e1" "P x e1"
    using readsD [OF assms(1) p] by blast
  obtain e2 where "consumed r1 r2 e2" "Q y (e1 @ e2)"
    using readsD [OF assms(2) [OF e1(2)] q] by blast
  with e1(1) show "\<exists>e. consumed r r2 e \<and> Q y e" by (blast intro: consumed_trans)
qed

lemma reads_if: "(c \<Longrightarrow> reads p P) \<Longrightarrow> (\<not> c \<Longrightarrow> reads q P) \<Longrightarrow> reads (if c then p else q) P"
  by simp

lemma reads_mono: "reads p P \<Longrightarrow> (\<And>x e. P x e \<Longrightarrow> Q x e) \<Longrightarrow> reads p Q"
  by (fastforce simp: reads_def)

lemma reads_take: "reads (wr_take n) (\<lambda>x e. x = e \<and> length e = n)"
  by (rule readsI) (auto simp: wr_take_def Let_def consumed_def split: if_splits)

lemma reads_u8: "reads take_u8 (\<lambda>b e. e = [b])"
  unfolding take_u8_def
  by (intro reads_bind [OF reads_take] reads_return) (auto simp: length_Suc_conv)

lemma reads_u32: "reads take_u32 (\<lambda>v e. e = to_be_bytes v)"
  unfolding take_u32_def
  by (intro reads_bind [OF reads_take] reads_return) (simp add: to_from_be_bytes)

lemma reads_u64: "reads take_u64 (\<lambda>v e. e = to_be_bytes v)"
  unfolding take_u64_def
  by (intro reads_bind [OF reads_take] reads_return) (simp add: to_from_be_bytes)

lemma reads_array32: "reads take_array32 (\<lambda>x e. x = e \<and> length e = 32)"
  unfolding take_array32_def by (rule reads_take)

lemma reads_u256: "reads take_u256 (\<lambda>v e. e = to_be_bytes v)"
  unfolding take_u256_def
  by (intro reads_bind [OF reads_array32] reads_return) (simp add: to_from_be_bytes)

lemma reads_blob: "reads take_blob (\<lambda>bs e. length bs < 2 ^ 32 \<and> e = blob_bytes bs)"
  unfolding take_blob_def
proof (rule reads_bind [OF reads_u32])
  fix n :: u32 and e1 assume "e1 = to_be_bytes n"
  then show "reads (wr_take (unat n)) (\<lambda>bs e2. length bs < 2 ^ 32 \<and> e1 @ e2 = blob_bytes bs)"
    using unat_less_power [of n] by (auto intro!: reads_mono [OF reads_take] simp: blob_bytes_def)
qed

lemma reads_repeat:
  assumes "reads p (\<lambda>x e. ok x \<and> e = f x)"
  shows "reads (wr_repeat n p) (\<lambda>xs e. length xs = n \<and> (\<forall>x \<in> set xs. ok x) \<and> e = concat (map f xs))"
proof (induction n)
  case 0
  then show ?case by (simp add: reads_return)
next
  case (Suc n)
  show ?case
    unfolding wr_repeat.simps by (intro reads_bind [OF assms] reads_bind [OF Suc] reads_return) auto
qed

lemma reads_bundle:
  "reads take_bundle (\<lambda>ws e. length ws < 2 ^ 32 \<and> list_all (\<lambda>w. length w = 32) ws \<and> e = bundle_bytes ws)"
  unfolding take_bundle_def
proof (rule reads_bind [OF reads_u32])
  fix n :: u32 and e1 assume e1: "e1 = to_be_bytes n"
  have "reads take_array32 (\<lambda>w e. length w = 32 \<and> e = w)"
    by (rule reads_mono [OF reads_array32]) simp
  from reads_repeat [OF this, of "unat n"]
  show "reads (wr_repeat (unat n) take_array32)
      (\<lambda>ws e. length ws < 2 ^ 32 \<and> list_all (\<lambda>w. length w = 32) ws \<and> e1 @ e = bundle_bytes ws)"
    by (rule reads_mono) (use unat_less_power [of n] e1 in \<open>auto simp: bundle_bytes_def list_all_iff\<close>)
qed

lemma reads_asset: "reads take_asset (\<lambda>a e. wf_asset a \<and> e = put_asset [] a)"
  unfolding take_asset_def
  by (intro reads_bind [OF reads_u8] reads_if reads_bind [OF reads_take] reads_return reads_fail) simp

lemma reads_position: "reads take_position (\<lambda>p e. wf_position p \<and> e = put_position [] p)"
  unfolding take_position_def
proof (intro reads_bind [OF reads_u32])
  fix t l :: u32 and e1 e2 assume e: "e1 = to_be_bytes t" "e2 = to_be_bytes l"
  show "reads (\<lambda>r. map_err CodecType (res_bind (try_new t l) (\<lambda>p. Inr (p, r))))
      (\<lambda>p e3. wf_position p \<and> e1 @ e2 @ e3 = put_position [] p)"
    by (rule readsI)
      (auto simp: try_new_eq_Inr consumed_def wf_position_def e put_position_def put_u32_def)
qed

lemma reads_ciphertext:
  "reads take_ciphertext (\<lambda>c e. wf_ciphertext c \<and> length (ct_data c) < 2 ^ 32
     \<and> (\<forall>b \<in> set (ct_data c). length b < 2 ^ 32) \<and> e = ciphertext_bytes c)"
  unfolding take_ciphertext_def
  by (intro reads_bind [OF reads_take] reads_bind [OF reads_u32]
      reads_bind [OF reads_repeat [OF reads_blob]] reads_return)
    (use unat_less_power [where 'a = 32] in \<open>auto simp: wf_ciphertext_def ciphertext_bytes_def\<close>)

lemma reads_body: "reads take_body (\<lambda>b e. wf_body b \<and> encodable_body b \<and> e = body_bytes b)"
  unfolding take_body_def
  by (intro reads_bind [OF reads_u8] reads_if reads_fail reads_return
      reads_bind [OF reads_u256] reads_bind [OF reads_asset] reads_bind [OF reads_bundle]
      reads_bind [OF reads_array32] reads_bind [OF reads_ciphertext] reads_bind [OF reads_blob])
    (simp_all add: wf_shield_def wf_transact_def)

lemma reads_finish: "reads finish (\<lambda>_ e. e = [])"
  by (rule readsI) (auto simp: finish_def consumed_def split: if_splits)

lemma reads_node:
  "reads take_node (\<lambda>n e. wf_node n \<and> encodable_body (nd_body n) \<and> e = node_bytes n)"
  unfolding take_node_def
  by (intro reads_bind [OF reads_position] reads_bind [OF reads_u256] reads_bind [OF reads_u64]
      reads_bind [OF reads_body] reads_bind [OF reads_finish] reads_return)
    (simp_all add: wf_node_def node_bytes_def)

lemma take_node_end: "take_node r = Inr (n, r') \<Longrightarrow> wr_pos r' = length (wr_bytes r')"
  by (auto simp: take_node_def wr_bind_def finish_def wr_return_def split: if_splits)

lemma decode_node_eq_InrD:
  assumes "decode_node bs = Inr n"
  shows "wf_node n \<and> encodable_body (nd_body n) \<and> bs = node_bytes n"
proof -
  obtain r' where run: "take_node \<lparr>wr_bytes = bs, wr_pos = 0\<rparr> = Inr (n, r')"
    using assms by (auto simp: decode_node_def)
  then obtain e where e: "consumed \<lparr>wr_bytes = bs, wr_pos = 0\<rparr> r' e"
    and n: "wf_node n" "encodable_body (nd_body n)" "e = node_bytes n"
    using readsD [OF reads_node run] by blast
  have "e = bs"
    using e take_node_end [OF run] by (auto simp: consumed_def)
  with n show ?thesis by simp
qed

end
