(* ===== verification/Store.thy ===== *)
theory Store
  imports Codec Ordered_Map "HOL-Library.Char_ord"
begin

text \<open>
  The seams of the \<^verbatim>\<open>database\<close> crate: the table registry (\<^verbatim>\<open>tables/mod.rs\<close>), \<^verbatim>\<open>DatabaseError\<close>
  (\<^verbatim>\<open>lib.rs\<close>), the traits \<^verbatim>\<open>Reader\<close> and \<^verbatim>\<open>Writer\<close> as dictionaries of their methods, and the iterator
  \<^verbatim>\<open>RangeIter\<close> with its overlay merge (\<^verbatim>\<open>read.rs\<close>). The locales \<open>reader_contract\<close> and
  \<open>writer_contract\<close> state what code generic over the traits relies on.
\<close>

section \<open>The table registry\<close>

datatype table_id = COMMITMENTS | DECODED | FRONTIER | META

primrec table_name :: "table_id \<Rightarrow> string" where
  "table_name COMMITMENTS = ''commitments''"
| "table_name DECODED = ''decoded''"
| "table_name FRONTIER = ''frontier''"
| "table_name META = ''meta''"

definition ALL_TABLES :: "table_id list" where
  "ALL_TABLES = [COMMITMENTS, DECODED, FRONTIER, META]"

lemma table_name_inject [simp]: "table_name a = table_name b \<longleftrightarrow> a = b"
  by (cases a; cases b) simp_all

text \<open>The derived \<^verbatim>\<open>Ord\<close> of \<^verbatim>\<open>TableId(&'static str)\<close> is the order of the names.\<close>

instantiation table_id :: linorder
begin

definition less_eq_table_id :: "table_id \<Rightarrow> table_id \<Rightarrow> bool" where
  "less_eq_table_id a b \<longleftrightarrow> table_name a \<le> table_name b"

definition less_table_id :: "table_id \<Rightarrow> table_id \<Rightarrow> bool" where
  "less_table_id a b \<longleftrightarrow> table_name a < table_name b"

instance
proof
  fix x y :: table_id
  show "x < y \<longleftrightarrow> x \<le> y \<and> \<not> y \<le> x"
    unfolding less_table_id_def less_eq_table_id_def by (rule less_le_not_le)
qed (auto simp: less_eq_table_id_def)

end

section \<open>Errors\<close>

datatype database_error =
    Engine string
  | CodecErr codec_error
  | Serde string
  | SchemaVersion string u32 u32
  | CommitmentConflict u32 u32

text \<open>A database operation can also meet a panic of the code it runs.\<close>

type_synonym db_err = "database_error exn"

section \<open>Range iterators\<close>

type_synonym kv = "bytes \<times> bytes"
type_synonym staged = "bytes \<times> bytes option"
type_synonym item = "db_err + kv"

text \<open>
  An engine scan is third-party; it is the list of items it yields. \<^verbatim>\<open>Merged\<close> is built in one place,
  \<^verbatim>\<open>Overlay::range\<close>, over the scan of a \<^verbatim>\<open>ReadView\<close>, so its boxed base is such a scan.
\<close>

datatype range_iter =
    Raw "item list"
  | Collected "kv list"
  | Merged "item list" "staged list" "kv option" "staged option"

text \<open>
  The \<^verbatim>\<open>loop\<close> of \<^verbatim>\<open>RangeIter::next\<close> on a \<^verbatim>\<open>Merged\<close> iterator. First the two peeked entries are
  filled; an error of the base is yielded at once. Then the smaller key is yielded; the overlay
  wins on equal keys, and a tombstone (\<open>None\<close>) is skipped by going round the loop.
\<close>

definition fill_base :: "item list \<Rightarrow> kv option \<Rightarrow> db_err option \<times> kv option \<times> item list" where
  "fill_base base base_peek =
     (case base_peek of Some entry \<Rightarrow> (None, Some entry, base)
      | None \<Rightarrow>
         (case base of [] \<Rightarrow> (None, None, [])
          | Inl e # base' \<Rightarrow> (Some e, None, base')
          | Inr entry # base' \<Rightarrow> (None, Some entry, base')))"

definition fill_overlay :: "staged list \<Rightarrow> staged option \<Rightarrow> staged option \<times> staged list" where
  "fill_overlay overlay overlay_peek =
     (case overlay_peek of Some entry \<Rightarrow> (Some entry, overlay)
      | None \<Rightarrow> (case overlay of [] \<Rightarrow> (None, []) | entry # overlay' \<Rightarrow> (Some entry, overlay')))"

lemma fill_overlay_decreases:
  "(Some entry, overlay') = fill_overlay overlay op \<Longrightarrow>
     length overlay' < length overlay + (case op of None \<Rightarrow> 0 | Some _ \<Rightarrow> 1)"
  by (auto simp: fill_overlay_def split: option.splits list.splits)

function merge_next ::
  "item list \<Rightarrow> staged list \<Rightarrow> kv option \<Rightarrow> staged option \<Rightarrow> item option \<times> range_iter" where
  "merge_next base overlay base_peek overlay_peek =
     (case fill_base base base_peek of
        (Some e, base_peek, base) \<Rightarrow> (Some (Inl e), Merged base overlay base_peek overlay_peek)
      | (None, base_peek, base) \<Rightarrow>
        (case fill_overlay overlay overlay_peek of
           (None, overlay) \<Rightarrow>
             (case base_peek of None \<Rightarrow> (None, Merged base overlay None None)
              | Some entry \<Rightarrow> (Some (Inr entry), Merged base overlay None None))
         | (Some (key, value), overlay) \<Rightarrow>
             (case base_peek of
                None \<Rightarrow>
                  (case value of Some v \<Rightarrow> (Some (Inr (key, v)), Merged base overlay None None)
                   | None \<Rightarrow> merge_next base overlay None None)
              | Some (base_key, base_value) \<Rightarrow>
                  if base_key < key then
                    (Some (Inr (base_key, base_value)), Merged base overlay None (Some (key, value)))
                  else if base_key = key then
                    (case value of Some v \<Rightarrow> (Some (Inr (key, v)), Merged base overlay None None)
                     | None \<Rightarrow> merge_next base overlay None None)
                  else
                    (case value of
                       Some v \<Rightarrow> (Some (Inr (key, v)), Merged base overlay base_peek None)
                     | None \<Rightarrow> merge_next base overlay base_peek None))))"
  by pat_completeness auto
termination
  by (relation "measure (\<lambda>(base, overlay, bp, op). length overlay + (case op of None \<Rightarrow> 0 | Some _ \<Rightarrow> 1))")
    (auto dest!: fill_overlay_decreases)

declare merge_next.simps [simp del]

fun range_next :: "range_iter \<Rightarrow> item option \<times> range_iter" where
  "range_next (Raw []) = (None, Raw [])"
| "range_next (Raw (x # xs)) = (Some x, Raw xs)"
| "range_next (Collected []) = (None, Collected [])"
| "range_next (Collected (x # xs)) = (Some (Inr x), Collected xs)"
| "range_next (Merged base overlay bp op) = merge_next base overlay bp op"

subsection \<open>What a merged scan yields\<close>

text \<open>The items still to come of each side, the peeked entry first.\<close>

definition pending_base :: "item list \<Rightarrow> kv option \<Rightarrow> item list" where
  "pending_base base bp = (case bp of None \<Rightarrow> base | Some entry \<Rightarrow> Inr entry # base)"

definition pending_overlay :: "staged list \<Rightarrow> staged option \<Rightarrow> staged list" where
  "pending_overlay overlay op = (case op of None \<Rightarrow> overlay | Some entry \<Rightarrow> entry # overlay)"

fun emit :: "bytes \<Rightarrow> bytes option \<Rightarrow> item list \<Rightarrow> item list" where
  "emit key (Some v) rest = Inr (key, v) # rest"
| "emit key None rest = rest"

fun merged :: "item list \<Rightarrow> staged list \<Rightarrow> item list" where
  "merged [] [] = []"
| "merged (Inl e # base) overlay = Inl e # merged base overlay"
| "merged (Inr entry # base) [] = Inr entry # merged base []"
| "merged [] ((key, value) # overlay) = emit key value (merged [] overlay)"
| "merged (Inr (base_key, base_value) # base) ((key, value) # overlay) =
     (if base_key < key then Inr (base_key, base_value) # merged base ((key, value) # overlay)
      else if base_key = key then emit key value (merged base overlay)
      else emit key value (merged (Inr (base_key, base_value) # base) overlay))"

text \<open>All items an iterator still yields; a \<^verbatim>\<open>for\<close> loop over it sees exactly these.\<close>

fun remaining :: "range_iter \<Rightarrow> item list" where
  "remaining (Raw xs) = xs"
| "remaining (Collected xs) = map Inr xs"
| "remaining (Merged base overlay bp op) = merged (pending_base base bp) (pending_overlay overlay op)"

lemma fill_base_pending:
  "fill_base base bp =
     (case pending_base base bp of [] \<Rightarrow> (None, None, [])
      | Inl e # base' \<Rightarrow> (Some e, None, base') | Inr entry # base' \<Rightarrow> (None, Some entry, base'))"
  by (simp add: fill_base_def pending_base_def split: option.split)

lemma fill_overlay_pending:
  "fill_overlay overlay op =
     (case pending_overlay overlay op of [] \<Rightarrow> (None, []) | entry # overlay' \<Rightarrow> (Some entry, overlay'))"
  by (simp add: fill_overlay_def pending_overlay_def split: option.split)

lemma pending_simps [simp]:
  "pending_base base None = base" "pending_base base (Some entry) = Inr entry # base"
  "pending_overlay overlay None = overlay" "pending_overlay overlay (Some staged) = staged # overlay"
  by (simp_all add: pending_base_def pending_overlay_def)

text \<open>One call, by what is pending on the two sides.\<close>

lemma merge_next_pending:
  "pending_base base bp = Inl e # base' \<Longrightarrow>
     merge_next base overlay bp op = (Some (Inl e), Merged base' overlay None op)"
  "pending_base base bp = [] \<Longrightarrow> pending_overlay overlay op = [] \<Longrightarrow>
     merge_next base overlay bp op = (None, Merged [] [] None None)"
  "pending_base base bp = Inr entry # base' \<Longrightarrow> pending_overlay overlay op = [] \<Longrightarrow>
     merge_next base overlay bp op = (Some (Inr entry), Merged base' [] None None)"
  "pending_base base bp = [] \<Longrightarrow> pending_overlay overlay op = (key, value) # overlay' \<Longrightarrow>
     merge_next base overlay bp op =
       (case value of Some v \<Rightarrow> (Some (Inr (key, v)), Merged [] overlay' None None)
        | None \<Rightarrow> merge_next [] overlay' None None)"
  "pending_base base bp = Inr (base_key, base_value) # base' \<Longrightarrow>
   pending_overlay overlay op = (key, value) # overlay' \<Longrightarrow>
     merge_next base overlay bp op =
       (if base_key < key then
          (Some (Inr (base_key, base_value)), Merged base' overlay' None (Some (key, value)))
        else if base_key = key then
          (case value of Some v \<Rightarrow> (Some (Inr (key, v)), Merged base' overlay' None None)
           | None \<Rightarrow> merge_next base' overlay' None None)
        else
          (case value of
             Some v \<Rightarrow> (Some (Inr (key, v)), Merged base' overlay' (Some (base_key, base_value)) None)
           | None \<Rightarrow> merge_next base' overlay' (Some (base_key, base_value)) None))"
  by (subst merge_next.simps, simp add: fill_base_pending fill_overlay_pending)+

lemma merge_next_remaining:
  "pending_base base bp = B \<Longrightarrow> pending_overlay overlay op = Ov \<Longrightarrow>
   merge_next base overlay bp op = (r, it) \<Longrightarrow>
     (case merged B Ov of
        [] \<Rightarrow> r = None \<and> remaining it = [] | x # xs \<Rightarrow> r = Some x \<and> remaining it = xs)"
proof (induction B Ov arbitrary: base bp overlay op rule: merged.induct)
  case 1
  then show ?case by (auto simp: merge_next_pending)
next
  case (2 e B Ov)
  then show ?case by (auto simp: merge_next_pending)
next
  case (3 entry B)
  then show ?case by (auto simp: merge_next_pending)
next
  case (4 key val Ov)
  then show ?case
    using "4.IH" [of "[]" None Ov None] by (cases val) (auto simp: merge_next_pending)
next
  case (5 base_key base_value B key val Ov)
  then show ?case
    using "5.IH"(2) [of B None Ov None] "5.IH"(3) [of B "Some (base_key, base_value)" Ov None]
    by (cases val) (auto simp: merge_next_pending split: if_splits)
qed

lemma range_next_remaining:
  "range_next it = (r, it') \<Longrightarrow>
     (case remaining it of [] \<Rightarrow> r = None \<and> remaining it' = []
      | x # xs \<Rightarrow> r = Some x \<and> remaining it' = xs)"
  by (cases it rule: range_next.cases) (auto dest: merge_next_remaining [OF refl refl])

text \<open>Draining an iterator: what \<^verbatim>\<open>for entry in iter\<close> sees, in order.\<close>

function items :: "range_iter \<Rightarrow> item list" where
  "items it = (case range_next it of (None, _) \<Rightarrow> [] | (Some x, it') \<Rightarrow> x # items it')"
  by pat_completeness auto
termination
proof (relation "measure (\<lambda>it. length (remaining it))")
  fix it r it' x
  assume "(r, it') = range_next it" and "r = Some x"
  then show "(it', it) \<in> measure (\<lambda>it. length (remaining it))"
    using range_next_remaining [of it r it'] by (cases "remaining it") auto
qed simp

declare items.simps [simp del]

lemma items_eq_remaining: "items it = remaining it"
proof (induction it rule: items.induct)
  case (1 it)
  obtain r it' where step: "range_next it = (r, it')" by fastforce
  then show ?case
    using range_next_remaining [OF step] "1.IH" [OF step [symmetric]]
    by (subst items.simps) (cases "remaining it"; auto)
qed

lemma items_simps [simp]:
  "items (Raw xs) = xs" "items (Collected kvs) = map Inr kvs"
  by (simp_all add: items_eq_remaining)

text \<open>The map a staged batch puts over a base: staged entries win, tombstones hide.\<close>

definition overlay_map :: "('k \<Rightarrow> 'v option) \<Rightarrow> ('k \<Rightarrow> 'v option option) \<Rightarrow> 'k \<Rightarrow> 'v option" where
  "overlay_map base staged k = (case staged k of Some entry \<Rightarrow> entry | None \<Rightarrow> base k)"

lemma overlay_map_simps [simp]:
  "staged k = Some entry \<Longrightarrow> overlay_map base staged k = entry"
  "staged k = None \<Longrightarrow> overlay_map base staged k = base k"
  by (simp_all add: overlay_map_def)

lemma overlay_map_restrict:
  "overlay_map (base |` A) (staged |` A) = overlay_map base staged |` A"
  by (auto simp: overlay_map_def restrict_map_def fun_eq_iff split: option.split)

lemma overlay_map_stage [simp]:
  "overlay_map base (staged(k \<mapsto> entry)) = (overlay_map base staged)(k := entry)"
  by (simp add: overlay_map_def fun_eq_iff)

lemma overlay_map_empty [simp]: "overlay_map base Map.empty = base"
  by (simp add: overlay_map_def fun_eq_iff)

lemma overlay_map_base_upd:
  "staged k = None \<Longrightarrow> overlay_map (base(k := v)) staged = (overlay_map base staged)(k := v)"
  by (auto simp: overlay_map_def fun_eq_iff split: option.split)

lemma map_of_above_None: "\<forall>k' \<in> fst ` set m. k < k' \<Longrightarrow> map_of m (k::'k::linorder) = None"
  by (force simp: map_of_eq_None_iff)

lemma emit_entries:
  assumes "bt_ok zs" and "\<forall>k \<in> fst ` set zs. key < k"
  shows "\<exists>zs'. emit key entry (map Inr zs) = map Inr zs' \<and> bt_ok zs' \<and>
           fst ` set zs' \<subseteq> insert key (fst ` set zs) \<and> map_of zs' = (map_of zs)(key := entry)"
proof (cases entry)
  case None
  then show ?thesis
    using assms map_of_above_None [OF assms(2)] by (intro exI [of _ zs]) (auto simp: fun_eq_iff)
next
  case (Some v)
  then show ?thesis using assms by (intro exI [of _ "(key, v) # zs"]) auto
qed

lemma fst_set_Cons: "fst ` set ((k, v) # m) = insert k (fst ` set m)"
  by simp

lemma merged_entries:
  "B = map Inr xs \<Longrightarrow> bt_ok xs \<Longrightarrow> bt_ok Ov \<Longrightarrow>
     \<exists>zs. merged B Ov = map Inr zs \<and> bt_ok zs \<and> fst ` set zs \<subseteq> fst ` set xs \<union> fst ` set Ov
       \<and> map_of zs = overlay_map (map_of xs) (map_of Ov)"
proof (induction B Ov arbitrary: xs rule: merged.induct)
  case 1
  then show ?case by auto
next
  case (2 e B Ov)
  then show ?case by auto
next
  case (3 entry B)
  then obtain ys where xs: "xs = entry # ys" "B = map Inr ys" "bt_ok ys"
    by (cases xs; cases entry) auto
  from "3.IH" [OF xs(2,3)] obtain zs where zs: "merged B [] = map Inr zs" "bt_ok zs"
    "fst ` set zs \<subseteq> fst ` set ys" "map_of zs = map_of ys" by auto
  have "\<forall>k \<in> fst ` set ys. fst entry < k" using "3.prems"(2) xs(1) by (cases entry) auto
  then have above: "\<forall>k \<in> fst ` set zs. fst entry < k" using zs(3) by blast
  have "bt_ok (entry # zs)" using above zs(2) by (cases entry) simp
  then show ?case
    using zs xs(1) by (intro exI [of _ "entry # zs"]) (cases entry; auto)
next
  case (4 key val Ov)
  then obtain zs where zs: "merged [] Ov = map Inr zs" "bt_ok zs" "fst ` set zs \<subseteq> fst ` set Ov"
    "map_of zs = overlay_map Map.empty (map_of Ov)" and "xs = []" by fastforce
  have "\<forall>k \<in> fst ` set Ov. key < k" using "4.prems"(3) by auto
  then have "\<forall>k \<in> fst ` set zs. key < k" using zs(3) by blast
  from emit_entries [OF zs(2) this, of val] obtain zs' where
    zs': "emit key val (map Inr zs) = map Inr zs'" "bt_ok zs'"
      "fst ` set zs' \<subseteq> insert key (fst ` set zs)" "map_of zs' = (map_of zs)(key := val)" by blast
  have "map_of zs' = overlay_map (map_of xs) (map_of ((key, val) # Ov))"
    unfolding zs'(4) zs(4) using \<open>xs = []\<close> by simp
  moreover have "fst ` set zs' \<subseteq> fst ` set xs \<union> fst ` set ((key, val) # Ov)"
    using zs(3) zs'(3) unfolding fst_set_Cons by blast
  moreover have "merged [] ((key, val) # Ov) = map Inr zs'" using zs(1) zs'(1) by simp
  ultimately show ?case using zs'(2) by blast
next
  case (5 base_key base_value B key val Ov)
  then obtain ys where xs: "xs = (base_key, base_value) # ys" "B = map Inr ys" "bt_ok ys"
    by (cases xs) auto
  have ov: "bt_ok Ov" "\<forall>k \<in> fst ` set Ov. key < k" "\<forall>k \<in> fst ` set ys. base_key < k"
    using "5.prems" xs by auto
  consider "base_key < key" | "base_key = key" | "key < base_key" by fastforce
  then show ?case
  proof cases
    case 1
    with "5.IH"(1) [OF 1 xs(2,3) "5.prems"(3)] obtain zs where
      zs: "merged B ((key, val) # Ov) = map Inr zs" "bt_ok zs"
        "fst ` set zs \<subseteq> fst ` set ys \<union> fst ` set ((key, val) # Ov)"
        "map_of zs = overlay_map (map_of ys) (map_of ((key, val) # Ov))" by blast
    have "\<forall>k \<in> fst ` set Ov. base_key < k" using ov(2) 1 by (metis order.strict_trans)
    then have above: "\<forall>k \<in> fst ` set zs. base_key < k" using zs(3) ov(3) 1 unfolding fst_set_Cons by blast
    have "map_of ((key, val) # Ov) base_key = None"
      using ov(2) 1 by (intro map_of_above_None) auto
    from overlay_map_base_upd [of "map_of ((key, val) # Ov)" base_key, OF this] have
      "map_of ((base_key, base_value) # zs) = overlay_map (map_of xs) (map_of ((key, val) # Ov))"
      using zs(4) xs(1) by (simp del: overlay_map_stage)
    moreover have "fst ` set ((base_key, base_value) # zs) \<subseteq> fst ` set xs \<union> fst ` set ((key, val) # Ov)"
      using zs(3) unfolding xs(1) fst_set_Cons by blast
    moreover have "bt_ok ((base_key, base_value) # zs)" using above zs(2) by simp
    moreover have "merged (Inr (base_key, base_value) # B) ((key, val) # Ov)
        = map Inr ((base_key, base_value) # zs)" using zs(1) 1 by simp
    ultimately show ?thesis by blast
  next
    case 2
    then have "\<not> base_key < key" by simp
    from "5.IH"(2) [OF this 2 xs(2,3) ov(1)] obtain zs where
      zs: "merged B Ov = map Inr zs" "bt_ok zs" "fst ` set zs \<subseteq> fst ` set ys \<union> fst ` set Ov"
        "map_of zs = overlay_map (map_of ys) (map_of Ov)" by auto
    have "\<forall>k \<in> fst ` set zs. key < k" using zs(3) ov(2,3) 2 by blast
    from emit_entries [OF zs(2) this, of val] obtain zs' where
      zs': "emit key val (map Inr zs) = map Inr zs'" "bt_ok zs'"
        "fst ` set zs' \<subseteq> insert key (fst ` set zs)" "map_of zs' = (map_of zs)(key := val)" by blast
    have "map_of zs' = overlay_map (map_of xs) (map_of ((key, val) # Ov))"
      unfolding zs'(4) zs(4) xs(1) 2 by (auto simp: overlay_map_def fun_eq_iff split: option.split)
    moreover have "fst ` set zs' \<subseteq> fst ` set xs \<union> fst ` set ((key, val) # Ov)"
      using zs(3) zs'(3) unfolding xs(1) fst_set_Cons by blast
    moreover have "merged (Inr (base_key, base_value) # B) ((key, val) # Ov) = map Inr zs'"
      using zs(1) zs'(1) 2 by simp
    ultimately show ?thesis using zs'(2) by blast
  next
    case 3
    then have ne: "\<not> base_key < key" "base_key \<noteq> key" by auto
    from "5.IH"(3) [OF ne "5.prems"(1,2) ov(1)] obtain zs where
      zs: "merged (Inr (base_key, base_value) # B) Ov = map Inr zs" "bt_ok zs"
        "fst ` set zs \<subseteq> fst ` set xs \<union> fst ` set Ov"
        "map_of zs = overlay_map (map_of xs) (map_of Ov)" by blast
    have "\<forall>k \<in> fst ` set xs. key < k" using ov(3) 3 xs(1) by (auto intro: order.strict_trans)
    then have "\<forall>k \<in> fst ` set zs. key < k" using zs(3) ov(2) by blast
    from emit_entries [OF zs(2) this, of val] obtain zs' where
      zs': "emit key val (map Inr zs) = map Inr zs'" "bt_ok zs'"
        "fst ` set zs' \<subseteq> insert key (fst ` set zs)" "map_of zs' = (map_of zs)(key := val)" by blast
    have "map_of zs' = overlay_map (map_of xs) (map_of ((key, val) # Ov))"
      unfolding zs'(4) zs(4) by simp
    moreover have "fst ` set zs' \<subseteq> fst ` set xs \<union> fst ` set ((key, val) # Ov)"
      using zs(3) zs'(3) unfolding fst_set_Cons by blast
    moreover have "merged (Inr (base_key, base_value) # B) ((key, val) # Ov) = map Inr zs'"
      using zs(1) zs'(1) ne by simp
    ultimately show ?thesis using zs'(2) by blast
  qed
qed

section \<open>The traits and their contracts\<close>

text \<open>
  \<^verbatim>\<open>Reader\<close> and \<^verbatim>\<open>Writer\<close> as records of their methods over the implementing type \<open>'s\<close>; code
  generic over the traits takes the record as an argument.
\<close>

record 's reader =
  rd_get :: "'s \<Rightarrow> table_id \<Rightarrow> bytes \<Rightarrow> db_err + bytes option"
  rd_range :: "'s \<Rightarrow> table_id \<Rightarrow> bytes \<Rightarrow> bytes \<Rightarrow> db_err + range_iter"

record 's store = "'s reader" +
  wr_put :: "table_id \<Rightarrow> bytes \<Rightarrow> bytes \<Rightarrow> ('s, db_err, unit) step"
  wr_delete :: "table_id \<Rightarrow> bytes \<Rightarrow> ('s, db_err, unit) step"

type_synonym tables = "table_id \<Rightarrow> bytes \<Rightarrow> bytes option"

definition set_entry :: "tables \<Rightarrow> table_id \<Rightarrow> bytes \<Rightarrow> bytes option \<Rightarrow> tables" where
  "set_entry m t k e = m(t := (m t)(k := e))"

lemma set_entry_apply [simp]:
  "set_entry m t k e t' k' = (if t' = t \<and> k' = k then e else m t' k')"
  by (simp add: set_entry_def)

text \<open>The ascending list of the entries of a table between two keys.\<close>

definition scan_of :: "tables \<Rightarrow> table_id \<Rightarrow> bytes \<Rightarrow> bytes \<Rightarrow> kv list \<Rightarrow> bool" where
  "scan_of m t lo hi xs \<longleftrightarrow> bt_ok xs \<and> map_of xs = m t |` {lo..hi}"

lemma scan_of_unique: "scan_of m t lo hi xs \<Longrightarrow> scan_of m t lo hi ys \<Longrightarrow> xs = ys"
  by (auto simp: scan_of_def bt_ok_def intro!: ascending_map_of_unique)

lemma scan_of_iff: "scan_of m t lo hi xs \<Longrightarrow> (k, v) \<in> set xs \<longleftrightarrow> m t k = Some v \<and> lo \<le> k \<and> k \<le> hi"
  unfolding scan_of_def bt_ok_def
  by (metis (no_types, lifting) atLeastAtMost_iff domI map_of_eq_Some_iff restrict_in restrict_out
      strict_sorted_iff option.distinct(1))

locale reader_contract =
  fixes R :: "('s, 'z) reader_scheme"
    and contents :: "'s \<Rightarrow> tables"
    and ready :: "'s \<Rightarrow> bool"
  assumes get_law: "ready s \<Longrightarrow> rd_get R s t k = Inr (contents s t k)"
    and range_law: "ready s \<Longrightarrow> lo \<le> hi \<Longrightarrow>
      \<exists>it xs. rd_range R s t lo hi = Inr it \<and> items it = map Inr xs \<and> scan_of (contents s) t lo hi xs"
begin

lemma range_lawE:
  assumes "ready s" and "lo \<le> hi"
  obtains it xs where "rd_range R s t lo hi = Inr it" "items it = map Inr xs"
    "scan_of (contents s) t lo hi xs"
  using range_law [OF assms] by blast

end

locale store_contract = reader_contract R contents ready
  for R :: "('s, 'z) store_scheme" and contents :: "'s \<Rightarrow> tables" and ready :: "'s \<Rightarrow> bool" +
  assumes put_law: "ready s \<Longrightarrow>
      \<exists>s'. wr_put R t k v s = (Inr (), s') \<and> ready s' \<and> contents s' = set_entry (contents s) t k (Some v)"
    and delete_law: "ready s \<Longrightarrow>
      \<exists>s'. wr_delete R t k s = (Inr (), s') \<and> ready s' \<and> contents s' = set_entry (contents s) t k None"
begin

lemma get_after_put:
  assumes "ready s" and "wr_put R t k v s = (r, s')"
  shows "rd_get R s' t' k' = (if t' = t \<and> k' = k then Inr (Some v) else rd_get R s t' k')"
proof -
  obtain s'' where "wr_put R t k v s = (Inr (), s'')" "ready s''"
    "contents s'' = set_entry (contents s) t k (Some v)" using put_law [OF assms(1)] by blast
  with assms show ?thesis by (simp add: get_law)
qed

lemma put_same_reads:
  assumes "ready s" and "contents s t k = Some v"
  shows "\<exists>s'. wr_put R t k v s = (Inr (), s') \<and> ready s' \<and> contents s' = contents s"
proof -
  have "set_entry (contents s) t k (Some v) = contents s"
    using assms(2) by (simp add: fun_eq_iff)
  then show ?thesis using put_law [OF assms(1)] by metis
qed

end

end
