(* ===== verification/Overlay.thy ===== *)
theory Overlay
  imports Store
begin

text \<open>
  \<^verbatim>\<open>database/src/batch.rs\<close>: the staged writes of a \<open>WriteBatch\<close> and the \<open>Overlay\<close> that reads and
  writes them over a base snapshot. The contract section shows that the overlay of any base that
  keeps \<open>reader_contract\<close> keeps \<open>store_contract\<close>, its contents being the base with the staged entries
  put over it; the base is never touched.
\<close>

type_synonym write_batch = "(table_id, (bytes, bytes option) btree) btree"

definition write_batch_new :: write_batch where
  "write_batch_new = []"

definition write_batch_len :: "write_batch \<Rightarrow> nat" where
  "write_batch_len batch = sum_list (map (\<lambda>(_, staged). length staged) batch)"

definition write_batch_is_empty :: "write_batch \<Rightarrow> bool" where
  "write_batch_is_empty batch \<longleftrightarrow> list_all (\<lambda>(_, staged). staged = []) batch"

text \<open>The overlay borrows the batch and the base view; its state is the pair of them.\<close>

type_synonym 'b overlay = "write_batch \<times> 'b"

definition overlay_get :: "('b, 'z) reader_scheme \<Rightarrow> 'b overlay \<Rightarrow> table_id \<Rightarrow> bytes \<Rightarrow> db_err + bytes option" where
  "overlay_get base = (\<lambda>(batch, view) table key.
     (case map_of batch table of
        Some staged \<Rightarrow>
          (case map_of staged key of Some entry \<Rightarrow> Inr entry | None \<Rightarrow> rd_get base view table key)
      | None \<Rightarrow> rd_get base view table key))"

text \<open>\<^verbatim>\<open>BTreeMap::range\<close> panics when the start is above the end.\<close>

definition staged_range :: "(bytes, bytes option) btree \<Rightarrow> bytes \<Rightarrow> bytes \<Rightarrow> db_err + staged list" where
  "staged_range staged start end' =
     (if end' < start then Inl Panic else Inr (bt_range start end' staged))"

definition overlay_range ::
  "('b, 'z) reader_scheme \<Rightarrow> 'b overlay \<Rightarrow> table_id \<Rightarrow> bytes \<Rightarrow> bytes \<Rightarrow> db_err + range_iter" where
  "overlay_range base = (\<lambda>(batch, view) table start end'.
     res_bind (case map_of batch table of Some staged \<Rightarrow> staged_range staged start end' | None \<Rightarrow> Inr [])
       (\<lambda>overlay. res_bind (rd_range base view table start end')
          (\<lambda>scan. Inr (Merged (items scan) overlay None None))))"

definition stage :: "table_id \<Rightarrow> bytes \<Rightarrow> bytes option \<Rightarrow> write_batch \<Rightarrow> write_batch" where
  "stage table key entry batch =
     bt_insert table
       (bt_insert key entry (case map_of batch table of Some staged \<Rightarrow> staged | None \<Rightarrow> [])) batch"

definition overlay_put :: "table_id \<Rightarrow> bytes \<Rightarrow> bytes \<Rightarrow> ('b overlay, db_err, unit) step" where
  "overlay_put table key val = (\<lambda>(batch, view). (Inr (), (stage table key (Some val) batch, view)))"

definition overlay_delete :: "table_id \<Rightarrow> bytes \<Rightarrow> ('b overlay, db_err, unit) step" where
  "overlay_delete table key = (\<lambda>(batch, view). (Inr (), (stage table key None batch, view)))"

definition overlay_store :: "('b, 'z) reader_scheme \<Rightarrow> 'b overlay store" where
  "overlay_store base =
     \<lparr>rd_get = overlay_get base, rd_range = overlay_range base,
      wr_put = overlay_put, wr_delete = overlay_delete\<rparr>"

lemma overlay_store_simps [simp]:
  "rd_get (overlay_store base) = overlay_get base"
  "rd_range (overlay_store base) = overlay_range base"
  "wr_put (overlay_store base) = overlay_put"
  "wr_delete (overlay_store base) = overlay_delete"
  by (simp_all add: overlay_store_def)

section \<open>What the batch stages\<close>

definition staged_of :: "write_batch \<Rightarrow> table_id \<Rightarrow> bytes \<Rightarrow> bytes option option" where
  "staged_of batch table = (case map_of batch table of None \<Rightarrow> Map.empty | Some staged \<Rightarrow> map_of staged)"

definition batch_ok :: "write_batch \<Rightarrow> bool" where
  "batch_ok batch \<longleftrightarrow> bt_ok batch \<and> list_all (\<lambda>(_, staged). bt_ok staged) batch"

lemma batch_ok_new [simp]: "batch_ok write_batch_new"
  by (simp add: batch_ok_def write_batch_new_def)

lemma staged_of_new [simp]: "staged_of write_batch_new t = Map.empty"
  by (simp add: staged_of_def write_batch_new_def)

lemma batch_okD: "batch_ok batch \<Longrightarrow> map_of batch t = Some staged \<Longrightarrow> bt_ok staged"
  by (auto simp: batch_ok_def list_all_iff dest: map_of_SomeD)

lemma set_bt_insert: "set (bt_insert k v m) \<subseteq> insert (k, v) (set m)"
  by (induction k v m rule: bt_insert.induct) auto

lemma batch_ok_stage:
  assumes "batch_ok batch"
  shows "batch_ok (stage t k e batch)"
proof -
  let ?staged = "case map_of batch t of Some staged \<Rightarrow> staged | None \<Rightarrow> []"
  have "bt_ok (bt_insert k e ?staged)"
    using batch_okD [OF assms, of t] by (intro bt_ok_insert) (simp split: option.split)
  with assms show ?thesis
    using set_bt_insert [of t "bt_insert k e ?staged" batch]
    by (auto simp: batch_ok_def stage_def list_all_iff bt_ok_insert)
qed

lemma staged_of_stage:
  "staged_of (stage t k e batch) t' k' = (if t' = t \<and> k' = k then Some e else staged_of batch t' k')"
  by (simp add: staged_of_def stage_def map_of_bt_insert split: option.split)

section \<open>The overlay keeps the store contract\<close>

definition overlay_contents :: "('b \<Rightarrow> tables) \<Rightarrow> 'b overlay \<Rightarrow> tables" where
  "overlay_contents contents = (\<lambda>(batch, view) t. overlay_map (contents view t) (staged_of batch t))"

definition overlay_inv :: "('b \<Rightarrow> bool) \<Rightarrow> 'b overlay \<Rightarrow> bool" where
  "overlay_inv ready = (\<lambda>(batch, view). batch_ok batch \<and> ready view)"

lemma overlay_contents_stage:
  "overlay_contents contents (stage t k e batch, view)
     = set_entry (overlay_contents contents (batch, view)) t k e"
  by (auto simp: overlay_contents_def overlay_map_def staged_of_stage fun_eq_iff)

context reader_contract
begin

lemma overlay_get_law:
  "overlay_inv ready s \<Longrightarrow> overlay_get R s t k = Inr (overlay_contents contents s t k)"
  by (auto simp: overlay_get_def overlay_inv_def overlay_contents_def overlay_map_def staged_of_def
      get_law split: option.split)

lemma overlay_range_law:
  assumes "overlay_inv ready s" and "lo \<le> hi"
  shows "\<exists>it xs. overlay_range R s t lo hi = Inr it \<and> items it = map Inr xs
    \<and> scan_of (overlay_contents contents s) t lo hi xs"
proof -
  obtain batch view where s: "s = (batch, view)" by fastforce
  with assms have ok: "batch_ok batch" "ready view" by (auto simp: overlay_inv_def)
  obtain scan xs where base: "rd_range R view t lo hi = Inr scan" "items scan = map Inr xs"
    "scan_of (contents view) t lo hi xs" using range_lawE [OF ok(2) assms(2)] .
  define staged where "staged = (case map_of batch t of Some staged \<Rightarrow> staged | None \<Rightarrow> [])"
  have staged: "bt_ok staged" "map_of staged = staged_of batch t"
    using batch_okD [OF ok(1), of t] by (auto simp: staged_def staged_of_def split: option.split)
  let ?ov = "bt_range lo hi staged"
  obtain zs where zs: "merged (map Inr xs) ?ov = map Inr zs" "bt_ok zs"
    "map_of zs = overlay_map (map_of xs) (map_of ?ov)"
    using merged_entries [OF refl, of xs ?ov] base(3) bt_ok_range [OF staged(1)]
    by (auto simp: scan_of_def)
  have "overlay_range R s t lo hi = Inr (Merged (map Inr xs) ?ov None None)"
    using base assms(2)
    by (auto simp: s overlay_range_def staged_range_def staged_def bt_range_def split: option.split)
  moreover have "items (Merged (map Inr xs) ?ov None None) = map Inr zs"
    by (simp add: items_eq_remaining zs(1))
  moreover have "scan_of (overlay_contents contents s) t lo hi zs"
    using base(3) zs(2,3) staged(2)
    by (simp add: scan_of_def map_of_bt_range overlay_map_restrict s overlay_contents_def)
  ultimately show ?thesis by blast
qed

lemma overlay_store_contract:
  "store_contract (overlay_store R) (overlay_contents contents) (overlay_inv ready)"
proof
  fix s t k
  assume "overlay_inv ready s"
  then show "rd_get (overlay_store R) s t k = Inr (overlay_contents contents s t k)"
    by (simp add: overlay_get_law)
next
  fix s t and lo hi :: bytes
  assume "overlay_inv ready s" "lo \<le> hi"
  then show "\<exists>it xs. rd_range (overlay_store R) s t lo hi = Inr it \<and> items it = map Inr xs
      \<and> scan_of (overlay_contents contents s) t lo hi xs"
    unfolding overlay_store_simps by (rule overlay_range_law)
next
  fix s t k v
  assume "overlay_inv ready s"
  then show "\<exists>s'. wr_put (overlay_store R) t k v s = (Inr (), s') \<and> overlay_inv ready s'
      \<and> overlay_contents contents s' = set_entry (overlay_contents contents s) t k (Some v)"
    by (auto simp: overlay_put_def overlay_inv_def batch_ok_stage overlay_contents_stage)
next
  fix s t k
  assume "overlay_inv ready s"
  then show "\<exists>s'. wr_delete (overlay_store R) t k s = (Inr (), s') \<and> overlay_inv ready s'
      \<and> overlay_contents contents s' = set_entry (overlay_contents contents s) t k None"
    by (auto simp: overlay_delete_def overlay_inv_def batch_ok_stage overlay_contents_stage)
qed

end

text \<open>\<open>len\<close> and \<open>is_empty\<close> agree.\<close>

lemma write_batch_is_empty_iff: "write_batch_is_empty batch \<longleftrightarrow> write_batch_len batch = 0"
  by (induction batch) (auto simp: write_batch_is_empty_def write_batch_len_def)

end
