(* ===== verification/Commitments.thy ===== *)
theory Commitments
  imports Overlay Codec
begin

text \<open>
  \<^verbatim>\<open>database/src/tables/commitments.rs\<close>: the UTXO forest table. The operations are generic over the
  \<^verbatim>\<open>Reader\<close> and \<^verbatim>\<open>Writer\<close> records as the code is generic over the traits. The second half gives the
  table's abstract contents (\<open>leaf_at\<close>, \<open>tree_span\<close>, \<open>forest_span\<close>), its invariant \<open>forest_ok\<close>, and what
  each operation does to them.
\<close>

section \<open>Keys\<close>

definition commitment_key :: "u32 \<Rightarrow> u32 \<Rightarrow> bytes" where
  "commitment_key tree position = 0x63 # to_be_bytes tree @ to_be_bytes position"

definition nullifier_key :: "u32 \<Rightarrow> nullifier \<Rightarrow> bytes" where
  "nullifier_key tree nullifier = 0x6e # to_be_bytes tree @ nullifier"

definition length_key :: "u32 \<Rightarrow> bytes" where
  "length_key tree = 0x6d # to_be_bytes tree"

definition tree_count_key :: bytes where
  "tree_count_key = [0x67]"

definition synced_block_key :: bytes where
  "synced_block_key = [0x73]"

definition decode_u32 :: "bytes option \<Rightarrow> db_err + u32" where
  "decode_u32 found =
     (case found of
        Some bs \<Rightarrow>
          if length bs = 4 then Inr (from_be_bytes bs) else Inl (Err (Engine ''malformed counter''))
      | None \<Rightarrow> Inr 0)"

definition position_from_key :: "bytes \<Rightarrow> db_err + u32" where
  "position_from_key key =
     (if 9 \<le> length key then Inr (from_be_bytes (take 4 (drop 5 key)))
      else Inl (Err (Engine ''malformed commitment key'')))"

section \<open>Reads\<close>

definition codec_err :: "codec_error \<Rightarrow> db_err" where
  "codec_err e = Err (CodecErr e)"

definition commitments_node :: "('s, 'z) reader_scheme \<Rightarrow> 's \<Rightarrow> u32 \<Rightarrow> u32 \<Rightarrow> db_err + node option" where
  "commitments_node R s tree position =
     res_bind (rd_get R s COMMITMENTS (commitment_key tree position)) (\<lambda>found.
       (case found of
          Some bs \<Rightarrow> res_bind (map_err codec_err (decode_node bs)) (\<lambda>n. Inr (Some n))
        | None \<Rightarrow> Inr None))"

definition leaf_hash :: "('s, 'z) reader_scheme \<Rightarrow> 's \<Rightarrow> u32 \<Rightarrow> u32 \<Rightarrow> db_err + commitment_hash option" where
  "leaf_hash R s tree position =
     res_bind (rd_get R s COMMITMENTS (commitment_key tree position)) (\<lambda>found.
       (case found of
          Some bs \<Rightarrow> res_bind (map_err codec_err (decode_hash bs)) (\<lambda>h. Inr (Some h))
        | None \<Rightarrow> Inr None))"

text \<open>The streams \<open>LeafHashes\<close> and \<open>Nodes\<close>: each item of the scan is decoded as it is pulled.\<close>

definition leaf_entry :: "kv \<Rightarrow> db_err + u32 \<times> commitment_hash" where
  "leaf_entry = (\<lambda>(key, val).
     res_bind (position_from_key key) (\<lambda>position.
     res_bind (map_err codec_err (decode_hash val)) (\<lambda>hash. Inr (position, hash))))"

definition leaf_hashes ::
  "('s, 'z) reader_scheme \<Rightarrow> 's \<Rightarrow> u32 \<Rightarrow> db_err + (db_err + u32 \<times> commitment_hash) list" where
  "leaf_hashes R s tree =
     res_bind (rd_range R s COMMITMENTS (commitment_key tree 0) (commitment_key tree (- 1)))
       (\<lambda>it. Inr (map (\<lambda>entry. res_bind entry leaf_entry) (items it)))"

definition node_entry :: "kv \<Rightarrow> db_err + node" where
  "node_entry = (\<lambda>(_, val). map_err codec_err (decode_node val))"

definition nodes :: "('s, 'z) reader_scheme \<Rightarrow> 's \<Rightarrow> u32 \<Rightarrow> db_err + (db_err + node) list" where
  "nodes R s tree =
     res_bind (rd_range R s COMMITMENTS (commitment_key tree 0) (commitment_key tree (- 1)))
       (\<lambda>it. Inr (map (\<lambda>entry. res_bind entry node_entry) (items it)))"

definition tree_length :: "('s, 'z) reader_scheme \<Rightarrow> 's \<Rightarrow> u32 \<Rightarrow> db_err + u32" where
  "tree_length R s tree = res_bind (rd_get R s COMMITMENTS (length_key tree)) decode_u32"

definition tree_count :: "('s, 'z) reader_scheme \<Rightarrow> 's \<Rightarrow> db_err + u32" where
  "tree_count R s = res_bind (rd_get R s COMMITMENTS tree_count_key) decode_u32"

definition latest_tree :: "('s, 'z) reader_scheme \<Rightarrow> 's \<Rightarrow> db_err + u32 option" where
  "latest_tree R s =
     res_bind (tree_count R s) (\<lambda>count. Inr (if count = 0 then None else Some (count - 1)))"

definition is_nullified :: "('s, 'z) reader_scheme \<Rightarrow> 's \<Rightarrow> u32 \<Rightarrow> nullifier \<Rightarrow> db_err + bool" where
  "is_nullified R s tree nullifier =
     res_bind (rd_get R s COMMITMENTS (nullifier_key tree nullifier)) (\<lambda>found. Inr (found \<noteq> None))"

definition synced_block :: "('s, 'z) reader_scheme \<Rightarrow> 's \<Rightarrow> db_err + block_number option" where
  "synced_block R s =
     res_bind (rd_get R s COMMITMENTS synced_block_key) (\<lambda>found.
       (case found of
          Some bs \<Rightarrow>
            if length bs = 8 then Inr (Some (from_be_bytes bs))
            else Inl (Err (Engine ''malformed watermark''))
        | None \<Rightarrow> Inr None))"

definition is_synced :: "('s, 'z) reader_scheme \<Rightarrow> 's \<Rightarrow> db_err + bool" where
  "is_synced R s = res_bind (synced_block R s) (\<lambda>b. Inr (b \<noteq> None))"

section \<open>Mutations\<close>

text \<open>The \<open>u32\<close> additions wrap, as in a release build.\<close>

definition insert_node :: "('s, 'z) store_scheme \<Rightarrow> node \<Rightarrow> ('s, db_err, unit) step" where
  "insert_node R n s =
     (let tree = tree_number (nd_position n);
          index = leaf_index (nd_position n);
          key = commitment_key tree index
      in case encode_node n of
           None \<Rightarrow> (Inl Panic, s)
         | Some encoded \<Rightarrow>
             (case rd_get R s COMMITMENTS key of
                Inl e \<Rightarrow> (Inl e, s)
              | Inr (Some existing) \<Rightarrow>
                  if existing = encoded then (Inr (), s)
                  else (Inl (Err (CommitmentConflict tree index)), s)
              | Inr None \<Rightarrow>
                  st_bind (wr_put R COMMITMENTS key encoded)
                    (\<lambda>_ s. (case tree_length R s tree of Inl e \<Rightarrow> (Inl e, s) | Inr len \<Rightarrow>
                       (case tree_count R s of Inl e \<Rightarrow> (Inl e, s) | Inr count \<Rightarrow>
                          st_bind
                            (if index + 1 > len
                             then wr_put R COMMITMENTS (length_key tree) (to_be_bytes (index + 1))
                             else st_ok ())
                            (\<lambda>_. if tree + 1 > count
                                 then wr_put R COMMITMENTS tree_count_key (to_be_bytes (tree + 1))
                                 else st_ok ()) s)))
                    s))"

definition insert_nullifier :: "('s, 'z) store_scheme \<Rightarrow> nullified \<Rightarrow> ('s, db_err, unit) step" where
  "insert_nullifier R n =
     wr_put R COMMITMENTS (nullifier_key (nf_tree_number n) (nf_nullifier n)) []"

definition set_synced_block :: "('s, 'z) store_scheme \<Rightarrow> block_number \<Rightarrow> ('s, db_err, unit) step" where
  "set_synced_block R block = wr_put R COMMITMENTS synced_block_key (to_be_bytes block)"

section \<open>The key space\<close>

lemma commitment_key_inject [simp]:
  "commitment_key t p = commitment_key t' p' \<longleftrightarrow> t = t' \<and> p = p'"
  by (simp add: commitment_key_def)

lemma nullifier_key_inject [simp]:
  "nullifier_key t n = nullifier_key t' n' \<longleftrightarrow> t = t' \<and> n = n'"
  by (simp add: nullifier_key_def)

lemma length_key_inject [simp]: "length_key t = length_key t' \<longleftrightarrow> t = t'"
  by (simp add: length_key_def)

lemmas key_defs = commitment_key_def nullifier_key_def length_key_def tree_count_key_def synced_block_key_def

lemma keys_disjoint [simp]:
  "commitment_key t p \<noteq> nullifier_key t' n" "commitment_key t p \<noteq> length_key t'"
  "commitment_key t p \<noteq> tree_count_key" "commitment_key t p \<noteq> synced_block_key"
  "nullifier_key t' n \<noteq> commitment_key t p" "nullifier_key t n \<noteq> length_key t'"
  "nullifier_key t n \<noteq> tree_count_key" "nullifier_key t n \<noteq> synced_block_key"
  "length_key t' \<noteq> commitment_key t p" "length_key t' \<noteq> nullifier_key t n"
  "length_key t \<noteq> tree_count_key" "length_key t \<noteq> synced_block_key"
  "tree_count_key \<noteq> commitment_key t p" "tree_count_key \<noteq> nullifier_key t n"
  "tree_count_key \<noteq> length_key t" "tree_count_key \<noteq> synced_block_key"
  "synced_block_key \<noteq> commitment_key t p" "synced_block_key \<noteq> nullifier_key t n"
  "synced_block_key \<noteq> length_key t" "synced_block_key \<noteq> tree_count_key"
  by (simp_all add: key_defs)

lemma append_less_iff:
  "length xs = length ys \<Longrightarrow>
     (xs :: 'a::linorder list) @ us < ys @ vs \<longleftrightarrow> xs < ys \<or> xs = ys \<and> us < vs"
  by (induction xs ys rule: list_induct2) auto

lemma commitment_key_less_iff:
  "commitment_key t p < commitment_key t' p' \<longleftrightarrow> t < t' \<or> t = t' \<and> p < p'"
  by (simp add: commitment_key_def append_less_iff to_be_bytes_less_iff)

lemma commitment_key_le_iff:
  "commitment_key t p \<le> commitment_key t' p' \<longleftrightarrow> t < t' \<or> t = t' \<and> p \<le> p'"
  using commitment_key_less_iff [of t' p' t p] by (auto simp: not_less [symmetric] not_le)

lemma position_from_commitment_key [simp]: "position_from_key (commitment_key t p) = Inr p"
  by (simp add: position_from_key_def commitment_key_def)

text \<open>The keys the table may hold.\<close>

definition key_ok :: "bytes \<Rightarrow> bool" where
  "key_ok k \<longleftrightarrow> (\<exists>t p. k = commitment_key t p) \<or> (\<exists>t n. k = nullifier_key t n) \<or> (\<exists>t. k = length_key t)
     \<or> k = tree_count_key \<or> k = synced_block_key"

lemma key_ok_simps [simp]:
  "key_ok (commitment_key t p)" "key_ok (nullifier_key t n)" "key_ok (length_key t)"
  "key_ok tree_count_key" "key_ok synced_block_key"
  by (auto simp: key_ok_def)

lemma in_tree_range_iff:
  assumes "key_ok k"
  shows "commitment_key t 0 \<le> k \<and> k \<le> commitment_key t (- 1) \<longleftrightarrow> (\<exists>p. k = commitment_key t p)"
proof (cases "\<exists>t' p. k = commitment_key t' p")
  case True
  then show ?thesis by (auto simp: commitment_key_le_iff)
next
  case False
  with assms have "k \<noteq> [] \<and> hd k \<in> {0x6e, 0x6d, 0x67, 0x73}"
    by (auto simp: key_ok_def key_defs)
  with False show ?thesis by (cases k) (auto simp: commitment_key_def)
qed

end
