(* ===== verification/Forest.thy ===== *)
theory Forest
  imports Commitments
begin

text \<open>
  What the commitments table promises. \<open>leaf_at\<close> is the forest a table represents, \<open>forest_ok\<close> the
  invariant of the frozen layout: only registered keys, every commitment record the encoding of a node
  at its own position, and the two counters equal to what they count. Every mutation keeps the
  invariant and changes the represented forest as specified; every read answers from it.
\<close>

section \<open>The represented forest\<close>

definition leaf_at :: "tables \<Rightarrow> u32 \<Rightarrow> u32 \<Rightarrow> node option" where
  "leaf_at m t p =
     (case m COMMITMENTS (commitment_key t p) of
        None \<Rightarrow> None
      | Some bs \<Rightarrow> (case decode_node bs of Inl _ \<Rightarrow> None | Inr n \<Rightarrow> Some n))"

definition has_leaf :: "tables \<Rightarrow> u32 \<Rightarrow> u32 \<Rightarrow> bool" where
  "has_leaf m t p \<longleftrightarrow> m COMMITMENTS (commitment_key t p) \<noteq> None"

definition nullified_in :: "tables \<Rightarrow> u32 \<Rightarrow> nullifier \<Rightarrow> bool" where
  "nullified_in m t n \<longleftrightarrow> m COMMITMENTS (nullifier_key t n) \<noteq> None"

text \<open>Highest seen position, or tree, plus one.\<close>

definition tree_span :: "tables \<Rightarrow> u32 \<Rightarrow> nat" where
  "tree_span m t = Max (insert 0 ((\<lambda>p. unat p + 1) ` {p. has_leaf m t p}))"

definition forest_span :: "tables \<Rightarrow> nat" where
  "forest_span m = Max (insert 0 ((\<lambda>t. unat t + 1) ` {t. \<exists>p. has_leaf m t p}))"

text \<open>A node the store can hold: its types' invariants, and lengths the codec can write and read.\<close>

definition storable :: "node \<Rightarrow> bool" where
  "storable n \<longleftrightarrow> wf_node n \<and> encodable_body (nd_body n) \<and> length (node_bytes n) < 2 ^ 64"

definition node_at :: "u32 \<Rightarrow> u32 \<Rightarrow> node \<Rightarrow> bool" where
  "node_at t p n \<longleftrightarrow> tree_number (nd_position n) = t \<and> leaf_index (nd_position n) = p"

definition counts :: "bytes option \<Rightarrow> nat \<Rightarrow> bool" where
  "counts found n \<longleftrightarrow> (\<exists>w. decode_u32 found = Inr w \<and> unat w = n)"

definition forest_ok :: "tables \<Rightarrow> bool" where
  "forest_ok m \<longleftrightarrow>
     (\<forall>k. m COMMITMENTS k \<noteq> None \<longrightarrow> key_ok k)
   \<and> (\<forall>t p bs. m COMMITMENTS (commitment_key t p) = Some bs \<longrightarrow>
        (\<exists>n. storable n \<and> node_at t p n \<and> bs = node_bytes n))
   \<and> (\<forall>t. counts (m COMMITMENTS (length_key t)) (tree_span m t))
   \<and> counts (m COMMITMENTS tree_count_key) (forest_span m)
   \<and> (\<forall>bs. m COMMITMENTS synced_block_key = Some bs \<longrightarrow> length bs = 8)"

lemma forest_okI:
  assumes "\<And>k. m COMMITMENTS k \<noteq> None \<Longrightarrow> key_ok k"
    and "\<And>t p bs. m COMMITMENTS (commitment_key t p) = Some bs \<Longrightarrow>
        \<exists>n. storable n \<and> node_at t p n \<and> bs = node_bytes n"
    and "\<And>t. counts (m COMMITMENTS (length_key t)) (tree_span m t)"
    and "counts (m COMMITMENTS tree_count_key) (forest_span m)"
    and "\<And>bs. m COMMITMENTS synced_block_key = Some bs \<Longrightarrow> length bs = 8"
  shows "forest_ok m"
  using assms by (simp add: forest_ok_def)

lemma forest_okD:
  assumes "forest_ok m"
  shows forest_key: "m COMMITMENTS k \<noteq> None \<Longrightarrow> key_ok k"
    and forest_node: "m COMMITMENTS (commitment_key t p) = Some bs \<Longrightarrow>
        \<exists>n. storable n \<and> node_at t p n \<and> bs = node_bytes n"
    and forest_length: "counts (m COMMITMENTS (length_key t)) (tree_span m t)"
    and forest_count: "counts (m COMMITMENTS tree_count_key) (forest_span m)"
    and forest_mark: "m COMMITMENTS synced_block_key = Some bs \<Longrightarrow> length bs = 8"
  using assms unfolding forest_ok_def by blast+

lemma decode_storable:
  "storable n \<Longrightarrow> decode_node (node_bytes n) = Inr n"
  "storable n \<Longrightarrow> decode_hash (node_bytes n) = Inr (nd_hash n)"
  "storable n \<Longrightarrow> encode_node n = Some (node_bytes n)"
  by (simp_all add: storable_def decode_node_node_bytes decode_hash_node_bytes wf_node_def encode_node_eq)

lemma node_bytes_inject: "storable n \<Longrightarrow> storable n' \<Longrightarrow> node_bytes n = node_bytes n' \<longleftrightarrow> n = n'"
  by (metis decode_storable(1) sum.inject(2))

lemma leaf_atE:
  assumes "forest_ok m"
  obtains "m COMMITMENTS (commitment_key t p) = None" "leaf_at m t p = None"
  | n where "m COMMITMENTS (commitment_key t p) = Some (node_bytes n)" "leaf_at m t p = Some n"
      "storable n" "node_at t p n"
proof (cases "m COMMITMENTS (commitment_key t p)")
  case None
  then show ?thesis using that(1) by (simp add: leaf_at_def)
next
  case (Some bs)
  with forest_node [OF assms Some] show ?thesis
    using that(2) by (auto simp: leaf_at_def decode_storable)
qed

lemma has_leaf_iff: "forest_ok m \<Longrightarrow> has_leaf m t p \<longleftrightarrow> leaf_at m t p \<noteq> None"
  by (erule leaf_atE [of m t p]) (auto simp: has_leaf_def)

lemma has_leaf_capacity: "forest_ok m \<Longrightarrow> has_leaf m t p \<Longrightarrow> unat p < 65536"
  by (erule leaf_atE [of m t p])
    (auto simp: has_leaf_def storable_def wf_node_def wf_position_nat node_at_def)

lemma leaf_at_storable:
  assumes "forest_ok m" and "leaf_at m t p = Some n"
  shows "storable n" and "node_at t p n" and "m COMMITMENTS (commitment_key t p) = Some (node_bytes n)"
  using assms(2) by (auto intro: leaf_atE [OF assms(1), of t p])

lemma bt_ok_map_of: "bt_ok m \<Longrightarrow> (k, v) \<in> set m \<Longrightarrow> map_of m k = Some v"
  by (simp add: bt_ok_def strict_sorted_iff)

subsection \<open>Spans\<close>

lemma tree_span_le: "tree_span m t \<le> k \<longleftrightarrow> (\<forall>p. has_leaf m t p \<longrightarrow> unat p < k)"
  unfolding tree_span_def by (subst Max_le_iff) auto

lemma forest_span_le: "forest_span m \<le> k \<longleftrightarrow> (\<forall>t p. has_leaf m t p \<longrightarrow> unat t < k)"
  unfolding forest_span_def by (subst Max_le_iff) auto

lemma has_leaf_in_span: "has_leaf m t p \<Longrightarrow> unat p < tree_span m t \<and> unat t < forest_span m"
  using tree_span_le [of m t "tree_span m t"] forest_span_le [of m "forest_span m"] by blast

lemma tree_span_attained:
  assumes "tree_span m t = Suc k"
  shows "\<exists>p. has_leaf m t p \<and> unat p = k"
proof -
  have "tree_span m t \<in> insert 0 ((\<lambda>p. unat p + 1) ` {p. has_leaf m t p})"
    unfolding tree_span_def by (rule Max_in) auto
  with assms show ?thesis by auto
qed

lemma tree_span_capacity: "forest_ok m \<Longrightarrow> tree_span m t \<le> 65536"
  unfolding tree_span_le using has_leaf_capacity by blast

lemma spans_cong:
  assumes "\<And>t p. has_leaf m t p = has_leaf m' t p"
  shows "tree_span m t = tree_span m' t" and "forest_span m = forest_span m'"
  by (simp_all add: tree_span_def forest_span_def assms)

lemma nat_eq_by_bounds: "(\<And>k. a \<le> k \<longleftrightarrow> b \<le> k) \<Longrightarrow> a = (b :: nat)"
  by (meson order.refl antisym)

lemma tree_span_add:
  assumes "\<And>t' p'. has_leaf m' t' p' \<longleftrightarrow> has_leaf m t' p' \<or> t' = t \<and> p' = p"
  shows "tree_span m' u = (if u = t then max (tree_span m u) (unat p + 1) else tree_span m u)"
  by (rule nat_eq_by_bounds) (auto simp: tree_span_le assms Suc_le_eq)

lemma forest_span_add:
  assumes "\<And>t' p'. has_leaf m' t' p' \<longleftrightarrow> has_leaf m t' p' \<or> t' = t \<and> p' = p"
  shows "forest_span m' = max (forest_span m) (unat t + 1)"
  by (rule nat_eq_by_bounds) (simp add: forest_span_le assms Suc_le_eq, blast)

lemma counts_to_be_bytes: "counts (Some (to_be_bytes (w :: u32))) n \<longleftrightarrow> unat w = n"
  by (simp add: counts_def decode_u32_def)

lemma counts_none: "counts None n \<longleftrightarrow> n = 0"
  by (auto simp: counts_def decode_u32_def)

lemma forest_ok_empty: "forest_ok (\<lambda>_. Map.empty)"
  by (rule forest_okI) (auto simp: counts_none tree_span_def forest_span_def has_leaf_def)

section \<open>Reads answer from the represented forest\<close>

context reader_contract
begin

lemma commitments_node_law:
  assumes "ready s" and "forest_ok (contents s)"
  shows "commitments_node R s t p = Inr (leaf_at (contents s) t p)"
  using assms(2)
  by (rule leaf_atE [of _ t p]) (simp_all add: commitments_node_def get_law [OF assms(1)] decode_storable)

lemma leaf_hash_law:
  assumes "ready s" and "forest_ok (contents s)"
  shows "leaf_hash R s t p = Inr (map_option nd_hash (leaf_at (contents s) t p))"
  using assms(2)
  by (rule leaf_atE [of _ t p]) (simp_all add: leaf_hash_def get_law [OF assms(1)] decode_storable)

lemma tree_length_law:
  assumes "ready s" and "forest_ok (contents s)"
  obtains len where "tree_length R s t = Inr len" and "unat len = tree_span (contents s) t"
  using forest_length [OF assms(2), of t] by (auto simp: tree_length_def get_law [OF assms(1)] counts_def)

lemma tree_count_law:
  assumes "ready s" and "forest_ok (contents s)"
  obtains count where "tree_count R s = Inr count" and "unat count = forest_span (contents s)"
  using forest_count [OF assms(2)] by (auto simp: tree_count_def get_law [OF assms(1)] counts_def)

lemma is_nullified_law:
  "ready s \<Longrightarrow> is_nullified R s t n = Inr (nullified_in (contents s) t n)"
  by (simp add: is_nullified_def get_law nullified_in_def)

lemma tree_scan:
  assumes "ready s" and "forest_ok (contents s)"
  obtains it kvs where
    "rd_range R s COMMITMENTS (commitment_key t 0) (commitment_key t (- 1)) = Inr it"
    "items it = map Inr kvs" "bt_ok kvs"
    "\<And>k v. (k, v) \<in> set kvs \<longleftrightarrow> (\<exists>p n. k = commitment_key t p \<and> leaf_at (contents s) t p = Some n
        \<and> v = node_bytes n)"
proof -
  have "commitment_key t 0 \<le> commitment_key t (- 1)" by (simp add: commitment_key_le_iff)
  then obtain it kvs where
    it: "rd_range R s COMMITMENTS (commitment_key t 0) (commitment_key t (- 1)) = Inr it"
    "items it = map Inr kvs" and
    scan: "scan_of (contents s) COMMITMENTS (commitment_key t 0) (commitment_key t (- 1)) kvs"
    by (rule range_lawE [OF assms(1)])
  have "(k, v) \<in> set kvs \<longleftrightarrow> (\<exists>p n. k = commitment_key t p \<and> leaf_at (contents s) t p = Some n
        \<and> v = node_bytes n)" for k v
  proof -
    have "(k, v) \<in> set kvs \<longleftrightarrow> contents s COMMITMENTS k = Some v \<and> (\<exists>p. k = commitment_key t p)"
      using scan_of_iff [OF scan, of k v] in_tree_range_iff [of k t] forest_key [OF assms(2), of k] by auto
    also have "\<dots> \<longleftrightarrow> (\<exists>p n. k = commitment_key t p \<and> leaf_at (contents s) t p = Some n \<and> v = node_bytes n)"
      by (metis leaf_atE [OF assms(2)] option.inject option.distinct(1))
    finally show ?thesis .
  qed
  with it scan that show ?thesis by (auto simp: scan_of_def)
qed

text \<open>The scan of a tree, as the list of its positions and nodes.\<close>

lemma tree_entries:
  assumes "ready s" and "forest_ok (contents s)"
  obtains it pns where
    "rd_range R s COMMITMENTS (commitment_key t 0) (commitment_key t (- 1)) = Inr it"
    "items it = map (\<lambda>(p, n). Inr (commitment_key t p, node_bytes n)) pns"
    "bt_ok pns" "map_of pns = leaf_at (contents s) t"
proof -
  obtain it kvs where
    it: "rd_range R s COMMITMENTS (commitment_key t 0) (commitment_key t (- 1)) = Inr it"
    "items it = map Inr kvs" and ok: "bt_ok kvs" and
    entry: "\<And>k v. (k, v) \<in> set kvs \<longleftrightarrow> (\<exists>p n. k = commitment_key t p \<and> leaf_at (contents s) t p = Some n
        \<and> v = node_bytes n)" by (rule tree_scan [OF assms, of t]) blast
  let ?f = "\<lambda>(p, n). (commitment_key t p, node_bytes n)"
  have "\<forall>kv \<in> set kvs. \<exists>pn. kv = ?f pn \<and> leaf_at (contents s) t (fst pn) = Some (snd pn)"
    using entry by auto
  then obtain g where g: "\<forall>kv \<in> set kvs. kv = ?f (g kv) \<and> leaf_at (contents s) t (fst (g kv)) = Some (snd (g kv))"
    by metis
  define pns where "pns = map g kvs"
  have kvs: "kvs = map ?f pns" using g by (simp add: pns_def map_idI)
  have pns: "leaf_at (contents s) t p = Some n" if "(p, n) \<in> set pns" for p n
  proof -
    from that obtain kv where "kv \<in> set kvs" "g kv = (p, n)" by (auto simp: pns_def)
    with g show ?thesis by (metis fst_conv snd_conv)
  qed
  have keys: "map fst kvs = map (commitment_key t) (map fst pns)"
    unfolding kvs by (simp add: case_prod_unfold comp_def)
  have asc: "bt_ok pns"
    using ok unfolding bt_ok_def keys by (simp add: sorted_wrt_map commitment_key_less_iff)
  have "map_of pns p = leaf_at (contents s) t p" for p
  proof (cases "leaf_at (contents s) t p")
    case None
    then show ?thesis using pns by (auto simp: map_of_eq_None_iff)
  next
    case (Some n)
    then have "(commitment_key t p, node_bytes n) \<in> set kvs" using entry by blast
    then obtain n' where "(p, n') \<in> set pns" unfolding kvs by auto
    moreover from this have "n' = n" using pns Some by fastforce
    ultimately show ?thesis
      using Some asc by (simp add: bt_ok_def strict_sorted_iff)
  qed
  then have "map_of pns = leaf_at (contents s) t" by (rule ext)
  moreover have "items it = map (\<lambda>(p, n). Inr (commitment_key t p, node_bytes n)) pns"
    unfolding it(2) kvs by (simp add: case_prod_unfold)
  ultimately show ?thesis using that [OF it(1) _ asc] by blast
qed

lemma leaf_hashes_law:
  assumes "ready s" and "forest_ok (contents s)"
  shows "\<exists>ls. leaf_hashes R s t = Inr (map Inr ls) \<and> bt_ok ls
    \<and> map_of ls = (\<lambda>p. map_option nd_hash (leaf_at (contents s) t p))"
proof -
  obtain it pns where e: "rd_range R s COMMITMENTS (commitment_key t 0) (commitment_key t (- 1)) = Inr it"
    "items it = map (\<lambda>(p, n). Inr (commitment_key t p, node_bytes n)) pns"
    "bt_ok pns" "map_of pns = leaf_at (contents s) t" using tree_entries [OF assms] .
  have st: "storable n" if "(p, n) \<in> set pns" for p n
    using leaf_at_storable [OF assms(2)] bt_ok_map_of [OF e(3) that] e(4) by simp
  let ?ls = "map (\<lambda>(p, n). (p, nd_hash n)) pns"
  have "leaf_hashes R s t = Inr (map Inr ?ls)"
    using st by (auto simp: leaf_hashes_def e(1,2) leaf_entry_def decode_storable)
  moreover have "bt_ok ?ls" using e(3) by (simp add: bt_ok_def comp_def case_prod_unfold)
  moreover have "map_of ?ls = (\<lambda>p. map_option nd_hash (leaf_at (contents s) t p))"
    by (simp add: map_of_map e(4) fun_eq_iff)
  ultimately show ?thesis by blast
qed

lemma nodes_law:
  assumes "ready s" and "forest_ok (contents s)"
  shows "\<exists>pns. nodes R s t = Inr (map (Inr \<circ> snd) pns) \<and> bt_ok pns \<and> map_of pns = leaf_at (contents s) t"
proof -
  obtain it pns where e: "rd_range R s COMMITMENTS (commitment_key t 0) (commitment_key t (- 1)) = Inr it"
    "items it = map (\<lambda>(p, n). Inr (commitment_key t p, node_bytes n)) pns"
    "bt_ok pns" "map_of pns = leaf_at (contents s) t" using tree_entries [OF assms] .
  have st: "storable n" if "(p, n) \<in> set pns" for p n
    using leaf_at_storable [OF assms(2)] bt_ok_map_of [OF e(3) that] e(4) by simp
  have "nodes R s t = Inr (map (Inr \<circ> snd) pns)"
    using st by (auto simp: nodes_def node_entry_def e(1,2) decode_storable)
  with e(3,4) show ?thesis by blast
qed

lemma synced_block_law:
  assumes "ready s"
  shows "synced_block R s = (case contents s COMMITMENTS synced_block_key of
      None \<Rightarrow> Inr None
    | Some bs \<Rightarrow> if length bs = 8 then Inr (Some (from_be_bytes bs)) else Inl (Err (Engine ''malformed watermark'')))"
  by (simp add: synced_block_def get_law [OF assms])

end

section \<open>Mutations\<close>

text \<open>Entries outside the commitment keys do not touch the represented leaves.\<close>

lemma leaf_at_other:
  "(\<And>t p. commitment_key t p \<noteq> k) \<Longrightarrow> leaf_at (set_entry m COMMITMENTS k e) t p = leaf_at m t p"
  by (simp add: leaf_at_def)

lemma has_leaf_other:
  "(\<And>t p. commitment_key t p \<noteq> k) \<Longrightarrow> has_leaf (set_entry m COMMITMENTS k e) t p = has_leaf m t p"
  by (simp add: has_leaf_def)

lemma spans_other:
  assumes "\<And>t p. commitment_key t p \<noteq> k"
  shows "tree_span (set_entry m COMMITMENTS k e) t = tree_span m t"
    and "forest_span (set_entry m COMMITMENTS k e) = forest_span m"
  by (rule spans_cong, simp add: has_leaf_other [OF assms])+

lemma forest_ok_other:
  assumes "forest_ok m" and "T \<noteq> COMMITMENTS"
  shows "forest_ok (set_entry m T k e)" and "leaf_at (set_entry m T k e) = leaf_at m"
proof -
  have "set_entry m T k e COMMITMENTS = m COMMITMENTS" using assms(2) by (simp add: set_entry_def)
  then show "forest_ok (set_entry m T k e)" "leaf_at (set_entry m T k e) = leaf_at m"
    using assms(1) by (simp_all add: forest_ok_def leaf_at_def tree_span_def forest_span_def has_leaf_def fun_eq_iff)
qed

lemma forest_ok_nullifier:
  assumes "forest_ok m"
  shows "forest_ok (set_entry m COMMITMENTS (nullifier_key t n) (Some bs))"
  using assms by (auto simp: forest_ok_def spans_other)

lemma forest_ok_synced:
  assumes "forest_ok m" and "length bs = 8"
  shows "forest_ok (set_entry m COMMITMENTS synced_block_key (Some bs))"
  using assms by (auto simp: forest_ok_def spans_other)

text \<open>What storing a new node does to the table.\<close>

definition stored :: "node \<Rightarrow> tables \<Rightarrow> tables \<Rightarrow> bool" where
  "stored n m m' \<longleftrightarrow> forest_ok m'
     \<and> leaf_at m' = (\<lambda>t p. if node_at t p n then Some n else leaf_at m t p)
     \<and> nullified_in m' = nullified_in m
     \<and> m' COMMITMENTS synced_block_key = m COMMITMENTS synced_block_key
     \<and> (\<forall>T. T \<noteq> COMMITMENTS \<longrightarrow> m' T = m T)"

lemma stored_counters:
  fixes m :: tables and t p :: u32
  assumes "forest_ok m" and "storable n" and "node_at t p n" and "unat t + 1 < 2 ^ 32"
  defines "m1 \<equiv> set_entry m COMMITMENTS (commitment_key t p) (Some (node_bytes n))"
  defines "m2 \<equiv> (if unat p + 1 > tree_span m t
              then set_entry m1 COMMITMENTS (length_key t) (Some (to_be_bytes (p + 1))) else m1)"
  defines "m3 \<equiv> (if unat t + 1 > forest_span m
              then set_entry m2 COMMITMENTS tree_count_key (Some (to_be_bytes (t + 1))) else m2)"
  shows "stored n m m3"
proof -
  have p: "unat (p + 1) = unat p + 1"
    using assms(2,3) by (auto simp: storable_def wf_node_def wf_position_nat node_at_def unat_word_ariths)
  have t: "unat (t + 1) = unat t + 1" using assms(4) by (simp add: unat_word_ariths)
  have node: "m3 COMMITMENTS (commitment_key u q) =
      (if u = t \<and> q = p then Some (node_bytes n) else m COMMITMENTS (commitment_key u q))" for u q
    by (simp add: m3_def m2_def m1_def)
  have other: "m3 COMMITMENTS (length_key u) =
      (if u = t \<and> unat p + 1 > tree_span m t then Some (to_be_bytes (p + 1)) else m COMMITMENTS (length_key u))"
    "m3 COMMITMENTS tree_count_key =
      (if unat t + 1 > forest_span m then Some (to_be_bytes (t + 1)) else m COMMITMENTS tree_count_key)"
    "m3 COMMITMENTS synced_block_key = m COMMITMENTS synced_block_key"
    "m3 COMMITMENTS (nullifier_key u b) = m COMMITMENTS (nullifier_key u b)" for u b
    by (simp_all add: m3_def m2_def m1_def)
  have tables: "T \<noteq> COMMITMENTS \<Longrightarrow> m3 T = m T" for T
    by (simp add: m3_def m2_def m1_def set_entry_def)
  have has: "has_leaf m3 u q \<longleftrightarrow> has_leaf m u q \<or> u = t \<and> q = p" for u q
    by (auto simp: has_leaf_def node)
  have leaf: "leaf_at m3 u q = (if node_at u q n then Some n else leaf_at m u q)" for u q
    using assms(2,3) by (auto simp: leaf_at_def node node_at_def decode_storable)
  have "forest_ok m3"
  proof (rule forest_okI)
    fix k assume "m3 COMMITMENTS k \<noteq> None"
    then show "key_ok k"
      using forest_key [OF assms(1), of k] by (auto simp: m3_def m2_def m1_def split: if_splits)
  next
    fix u q bs assume "m3 COMMITMENTS (commitment_key u q) = Some bs"
    then show "\<exists>n. storable n \<and> node_at u q n \<and> bs = node_bytes n"
      using forest_node [OF assms(1), of u q bs] assms(2,3) by (auto simp: node split: if_splits)
  next
    fix u
    show "counts (m3 COMMITMENTS (length_key u)) (tree_span m3 u)"
      using forest_length [OF assms(1), of u]
      by (auto simp: other(1) tree_span_add [OF has] counts_to_be_bytes p)
  next
    show "counts (m3 COMMITMENTS tree_count_key) (forest_span m3)"
      using forest_count [OF assms(1)]
      by (auto simp: other(2) forest_span_add [OF has] counts_to_be_bytes t)
  next
    fix bs assume "m3 COMMITMENTS synced_block_key = Some bs"
    then show "length bs = 8" using forest_mark [OF assms(1)] by (simp add: other(3))
  qed
  then show ?thesis
    by (simp add: stored_def leaf other(3,4) nullified_in_def tables fun_eq_iff)
qed

context store_contract
begin

lemma insert_node_new:
  assumes s: "ready s" and ok: "forest_ok (contents s)" and n: "storable n" "node_at t p n"
    and t: "unat t + 1 < 2 ^ 32" and new: "leaf_at (contents s) t p = None"
  shows "\<exists>s'. insert_node R n s = (Inr (), s') \<and> ready s' \<and> stored n (contents s) (contents s')"
proof -
  let ?m = "contents s"
  have at: "tree_number (nd_position n) = t" "leaf_index (nd_position n) = p"
    using n(2) by (simp_all add: node_at_def)
  have p1: "unat (p + 1) = unat p + 1" and t1: "unat (t + 1) = unat t + 1"
    using n t by (auto simp: storable_def wf_node_def wf_position_nat node_at_def unat_word_ariths)
  have none: "rd_get R s COMMITMENTS (commitment_key t p) = Inr None"
    using new by (rule_tac leaf_atE [OF ok, of t p]) (simp_all add: get_law [OF s])
  obtain s1 where s1: "wr_put R COMMITMENTS (commitment_key t p) (node_bytes n) s = (Inr (), s1)" "ready s1"
    "contents s1 = set_entry ?m COMMITMENTS (commitment_key t p) (Some (node_bytes n))"
    using put_law [OF s] by blast
  obtain len where len: "tree_length R s1 t = Inr len" "unat len = tree_span ?m t"
    using forest_length [OF ok, of t] by (auto simp: tree_length_def get_law [OF s1(2)] s1(3) counts_def)
  obtain count where count: "tree_count R s1 = Inr count" "unat count = forest_span ?m"
    using forest_count [OF ok] by (auto simp: tree_count_def get_law [OF s1(2)] s1(3) counts_def)
  have cmp: "len < p + 1 \<longleftrightarrow> unat p + 1 > tree_span ?m t" "count < t + 1 \<longleftrightarrow> unat t + 1 > forest_span ?m"
    using len(2) count(2) p1 t1 by (simp_all add: word_less_nat_alt)
  obtain s2 where s2: "(if len < p + 1 then wr_put R COMMITMENTS (length_key t) (to_be_bytes (p + 1)) else st_ok ()) s1
      = (Inr (), s2)" "ready s2"
    "contents s2 = (if len < p + 1
       then set_entry (contents s1) COMMITMENTS (length_key t) (Some (to_be_bytes (p + 1))) else contents s1)"
    using put_law [OF s1(2), of COMMITMENTS "length_key t" "to_be_bytes (p + 1)"] s1(2)
    by (cases "len < p + 1") auto
  obtain s3 where s3: "(if count < t + 1 then wr_put R COMMITMENTS tree_count_key (to_be_bytes (t + 1)) else st_ok ()) s2
      = (Inr (), s3)" "ready s3"
    "contents s3 = (if count < t + 1
       then set_entry (contents s2) COMMITMENTS tree_count_key (Some (to_be_bytes (t + 1))) else contents s2)"
    using put_law [OF s2(2), of COMMITMENTS tree_count_key "to_be_bytes (t + 1)"] s2(2)
    by (cases "count < t + 1") auto
  have "insert_node R n s = (Inr (), s3)"
    unfolding insert_node_def Let_def at
    by (simp add: decode_storable [OF n(1)] none st_bind_def s1(1) len(1) count(1) s2(1) s3(1)
        split del: if_split)
  moreover have "stored n ?m (contents s3)"
    using stored_counters [OF ok n t] unfolding s3(3) s2(3) s1(3) cmp .
  ultimately show ?thesis using s3(2) by blast
qed

lemma insert_node_last:
  assumes s: "ready s" and ok: "forest_ok (contents s)" and n: "storable n" "node_at (- 1) p n"
    and new: "leaf_at (contents s) (- 1) p = None"
  shows "\<exists>s'. insert_node R n s = (Inr (), s') \<and> ready s'
    \<and> contents s' COMMITMENTS tree_count_key = contents s COMMITMENTS tree_count_key
    \<and> contents s' COMMITMENTS (commitment_key (- 1) p) = Some (node_bytes n)"
proof -
  let ?m = "contents s" and ?t = "- 1 :: u32"
  have at: "tree_number (nd_position n) = ?t" "leaf_index (nd_position n) = p"
    using n(2) by (simp_all add: node_at_def)
  have none: "rd_get R s COMMITMENTS (commitment_key ?t p) = Inr None"
    using new by (rule_tac leaf_atE [OF ok, of ?t p]) (simp_all add: get_law [OF s])
  obtain s1 where s1: "wr_put R COMMITMENTS (commitment_key ?t p) (node_bytes n) s = (Inr (), s1)" "ready s1"
    "contents s1 = set_entry ?m COMMITMENTS (commitment_key ?t p) (Some (node_bytes n))"
    using put_law [OF s] by blast
  obtain len where len: "tree_length R s1 ?t = Inr len"
    using forest_length [OF ok, of ?t] by (auto simp: tree_length_def get_law [OF s1(2)] s1(3) counts_def)
  obtain count where count: "tree_count R s1 = Inr count"
    using forest_count [OF ok] by (auto simp: tree_count_def get_law [OF s1(2)] s1(3) counts_def)
  obtain s2 where s2: "(if len < p + 1 then wr_put R COMMITMENTS (length_key ?t) (to_be_bytes (p + 1)) else st_ok ()) s1
      = (Inr (), s2)" "ready s2"
    "contents s2 = (if len < p + 1
       then set_entry (contents s1) COMMITMENTS (length_key ?t) (Some (to_be_bytes (p + 1))) else contents s1)"
    using put_law [OF s1(2), of COMMITMENTS "length_key ?t" "to_be_bytes (p + 1)"] s1(2)
    by (cases "len < p + 1") auto
  have "insert_node R n s = (Inr (), s2)"
    unfolding insert_node_def Let_def at
    by (simp add: decode_storable [OF n(1)] none st_bind_def s1(1) len count s2(1) split del: if_split)
  moreover have "contents s2 COMMITMENTS tree_count_key = ?m COMMITMENTS tree_count_key"
    "contents s2 COMMITMENTS (commitment_key ?t p) = Some (node_bytes n)"
    by (simp_all add: s2(3) s1(3))
  ultimately show ?thesis using s2(2) by blast
qed

lemma insert_node_existing:
  assumes s: "ready s" and ok: "forest_ok (contents s)" and n: "storable n" "node_at t p n"
    and old: "leaf_at (contents s) t p = Some n'"
  shows "insert_node R n s = ((if n' = n then Inr () else Inl (Err (CommitmentConflict t p))), s)"
proof -
  have at: "tree_number (nd_position n) = t" "leaf_index (nd_position n) = p"
    using n(2) by (simp_all add: node_at_def)
  show ?thesis
    unfolding insert_node_def Let_def at
    using leaf_at_storable [OF ok old] node_bytes_inject [OF _ n(1), of n']
    by (simp add: decode_storable [OF n(1)] get_law [OF s])
qed

lemma insert_nullifier_law:
  assumes "ready s" and "forest_ok (contents s)"
  shows "\<exists>s'. insert_nullifier R n s = (Inr (), s') \<and> ready s' \<and> forest_ok (contents s')
    \<and> contents s' = set_entry (contents s) COMMITMENTS (nullifier_key (nf_tree_number n) (nf_nullifier n)) (Some [])"
  using put_law [OF assms(1), of COMMITMENTS "nullifier_key (nf_tree_number n) (nf_nullifier n)" "[]"]
    forest_ok_nullifier [OF assms(2)]
  by (auto simp: insert_nullifier_def)

lemma set_synced_block_law:
  assumes "ready s" and "forest_ok (contents s)"
  shows "\<exists>s'. set_synced_block R b s = (Inr (), s') \<and> ready s' \<and> forest_ok (contents s')
    \<and> contents s' = set_entry (contents s) COMMITMENTS synced_block_key (Some (to_be_bytes b))"
  using put_law [OF assms(1), of COMMITMENTS synced_block_key "to_be_bytes b"]
    forest_ok_synced [OF assms(2), of "to_be_bytes b"]
  by (auto simp: set_synced_block_def)

end

end
