(* ===== verification/Merkle_Walk.thy ===== *)
theory Merkle_Walk
  imports Merkle Forest
begin

text \<open>
  The Merkle walk over the database (\<^verbatim>\<open>crypto/src/merkle.rs\<close>) and the two small tables beside the
  commitments: frontier snapshots (\<^verbatim>\<open>tables/frontier.rs\<close>) and decoded notes (\<^verbatim>\<open>tables/decoded.rs\<close>).
  \<^verbatim>\<open>serde_json\<close> is third-party and appears as a pair of functions; \<open>json_ok\<close> is its round trip on
  snapshots. The section on the reference says what a tree's root is, given the represented forest, and
  proves that the streaming walk computes it.
\<close>

section \<open>serde_json\<close>

record 'v json =
  js_to_vec :: "'v \<Rightarrow> string + bytes"
  js_from_slice :: "bytes \<Rightarrow> string + 'v"

definition json_ok :: "'v json \<Rightarrow> bool" where
  "json_ok J \<longleftrightarrow> (\<forall>v. \<exists>bs. js_to_vec J v = Inr bs \<and> js_from_slice J bs = Inr v)"

definition serde_err :: "string \<Rightarrow> db_err" where
  "serde_err msg = Err (Serde msg)"

section \<open>The frontier and decoded tables\<close>

definition frontier_snapshot :: "('s, 'z) reader_scheme \<Rightarrow> 's \<Rightarrow> u32 \<Rightarrow> db_err + bytes option" where
  "frontier_snapshot R s tree = rd_get R s FRONTIER (to_be_bytes tree)"

definition set_snapshot :: "('s, 'z) store_scheme \<Rightarrow> u32 \<Rightarrow> bytes \<Rightarrow> ('s, db_err, unit) step" where
  "set_snapshot R tree bs = wr_put R FRONTIER (to_be_bytes tree) bs"

definition clear_snapshot :: "('s, 'z) store_scheme \<Rightarrow> u32 \<Rightarrow> ('s, db_err, unit) step" where
  "clear_snapshot R tree = wr_delete R FRONTIER (to_be_bytes tree)"

definition NOTES_KEY :: bytes where
  "NOTES_KEY = [0x64, 0x65, 0x63, 0x6f, 0x64, 0x65, 0x64, 0x5f, 0x6e, 0x6f, 0x74, 0x65, 0x73]"

definition decoded_load :: "('s, 'z) reader_scheme \<Rightarrow> 'n list json \<Rightarrow> 's \<Rightarrow> db_err + 'n list" where
  "decoded_load R J s =
     res_bind (rd_get R s DECODED NOTES_KEY) (\<lambda>found.
       (case found of
          Some bs \<Rightarrow> map_err serde_err (js_from_slice J bs)
        | None \<Rightarrow> Inr []))"

definition decoded_save :: "('s, 'z) store_scheme \<Rightarrow> 'n list json \<Rightarrow> 'n list \<Rightarrow> ('s, db_err, unit) step" where
  "decoded_save R J notes =
     st_bind (st_lift (map_err serde_err (js_to_vec J notes))) (\<lambda>encoded. wr_put R DECODED NOTES_KEY encoded)"

section \<open>The walk\<close>

datatype merkle_error =
    Database db_err
  | TreeOverfull u32 u32 u32
  | FrontierCodec string
  | Frontier frontier_error

type_synonym walk = "accumulator \<times> u32 \<times> u32"

text \<open>\<^verbatim>\<open>while expected < target { insert(zero); missing += 1; expected += 1 }\<close>\<close>

function fill_gap :: "merkle_config \<Rightarrow> u32 \<Rightarrow> walk \<Rightarrow> walk" where
  "fill_gap C target (a, missing, expected) =
     (if expected < target
      then fill_gap C target (accumulator_insert C (mc_zero C) a, missing + 1, expected + 1)
      else (a, missing, expected))"
  by pat_completeness auto
termination
proof (relation "measure (\<lambda>(C, target, a, missing, expected). unat target - unat expected)")
  fix C target a missing and expected :: u32
  assume "expected < target"
  then have "unat expected < unat target" by (simp add: word_less_nat_alt)
  moreover from this have "unat (expected + 1) = unat expected + 1"
    using unsigned_less [of target, where 'a = nat] by (simp add: unat_word_ariths)
  ultimately show "((C, target, accumulator_insert C (mc_zero C) a, missing + 1, expected + 1),
      C, target, a, missing, expected)
      \<in> measure (\<lambda>(C, target, a, missing, expected). unat target - unat expected)" by simp
qed simp

declare fill_gap.simps [simp del]

fun walk_entries ::
  "merkle_config \<Rightarrow> (db_err + u32 \<times> commitment_hash) list \<Rightarrow> walk \<Rightarrow> merkle_error + walk" where
  "walk_entries C [] st = Inr st"
| "walk_entries C (Inl e # entries) st = Inl (Database e)"
| "walk_entries C (Inr (position, hash) # entries) st =
     (case fill_gap C position st of
        (a, missing, expected) \<Rightarrow>
          walk_entries C entries (accumulator_insert C hash a, missing, expected + 1))"

definition tree_frontier ::
  "('s, 'z) reader_scheme \<Rightarrow> merkle_config \<Rightarrow> 's \<Rightarrow> u32 \<Rightarrow> merkle_error + accumulator \<times> u32 \<times> u32" where
  "tree_frontier R C s tree =
     res_bind (map_err Database (tree_length R s tree)) (\<lambda>leaf_count.
       let capacity = push_bit (mc_depth C) 1
       in if leaf_count > capacity then Inl (TreeOverfull tree leaf_count capacity)
          else res_bind (map_err Database (leaf_hashes R s tree)) (\<lambda>entries.
            res_bind (walk_entries C entries (accumulator_new C, 0, 0)) (\<lambda>st.
              (case fill_gap C leaf_count st of (a, missing, expected) \<Rightarrow> Inr (a, leaf_count, missing)))))"

definition walk_up ::
  "('s, 'z) reader_scheme \<Rightarrow> merkle_config \<Rightarrow> 's \<Rightarrow> u32 \<Rightarrow> merkle_error + u256 \<times> u32 \<times> u32" where
  "walk_up R C s tree =
     res_bind (tree_frontier R C s tree)
       (\<lambda>(a, leaf_count, missing). Inr (accumulator_root a, leaf_count, missing))"

definition merkle_root ::
  "('s, 'z) reader_scheme \<Rightarrow> merkle_config \<Rightarrow> merkle_accumulator_state json \<Rightarrow> 's \<Rightarrow> u32 \<Rightarrow> merkle_error + u256" where
  "merkle_root R C J s tree =
     res_bind (map_err Database (tree_length R s tree)) (\<lambda>leaf_count.
     res_bind (map_err Database (frontier_snapshot R s tree)) (\<lambda>found.
       let full = res_bind (walk_up R C s tree) (\<lambda>(root, _, _). Inr root)
       in case found of
            Some bs \<Rightarrow>
              res_bind (map_err FrontierCodec (js_from_slice J bs)) (\<lambda>st.
                if as_next_index st = ucast leaf_count then Inr (as_root st) else full)
          | None \<Rightarrow> full))"

record tree_integrity =
  ti_tree :: u32
  ti_leaf_count :: u32
  ti_root :: u256
  ti_missing :: u32
  ti_valid :: bool

text \<open>A \<^verbatim>\<open>MerklerootValidator\<close> is its \<^verbatim>\<open>is_valid\<close>.\<close>

definition expected_root :: "u256 \<Rightarrow> u32 \<Rightarrow> u32 \<Rightarrow> u256 \<Rightarrow> bool" where
  "expected_root expected tree last_leaf_index root \<longleftrightarrow> expected = root"

definition validate ::
  "('s, 'z) reader_scheme \<Rightarrow> merkle_config \<Rightarrow> (u32 \<Rightarrow> u32 \<Rightarrow> u256 \<Rightarrow> bool) \<Rightarrow> 's \<Rightarrow> u32
     \<Rightarrow> merkle_error + tree_integrity" where
  "validate R C is_valid s tree =
     res_bind (walk_up R C s tree) (\<lambda>(root, leaf_count, missing).
       let last_leaf_index = (if leaf_count = 0 then 0 else leaf_count - 1)
       in Inr \<lparr>ti_tree = tree, ti_leaf_count = leaf_count, ti_root = root, ti_missing = missing,
               ti_valid = is_valid tree last_leaf_index root\<rparr>)"

section \<open>The reference\<close>

text \<open>The leaves of a tree up to its highest stored position, the zero value where none is stored.\<close>

definition leaf_value :: "merkle_config \<Rightarrow> tables \<Rightarrow> u32 \<Rightarrow> nat \<Rightarrow> u256" where
  "leaf_value C m t q = (case leaf_at m t (of_nat q) of None \<Rightarrow> mc_zero C | Some n \<Rightarrow> nd_hash n)"

definition leaves_of :: "merkle_config \<Rightarrow> tables \<Rightarrow> u32 \<Rightarrow> u256 list" where
  "leaves_of C m t = map (leaf_value C m t) [0..<tree_span m t]"

definition missing_of :: "tables \<Rightarrow> u32 \<Rightarrow> nat" where
  "missing_of m t = card {q. q < tree_span m t \<and> leaf_at m t (of_nat q) = None}"

lemma length_leaves_of [simp]: "length (leaves_of C m t) = tree_span m t"
  by (simp add: leaves_of_def)

text \<open>The state of the walk when the positions below \<open>k\<close> have been folded.\<close>

definition walked :: "merkle_config \<Rightarrow> tables \<Rightarrow> u32 \<Rightarrow> nat \<Rightarrow> walk \<Rightarrow> bool" where
  "walked C m t k = (\<lambda>(a, missing, expected).
     accumulates C (map (leaf_value C m t) [0..<k]) a \<and> unat expected = k
     \<and> unat missing = card {q. q < k \<and> leaf_at m t (of_nat q) = None})"

lemma missing_Suc:
  "card {q. q < Suc k \<and> P q} = card {q. q < k \<and> P q} + (if P k then 1 else 0)"
proof -
  have "{q. q < Suc k \<and> P q} = {q. q < k \<and> P q} \<union> (if P k then {k} else {})"
    by (auto simp: less_Suc_eq)
  then show ?thesis by simp
qed

lemma missing_le: "card {q. q < k \<and> P q} \<le> (k :: nat)"
proof -
  have "card {q. q < k \<and> P q} \<le> card {..<k}" by (rule card_mono) auto
  then show ?thesis by simp
qed

lemma walked_gap:
  assumes "walked C m t k (a, missing, expected)" and "leaf_at m t (of_nat k) = None"
    and "k < 65536" and "mc_depth C = 16"
  shows "walked C m t (Suc k) (accumulator_insert C (mc_zero C) a, missing + 1, expected + 1)"
proof -
  let ?c = "card {q. q < k \<and> leaf_at m t (of_nat q) = None}"
  have w: "accumulates C (map (leaf_value C m t) [0..<k]) a" "unat expected = k" "unat missing = ?c"
    using assms(1) by (simp_all add: walked_def)
  have "?c \<le> k" by (rule missing_le)
  have v: "leaf_value C m t k = mc_zero C" using assms(2) by (simp add: leaf_value_def)
  have "accumulates C (map (leaf_value C m t) [0..<k] @ [mc_zero C]) (accumulator_insert C (mc_zero C) a)"
    by (rule accumulates_insert [OF w(1)]) (use assms(3,4) in simp_all)
  moreover have "unat (expected + 1) = Suc k" "unat (missing + 1) = ?c + 1"
    using w(2,3) assms(3) \<open>?c \<le> k\<close> by (simp_all add: unat_word_ariths)
  ultimately show ?thesis using assms(2) by (simp add: walked_def v missing_Suc)
qed

lemma walked_leaf:
  assumes "walked C m t k (a, missing, expected)" and "leaf_at m t (of_nat k) = Some n"
    and "k < 65536" and "mc_depth C = 16"
  shows "walked C m t (Suc k) (accumulator_insert C (nd_hash n) a, missing, expected + 1)"
proof -
  have w: "accumulates C (map (leaf_value C m t) [0..<k]) a" "unat expected = k"
    "unat missing = card {q. q < k \<and> leaf_at m t (of_nat q) = None}"
    using assms(1) by (simp_all add: walked_def)
  have v: "leaf_value C m t k = nd_hash n" using assms(2) by (simp add: leaf_value_def)
  have "accumulates C (map (leaf_value C m t) [0..<k] @ [nd_hash n]) (accumulator_insert C (nd_hash n) a)"
    by (rule accumulates_insert [OF w(1)]) (use assms(3,4) in simp_all)
  moreover have "unat (expected + 1) = Suc k"
    using w(2) assms(3) by (simp add: unat_word_ariths)
  ultimately show ?thesis using w(3) assms(2) by (simp add: walked_def v missing_Suc)
qed

lemma walked_fill:
  assumes "walked C m t k st" and "k \<le> unat target" and "unat target \<le> 65536" and "mc_depth C = 16"
    and "\<forall>q. k \<le> q \<and> q < unat target \<longrightarrow> leaf_at m t (of_nat q) = None"
  shows "walked C m t (unat target) (fill_gap C target st)"
  using assms
proof (induction C target st arbitrary: k rule: fill_gap.induct)
  case (1 C target a missing expected)
  have k: "unat expected = k" using "1.prems"(1) by (simp add: walked_def)
  show ?case
  proof (cases "expected < target")
    case True
    then have lt: "k < unat target" using k by (simp add: word_less_nat_alt)
    have "walked C m t (Suc k) (accumulator_insert C (mc_zero C) a, missing + 1, expected + 1)"
      by (rule walked_gap [OF "1.prems"(1)]) (use "1.prems" lt in auto)
    from "1.IH" [OF True this] "1.prems" lt show ?thesis
      by (subst fill_gap.simps) (simp add: True)
  next
    case False
    then have "unat target = k" using k "1.prems"(2) by (simp add: word_less_nat_alt)
    with False "1.prems"(1) show ?thesis by (subst fill_gap.simps) simp
  qed
qed

lemma walked_entries:
  assumes "walked C m t k st" and "mc_depth C = 16" and "bt_ok ls"
    and "\<forall>p \<in> fst ` set ls. k \<le> unat p \<and> unat p < 65536"
    and "\<forall>p. k \<le> unat p \<longrightarrow> map_of ls p = map_option nd_hash (leaf_at m t p)"
    and "k \<le> len" and "\<forall>p \<in> fst ` set ls. unat p < len"
  shows "\<exists>st' k'. walk_entries C (map Inr ls) st = Inr st' \<and> walked C m t k' st'
    \<and> (\<forall>p. k' \<le> unat p \<longrightarrow> leaf_at m t p = None) \<and> k' \<le> len"
  using assms
proof (induction ls arbitrary: k st)
  case Nil
  then show ?case by force
next
  case (Cons entry ls)
  obtain p h where entry: "entry = (p, h)" by fastforce
  have p: "k \<le> unat p" "unat p < 65536" using Cons.prems(4) entry by auto
  have "map_of (entry # ls) p = map_option nd_hash (leaf_at m t p)"
    using Cons.prems(5) p(1) by blast
  then obtain n where n: "leaf_at m t p = Some n" "h = nd_hash n"
    by (cases "leaf_at m t p") (auto simp: entry)
  have gap: "leaf_at m t (of_nat q) = None" if "k \<le> q" "q < unat p" for q
  proof -
    have q: "unat (of_nat q :: u32) = q" using that p(2) by (simp add: unat_of_nat_small)
    then have "(of_nat q :: u32) < p" using that(2) by (simp add: word_less_nat_alt)
    then have "map_of (entry # ls) (of_nat q) = None"
      using Cons.prems(3) entry by (intro map_of_above_None) (auto intro: order.strict_trans)
    with Cons.prems(5) q that(1) show ?thesis by (metis option.map_disc_iff)
  qed
  obtain a missing expected where st: "fill_gap C p st = (a, missing, expected)" by (metis prod_cases3)
  have "walked C m t (unat p) (fill_gap C p st)"
    by (rule walked_fill [OF Cons.prems(1) p(1) _ Cons.prems(2)]) (use p(2) gap in auto)
  then have "walked C m t (Suc (unat p)) (accumulator_insert C h a, missing, expected + 1)"
    unfolding st n(2) by (rule walked_leaf) (use n p(2) Cons.prems(2) in simp_all)
  moreover have "\<forall>p' \<in> fst ` set ls. Suc (unat p) \<le> unat p' \<and> unat p' < 65536"
    using Cons.prems(3,4) entry by (auto simp: word_less_nat_alt)
  moreover have "\<forall>p'. Suc (unat p) \<le> unat p' \<longrightarrow> map_of ls p' = map_option nd_hash (leaf_at m t p')"
  proof (intro allI impI)
    fix p' :: u32
    assume le: "Suc (unat p) \<le> unat p'"
    then have "map_of (entry # ls) p' = map_option nd_hash (leaf_at m t p')"
      using Cons.prems(5) p(1) by simp
    with le show "map_of ls p' = map_option nd_hash (leaf_at m t p')" by (auto simp: entry split: if_splits)
  qed
  moreover have "Suc (unat p) \<le> len" "\<forall>p \<in> fst ` set ls. unat p < len"
    using Cons.prems(7) entry by auto
  ultimately show ?case
    using Cons.IH [of "Suc (unat p)"] Cons.prems(2,3) by (simp add: entry st)
qed

text \<open>The walk computes the accumulator of the tree's leaves.\<close>

context reader_contract
begin

lemma tree_frontier_law:
  assumes "ready s" and "forest_ok (contents s)" and "mc_depth C = 16"
  shows "\<exists>a len missing. tree_frontier R C s t = Inr (a, len, missing)
    \<and> accumulates C (leaves_of C (contents s) t) a
    \<and> unat len = tree_span (contents s) t \<and> unat missing = missing_of (contents s) t"
proof -
  let ?m = "contents s"
  obtain len where len: "tree_length R s t = Inr len" "unat len = tree_span ?m t"
    using tree_length_law [OF assms(1,2)] .
  have cap: "unat len \<le> 65536" using tree_span_capacity [OF assms(2)] len(2) by simp
  then have not_over: "\<not> push_bit (mc_depth C) 1 < len"
    by (simp add: assms(3) word_less_nat_alt)
  obtain ls where ls: "leaf_hashes R s t = Inr (map Inr ls)" "bt_ok ls"
    "map_of ls = (\<lambda>p. map_option nd_hash (leaf_at ?m t p))" using leaf_hashes_law [OF assms(1,2)] by blast
  have pos: "unat p < tree_span ?m t" if "p \<in> fst ` set ls" for p
  proof -
    from that have "map_of ls p \<noteq> None" by (simp add: map_of_eq_None_iff)
    then have "has_leaf ?m t p" using ls(3) has_leaf_iff [OF assms(2)] by auto
    then show ?thesis using has_leaf_in_span by blast
  qed
  have "walked C ?m t 0 (accumulator_new C, 0, 0)"
    by (simp add: walked_def accumulates_new)
  then obtain st k where st: "walk_entries C (map Inr ls) (accumulator_new C, 0, 0) = Inr st"
    "walked C ?m t k st" "\<forall>p. k \<le> unat p \<longrightarrow> leaf_at ?m t p = None" "k \<le> tree_span ?m t"
    using walked_entries [of C ?m t 0 "(accumulator_new C, 0, 0)" ls "tree_span ?m t"] assms(3) ls(2,3) pos
      tree_span_capacity [OF assms(2), of t] by force
  have "walked C ?m t (unat len) (fill_gap C len st)"
  proof (rule walked_fill [OF st(2) _ cap assms(3)])
    show "k \<le> unat len" using st(4) len(2) by simp
    show "\<forall>q. k \<le> q \<and> q < unat len \<longrightarrow> leaf_at ?m t (of_nat q) = None"
      using st(3) cap by (simp add: unat_of_nat_small)
  qed
  moreover obtain a missing expected where "fill_gap C len st = (a, missing, expected)" by (metis prod_cases3)
  ultimately show ?thesis
    using len ls(1) st(1) not_over
    by (simp add: tree_frontier_def walked_def leaves_of_def missing_of_def)
qed

lemma walk_up_law:
  assumes "ready s" and "forest_ok (contents s)" and "mc_depth C = 16"
  shows "\<exists>len missing. walk_up R C s t = Inr (tree_root C (leaves_of C (contents s) t), len, missing)
    \<and> unat len = tree_span (contents s) t \<and> unat missing = missing_of (contents s) t"
  using tree_frontier_law [OF assms] by (force simp: walk_up_def accumulates_root)

lemma frontier_snapshot_law: "ready s \<Longrightarrow> frontier_snapshot R s t = Inr (contents s FRONTIER (to_be_bytes t))"
  by (simp add: frontier_snapshot_def get_law)

lemma validate_law:
  assumes "ready s" and "forest_ok (contents s)" and "mc_depth C = 16"
  shows "\<exists>report. validate R C is_valid s t = Inr report \<and> ti_tree report = t
     \<and> ti_root report = tree_root C (leaves_of C (contents s) t)
     \<and> unat (ti_leaf_count report) = tree_span (contents s) t
     \<and> unat (ti_missing report) = missing_of (contents s) t
     \<and> ti_valid report = is_valid t (of_nat (tree_span (contents s) t - 1)) (ti_root report)"
proof -
  obtain len missing where w: "walk_up R C s t = Inr (tree_root C (leaves_of C (contents s) t), len, missing)"
    "unat len = tree_span (contents s) t" "unat missing = missing_of (contents s) t"
    using walk_up_law [OF assms] by blast
  have "(if len = 0 then 0 else len - 1) = of_nat (unat len - 1)"
    by (cases "len = 0") (simp_all add: unat_gt_0 Suc_leI of_nat_diff)
  with w show ?thesis by (simp add: validate_def)
qed

end

section \<open>Snapshots\<close>

text \<open>Every tree with leaves has a snapshot, and every snapshot is the accumulator of its tree's leaves.\<close>

definition snapshot_current ::
  "merkle_config \<Rightarrow> merkle_accumulator_state json \<Rightarrow> tables \<Rightarrow> u32 \<Rightarrow> bool" where
  "snapshot_current C J m t \<longleftrightarrow>
     (case m FRONTIER (to_be_bytes t) of
        None \<Rightarrow> tree_span m t = 0
      | Some bs \<Rightarrow> \<exists>a. accumulates C (leaves_of C m t) a \<and> js_from_slice J bs = Inr (accumulator_state a))"

definition snapshots_ok :: "merkle_config \<Rightarrow> merkle_accumulator_state json \<Rightarrow> tables \<Rightarrow> bool" where
  "snapshots_ok C J m \<longleftrightarrow> (\<forall>t. snapshot_current C J m t)"

context reader_contract
begin

lemma merkle_root_law:
  assumes "ready s" and "forest_ok (contents s)" and "mc_depth C = 16"
    and "snapshot_current C J (contents s) t"
  shows "merkle_root R C J s t = Inr (tree_root C (leaves_of C (contents s) t))"
proof -
  let ?m = "contents s"
  obtain len where len: "tree_length R s t = Inr len" "unat len = tree_span ?m t"
    using tree_length_law [OF assms(1,2)] .
  obtain l missing where walk: "walk_up R C s t = Inr (tree_root C (leaves_of C ?m t), l, missing)"
    using walk_up_law [OF assms(1-3)] by blast
  show ?thesis
  proof (cases "?m FRONTIER (to_be_bytes t)")
    case None
    then show ?thesis by (simp add: merkle_root_def len(1) frontier_snapshot_law [OF assms(1)] walk)
  next
    case (Some bs)
    with assms(4) obtain a where "accumulates C (leaves_of C ?m t) a"
      "js_from_slice J bs = Inr (accumulator_state a)" by (auto simp: snapshot_current_def)
    then show ?thesis
      by (simp add: merkle_root_def len(1) frontier_snapshot_law [OF assms(1)] walk Some accumulator_state_def
          accumulates_def Let_def)
  qed
qed

end

end
