(* ===== verification/Engine.thy ===== *)
theory Engine
  imports Overlay
begin

text \<open>
  \<^verbatim>\<open>database/src/engine.rs\<close>, the trait implementations of \<open>ReadView\<close> and \<open>WriteTxn\<close>
  (\<^verbatim>\<open>read.rs\<close>, \<^verbatim>\<open>write.rs\<close>) and the transaction entry points of \<^verbatim>\<open>lib.rs\<close>. The redb engine is third-party: it
  is the parameter \<open>redb\<close>, a record of the calls the adapter makes, and the locale \<open>redb_laws\<close> is
  what redb documents of them. \<open>mem_redb\<close> is an executable engine that keeps these laws; the
  interpretations at the end are over it.
\<close>

section \<open>The calls into redb\<close>

record ('db, 'rt, 'tbl, 'wt) redb =
  redb_create :: "'db \<Rightarrow> string + 'db"
  redb_begin_read :: "'db \<Rightarrow> string + 'rt"
  redb_begin_write :: "'db \<Rightarrow> string + 'wt"
  ro_open_table :: "'rt \<Rightarrow> string \<Rightarrow> string + 'tbl"
  ro_get :: "'tbl \<Rightarrow> bytes \<Rightarrow> string + bytes option"
  ro_range :: "'tbl \<Rightarrow> bytes \<Rightarrow> bytes \<Rightarrow> string + (string + kv) list"
  rw_open_table :: "string \<Rightarrow> ('wt, string, unit) step"
  rw_get :: "'wt \<Rightarrow> string \<Rightarrow> bytes \<Rightarrow> string + bytes option"
  rw_range :: "'wt \<Rightarrow> string \<Rightarrow> bytes \<Rightarrow> bytes \<Rightarrow> string + (string + kv) list"
  rw_insert :: "string \<Rightarrow> bytes \<Rightarrow> bytes \<Rightarrow> ('wt, string, unit) step"
  rw_remove :: "string \<Rightarrow> bytes \<Rightarrow> ('wt, string, unit) step"
  rw_delete_table :: "string \<Rightarrow> ('wt, string, unit) step"
  redb_commit :: "'wt \<Rightarrow> ('db, string, unit) step"

definition engine_error :: "string \<Rightarrow> db_err" where
  "engine_error msg = Err (Engine msg)"

definition st_map_err :: "('e \<Rightarrow> 'f) \<Rightarrow> ('s, 'e, 'a) step \<Rightarrow> ('s, 'f, 'a) step" where
  "st_map_err f m s = (case m s of (r, s') \<Rightarrow> (map_err f r, s'))"

section \<open>engine.rs\<close>

definition engine_open :: "('db, 'rt, 'tbl, 'wt) redb \<Rightarrow> 'db \<Rightarrow> db_err + 'db" where
  "engine_open E file = map_err engine_error (redb_create E file)"

definition begin_read :: "('db, 'rt, 'tbl, 'wt) redb \<Rightarrow> 'db \<Rightarrow> db_err + 'rt" where
  "begin_read E db = map_err engine_error (redb_begin_read E db)"

definition begin_write :: "('db, 'rt, 'tbl, 'wt) redb \<Rightarrow> 'db \<Rightarrow> db_err + 'wt" where
  "begin_write E db = map_err engine_error (redb_begin_write E db)"

subsection \<open>Read transactions\<close>

definition read_txn_get ::
  "('db, 'rt, 'tbl, 'wt) redb \<Rightarrow> 'rt \<Rightarrow> table_id \<Rightarrow> bytes \<Rightarrow> db_err + bytes option" where
  "read_txn_get E rt table key =
     res_bind (map_err engine_error (ro_open_table E rt (table_name table)))
       (\<lambda>tbl. map_err engine_error (ro_get E tbl key))"

text \<open>\<open>RawRange\<close> maps the engine error of each item when it is pulled.\<close>

definition read_txn_range ::
  "('db, 'rt, 'tbl, 'wt) redb \<Rightarrow> 'rt \<Rightarrow> table_id \<Rightarrow> bytes \<Rightarrow> bytes \<Rightarrow> db_err + item list" where
  "read_txn_range E rt table start end' =
     res_bind (map_err engine_error (ro_open_table E rt (table_name table)))
       (\<lambda>tbl. res_bind (map_err engine_error (ro_range E tbl start end'))
          (\<lambda>range. Inr (map (map_err engine_error) range)))"

subsection \<open>Write transactions\<close>

text \<open>
  A point read or scan of a write transaction opens the table for its duration; the handle is
  dropped at the end, and what is read is what the table then holds.
\<close>

definition with_table ::
  "('db, 'rt, 'tbl, 'wt) redb \<Rightarrow> table_id \<Rightarrow> ('wt, string, 'a) step \<Rightarrow> ('wt, db_err, 'a) step" where
  "with_table E table m = st_map_err engine_error (st_bind (rw_open_table E (table_name table)) (\<lambda>_. m))"

definition write_txn_get ::
  "('db, 'rt, 'tbl, 'wt) redb \<Rightarrow> 'wt \<Rightarrow> table_id \<Rightarrow> bytes \<Rightarrow> db_err + bytes option" where
  "write_txn_get E wt table key =
     fst (with_table E table (\<lambda>wt. (rw_get E wt (table_name table) key, wt)) wt)"

primrec collect_scan :: "(string + kv) list \<Rightarrow> string + kv list" where
  "collect_scan [] = Inr []"
| "collect_scan (entry # rest) =
     res_bind entry (\<lambda>kv. res_bind (collect_scan rest) (\<lambda>out. Inr (kv # out)))"

definition write_txn_range ::
  "('db, 'rt, 'tbl, 'wt) redb \<Rightarrow> 'wt \<Rightarrow> table_id \<Rightarrow> bytes \<Rightarrow> bytes \<Rightarrow> db_err + kv list" where
  "write_txn_range E wt table start end' =
     fst (with_table E table
       (\<lambda>wt. (res_bind (rw_range E wt (table_name table) start end') collect_scan, wt)) wt)"

definition write_txn_put ::
  "('db, 'rt, 'tbl, 'wt) redb \<Rightarrow> table_id \<Rightarrow> bytes \<Rightarrow> bytes \<Rightarrow> ('wt, db_err, unit) step" where
  "write_txn_put E table key val = with_table E table (rw_insert E (table_name table) key val)"

definition write_txn_delete ::
  "('db, 'rt, 'tbl, 'wt) redb \<Rightarrow> table_id \<Rightarrow> bytes \<Rightarrow> ('wt, db_err, unit) step" where
  "write_txn_delete E table key = with_table E table (rw_remove E (table_name table) key)"

definition write_txn_clear_table ::
  "('db, 'rt, 'tbl, 'wt) redb \<Rightarrow> table_id \<Rightarrow> ('wt, db_err, unit) step" where
  "write_txn_clear_table E table =
     st_bind (st_map_err engine_error (rw_delete_table E (table_name table)))
       (\<lambda>_. st_map_err engine_error (rw_open_table E (table_name table)))"

definition write_txn_materialize ::
  "('db, 'rt, 'tbl, 'wt) redb \<Rightarrow> table_id \<Rightarrow> ('wt, db_err, unit) step" where
  "write_txn_materialize E table = st_map_err engine_error (rw_open_table E (table_name table))"

definition write_txn_commit ::
  "('db, 'rt, 'tbl, 'wt) redb \<Rightarrow> 'wt \<Rightarrow> ('db, db_err, unit) step" where
  "write_txn_commit E wt = st_map_err engine_error (redb_commit E wt)"

section \<open>read.rs and write.rs\<close>

definition read_view :: "('db, 'rt, 'tbl, 'wt) redb \<Rightarrow> 'rt reader" where
  "read_view E =
     \<lparr>rd_get = read_txn_get E,
      rd_range = (\<lambda>rt table start end'.
        res_bind (read_txn_range E rt table start end') (\<lambda>range. Inr (Raw range)))\<rparr>"

text \<open>The mutation counters feed the commit event; \<open>touched\<close> is a \<^verbatim>\<open>BTreeSet\<close> of table names.\<close>

record 'wt write_txn =
  wt_inner :: 'wt
  wt_puts :: u64
  wt_deletes :: u64
  wt_touched :: "(string, unit) btree"

definition write_txn_new :: "'wt \<Rightarrow> 'wt write_txn" where
  "write_txn_new inner = \<lparr>wt_inner = inner, wt_puts = 0, wt_deletes = 0, wt_touched = []\<rparr>"

definition on_inner :: "('wt, 'e, 'a) step \<Rightarrow> ('wt write_txn, 'e, 'a) step" where
  "on_inner m txn = (case m (wt_inner txn) of (r, inner) \<Rightarrow> (r, txn\<lparr>wt_inner := inner\<rparr>))"

definition touch :: "table_id \<Rightarrow> 'wt write_txn \<Rightarrow> 'wt write_txn" where
  "touch table txn = txn\<lparr>wt_touched := bt_insert (table_name table) () (wt_touched txn)\<rparr>"

definition txn_put ::
  "('db, 'rt, 'tbl, 'wt) redb \<Rightarrow> table_id \<Rightarrow> bytes \<Rightarrow> bytes \<Rightarrow> ('wt write_txn, db_err, unit) step" where
  "txn_put E table key val txn =
     on_inner (write_txn_put E table key val) (touch table (txn\<lparr>wt_puts := wt_puts txn + 1\<rparr>))"

definition txn_delete ::
  "('db, 'rt, 'tbl, 'wt) redb \<Rightarrow> table_id \<Rightarrow> bytes \<Rightarrow> ('wt write_txn, db_err, unit) step" where
  "txn_delete E table key txn =
     on_inner (write_txn_delete E table key) (touch table (txn\<lparr>wt_deletes := wt_deletes txn + 1\<rparr>))"

definition txn_clear_table ::
  "('db, 'rt, 'tbl, 'wt) redb \<Rightarrow> table_id \<Rightarrow> ('wt write_txn, db_err, unit) step" where
  "txn_clear_table E table txn = on_inner (write_txn_clear_table E table) (touch table txn)"

definition write_txn_store :: "('db, 'rt, 'tbl, 'wt) redb \<Rightarrow> 'wt write_txn store" where
  "write_txn_store E =
     \<lparr>rd_get = (\<lambda>txn. write_txn_get E (wt_inner txn)),
      rd_range = (\<lambda>txn table start end'.
        res_bind (write_txn_range E (wt_inner txn) table start end') (\<lambda>out. Inr (Collected out))),
      wr_put = txn_put E, wr_delete = txn_delete E\<rparr>"

section \<open>version.rs\<close>

definition SCHEMA_VERSIONS :: "(table_id \<times> u32) list" where
  "SCHEMA_VERSIONS = [(COMMITMENTS, 1), (DECODED, 1), (FRONTIER, 1), (META, 1)]"

text \<open>\<^verbatim>\<open>b'v'\<close> followed by the bytes of the name.\<close>

definition ascii :: "string \<Rightarrow> bytes" where
  "ascii s = map (\<lambda>c. of_nat (of_char c)) s"

definition version_key :: "table_id \<Rightarrow> bytes" where
  "version_key table = ascii ''v'' @ ascii (table_name table)"

definition read_version :: "('s, 'z) reader_scheme \<Rightarrow> 's \<Rightarrow> table_id \<Rightarrow> db_err + u32 option" where
  "read_version R s table =
     res_bind (rd_get R s META (version_key table)) (\<lambda>found.
       (case found of
          None \<Rightarrow> Inr None
        | Some bs \<Rightarrow>
            if length bs = 4 then Inr (Some (from_be_bytes bs))
            else Inl (Err (Engine ''malformed version stamp''))))"

definition schema_version :: "('db, 'rt, 'tbl, 'wt) redb \<Rightarrow> 'rt \<Rightarrow> table_id \<Rightarrow> db_err + u32 option" where
  "schema_version E view table = read_version (read_view E) view table"

definition check_and_stamp_one :: "('s, 'z) store_scheme \<Rightarrow> table_id \<times> u32 \<Rightarrow> ('s, db_err, unit) step" where
  "check_and_stamp_one R = (\<lambda>(table, expected) s.
     (case read_version R s table of
        Inl e \<Rightarrow> (Inl e, s)
      | Inr (Some found) \<Rightarrow>
          if found \<noteq> expected then (Inl (Err (SchemaVersion (table_name table) found expected)), s)
          else (Inr (), s)
      | Inr None \<Rightarrow> wr_put R META (version_key table) (to_be_bytes expected) s))"

definition check_and_stamp :: "('s, 'z) store_scheme \<Rightarrow> ('s, db_err, unit) step" where
  "check_and_stamp R = st_for (check_and_stamp_one R) SCHEMA_VERSIONS"

section \<open>lib.rs\<close>

definition db_read :: "('db, 'rt, 'tbl, 'wt) redb \<Rightarrow> 'db \<Rightarrow> db_err + 'rt" where
  "db_read E db = begin_read E db"

text \<open>
  \<open>from\<close> is the \<^verbatim>\<open>From<DatabaseError>\<close> of the closure's error type. Only a commit touches the
  database; a transaction that is dropped leaves it as it was.
\<close>

definition db_write ::
  "('db, 'rt, 'tbl, 'wt) redb \<Rightarrow> (db_err \<Rightarrow> 'e) \<Rightarrow> ('wt write_txn, 'e, 'a) step \<Rightarrow> ('db, 'e, 'a) step" where
  "db_write E from f db =
     (case begin_write E db of
        Inl e \<Rightarrow> (Inl (from e), db)
      | Inr inner \<Rightarrow>
          (case f (write_txn_new inner) of
             (Inl e, _) \<Rightarrow> (Inl e, db)
           | (Inr val, txn) \<Rightarrow>
               (case write_txn_commit E (wt_inner txn) db of
                  (Inl e, db') \<Rightarrow> (Inl (from e), db')
                | (Inr _, db') \<Rightarrow> (Inr val, db'))))"

definition apply_entry ::
  "('s, 'z) store_scheme \<Rightarrow> table_id \<Rightarrow> bytes \<times> bytes option \<Rightarrow> ('s, db_err, unit) step" where
  "apply_entry R table = (\<lambda>(key, entry).
     (case entry of Some val \<Rightarrow> wr_put R table key val | None \<Rightarrow> wr_delete R table key))"

definition apply_batch :: "('s, 'z) store_scheme \<Rightarrow> write_batch \<Rightarrow> ('s, db_err, unit) step" where
  "apply_batch R = st_for (\<lambda>(table, kvs). st_for (apply_entry R table) kvs)"

definition db_apply :: "('db, 'rt, 'tbl, 'wt) redb \<Rightarrow> write_batch \<Rightarrow> ('db, db_err, unit) step" where
  "db_apply E batch = db_write E id (apply_batch (write_txn_store E) batch)"

definition db_clear_all :: "('db, 'rt, 'tbl, 'wt) redb \<Rightarrow> ('db, db_err, unit) step" where
  "db_clear_all E =
     db_write E id (st_bind (st_for (txn_clear_table E) ALL_TABLES) (\<lambda>_. check_and_stamp (write_txn_store E)))"

definition db_initialize :: "('db, 'rt, 'tbl, 'wt) redb \<Rightarrow> ('db, db_err, unit) step" where
  "db_initialize E =
     db_write E id
       (st_bind (st_for (\<lambda>table. on_inner (write_txn_materialize E table)) ALL_TABLES)
          (\<lambda>_. check_and_stamp (write_txn_store E)))"

definition db_open :: "('db, 'rt, 'tbl, 'wt) redb \<Rightarrow> 'db \<Rightarrow> db_err + 'db" where
  "db_open E file =
     res_bind (engine_open E file) (\<lambda>db.
       (case db_initialize E db of (Inl e, _) \<Rightarrow> Inl e | (Inr _, db') \<Rightarrow> Inr db'))"

end
