(* ===== verification/Sync.thy ===== *)
theory Sync
  imports Merkle_Walk Engine
begin

text \<open>
  The \<^verbatim>\<open>sync\<close> crate's pump (\<^verbatim>\<open>manager.rs\<close>, \<^verbatim>\<open>source.rs\<close>, \<^verbatim>\<open>event.rs\<close>, \<^verbatim>\<open>error.rs\<close>): pages are
  pulled from an event source, and each block window is committed in one write transaction together with the
  advanced frontier snapshots and the watermark. An asynchronous source is a record of steps on the
  source's state; the two loops that a source could keep going for ever carry fuel, and running out of it
  is \<open>None\<close>.
\<close>

section \<open>Events, pages, errors\<close>

datatype sync_error =
    Http string
  | GraphQl string
  | Request nat string
  | SyncDatabase database_error
  | SyncMerkle merkle_error
  | SyncPanic

fun from_db :: "db_err \<Rightarrow> sync_error" where
  "from_db (Err e) = SyncDatabase e"
| "from_db Panic = SyncPanic"

datatype sync_event = Commitment node | Nullified nullified

datatype event_stream = Commitments | Nullifiers

record page =
  pg_events :: "sync_event list"
  pg_cursor :: "string option"

record 'src event_source =
  es_latest_block :: "('src, sync_error, block_number) step"
  es_fetch_page :: "event_stream \<Rightarrow> block_number \<Rightarrow> block_number \<Rightarrow> string option \<Rightarrow> ('src, sync_error, page) step"

section \<open>Advancing the frontiers\<close>

text \<open>The window's leaf hashes by tree, ordered by position.\<close>

type_synonym window_leaves = "(u32, (u32, u256) btree) btree"

definition group_leaf :: "node \<Rightarrow> window_leaves \<Rightarrow> window_leaves" where
  "group_leaf n by_tree =
     (let t = tree_number (nd_position n)
      in bt_insert t
           (bt_insert (leaf_index (nd_position n)) (nd_hash n)
              (case map_of by_tree t of Some leaves \<Rightarrow> leaves | None \<Rightarrow> [])) by_tree)"

definition group_leaves :: "node list \<Rightarrow> window_leaves" where
  "group_leaves commitments = fold group_leaf commitments []"

lemma next_index_insert [simp]:
  "ac_next_index (accumulator_insert C leaf a) = ac_next_index a + 1"
  by (simp add: accumulator_insert_def split: prod.split)

text \<open>\<^verbatim>\<open>while accumulator.len() < position { accumulator.insert(zero) }\<close>\<close>

function fill_to :: "merkle_config \<Rightarrow> u64 \<Rightarrow> accumulator \<Rightarrow> accumulator" where
  "fill_to C target a =
     (if accumulator_len a < target then fill_to C target (accumulator_insert C (mc_zero C) a) else a)"
  by pat_completeness auto
termination
proof (relation "measure (\<lambda>(C, target, a). unat target - unat (ac_next_index a))")
  fix C target a
  assume "accumulator_len a < target"
  then have "unat (ac_next_index a) < unat target" by (simp add: word_less_nat_alt accumulator_len_def)
  moreover from this have "unat (ac_next_index a + 1) = unat (ac_next_index a) + 1"
    using unsigned_less [of target, where 'a = nat] by (simp add: unat_word_ariths)
  ultimately show "((C, target, accumulator_insert C (mc_zero C) a), C, target, a)
      \<in> measure (\<lambda>(C, target, a). unat target - unat (ac_next_index a))" by simp
qed simp

declare fill_to.simps [simp del]

definition push_leaf :: "merkle_config \<Rightarrow> u32 \<times> u256 \<Rightarrow> accumulator \<Rightarrow> accumulator" where
  "push_leaf C = (\<lambda>(position, hash) a. accumulator_insert C hash (fill_to C (ucast position) a))"

definition load_accumulator ::
  "('s, 'z) reader_scheme \<Rightarrow> merkle_config \<Rightarrow> merkle_accumulator_state json \<Rightarrow> 's \<Rightarrow> u32 \<Rightarrow> sync_error + accumulator" where
  "load_accumulator R C J s tree =
     res_bind (map_err from_db (frontier_snapshot R s tree)) (\<lambda>found.
       (case found of
          Some bs \<Rightarrow>
            res_bind (map_err (from_db \<circ> serde_err) (js_from_slice J bs)) (\<lambda>st.
              map_err (SyncMerkle \<circ> Frontier) (from_state C st))
        | None \<Rightarrow> Inr (accumulator_new C)))"

definition advance_accumulator ::
  "('s, 'z) reader_scheme \<Rightarrow> merkle_config \<Rightarrow> 's \<Rightarrow> u32 \<Rightarrow> (u32, u256) btree \<Rightarrow> accumulator \<Rightarrow> sync_error + accumulator" where
  "advance_accumulator R C s tree leaves a =
     (let backfill = (case leaves of [] \<Rightarrow> False | (first, _) # _ \<Rightarrow> (ucast first :: u64) < accumulator_len a)
      in if backfill
         then res_bind (map_err SyncMerkle (tree_frontier R C s tree)) (\<lambda>(rebuilt, _, _). Inr rebuilt)
         else Inr (fold (push_leaf C) leaves a))"

definition advance_tree ::
  "('s, 'z) store_scheme \<Rightarrow> merkle_config \<Rightarrow> merkle_accumulator_state json \<Rightarrow> u32 \<times> (u32, u256) btree
     \<Rightarrow> ('s, sync_error, unit) step" where
  "advance_tree R C J = (\<lambda>(tree, leaves) s.
     (case res_bind (load_accumulator R C J s tree) (\<lambda>a.
           res_bind (advance_accumulator R C s tree leaves a) (\<lambda>a'.
             map_err (from_db \<circ> serde_err) (js_to_vec J (accumulator_state a')))) of
        Inl e \<Rightarrow> (Inl e, s)
      | Inr bs \<Rightarrow> st_map_err from_db (set_snapshot R tree bs) s))"

definition advance_frontiers ::
  "('s, 'z) store_scheme \<Rightarrow> merkle_config \<Rightarrow> merkle_accumulator_state json \<Rightarrow> node list \<Rightarrow> ('s, sync_error, unit) step" where
  "advance_frontiers R C J commitments = st_for (advance_tree R C J) (group_leaves commitments)"

section \<open>Committing a window\<close>

text \<open>The closure of \<open>commit_window\<close>, generic over the transaction it runs in.\<close>

definition window_body ::
  "('s, 'z) store_scheme \<Rightarrow> merkle_config \<Rightarrow> merkle_accumulator_state json \<Rightarrow> node list \<Rightarrow> nullified list
     \<Rightarrow> block_number \<Rightarrow> ('s, sync_error, unit) step" where
  "window_body R C J commitments nullifiers through =
     st_bind (st_for (\<lambda>n. st_map_err from_db (insert_node R n)) commitments) (\<lambda>_.
     st_bind (st_for (\<lambda>n. st_map_err from_db (insert_nullifier R n)) nullifiers) (\<lambda>_.
     st_bind (advance_frontiers R C J commitments) (\<lambda>_.
       st_map_err from_db (set_synced_block R through))))"

definition commit_window ::
  "('db, 'rt, 'tbl, 'wt) redb \<Rightarrow> merkle_config \<Rightarrow> merkle_accumulator_state json \<Rightarrow> node list \<Rightarrow> nullified list
     \<Rightarrow> block_number \<Rightarrow> ('db, sync_error, unit) step" where
  "commit_window E C J commitments nullifiers through =
     db_write E from_db (window_body (write_txn_store E) C J commitments nullifiers through)"

section \<open>The pump\<close>

record 'src syncer =
  sy_source :: "'src event_source"
  sy_floor :: block_number
  sy_block_window :: u64

record sync_summary =
  ss_commitments :: u64
  ss_nullifiers :: u64
  ss_synced_to :: block_number

definition DEFAULT_BLOCK_WINDOW :: u64 where
  "DEFAULT_BLOCK_WINDOW = 100000"

definition syncer_new :: "'src event_source \<Rightarrow> block_number \<Rightarrow> 'src syncer" where
  "syncer_new source floor =
     \<lparr>sy_source = source, sy_floor = floor, sy_block_window = DEFAULT_BLOCK_WINDOW\<rparr>"

text \<open>\<open>None\<close> is the panic of \<^verbatim>\<open>assert!\<close>.\<close>

definition set_block_window :: "u64 \<Rightarrow> 'src syncer \<Rightarrow> 'src syncer option" where
  "set_block_window block_window syncer =
     (if block_window > 0 then Some (syncer\<lparr>sy_block_window := block_window\<rparr>) else None)"

type_synonym gathered = "node list \<times> nullified list"

fun gather :: "sync_event \<Rightarrow> gathered \<Rightarrow> gathered" where
  "gather (Commitment n) (cs, ns) = (cs @ [n], ns)"
| "gather (Nullified n) (cs, ns) = (cs, ns @ [n])"

lemma gather_commitments: "fold gather (map Commitment ns) (cs, xs) = (cs @ ns, xs)"
  by (induction ns arbitrary: cs) simp_all

primrec fetch_stream ::
  "nat \<Rightarrow> 'src event_source \<Rightarrow> event_stream \<Rightarrow> block_number \<Rightarrow> block_number \<Rightarrow> string option \<Rightarrow> gathered
     \<Rightarrow> 'src \<Rightarrow> ((sync_error + gathered) \<times> 'src) option" where
  "fetch_stream 0 S stream from' end' cursor g src = None"
| "fetch_stream (Suc fuel) S stream from' end' cursor g src =
     (case es_fetch_page S stream from' end' cursor src of
        (Inl e, src) \<Rightarrow> Some (Inl e, src)
      | (Inr page, src) \<Rightarrow>
          (let g = fold gather (pg_events page) g
           in case pg_cursor page of
                Some next_page \<Rightarrow> fetch_stream fuel S stream from' end' (Some next_page) g src
              | None \<Rightarrow> Some (Inr g, src)))"

definition fetch_window ::
  "nat \<Rightarrow> 'src event_source \<Rightarrow> block_number \<Rightarrow> block_number \<Rightarrow> 'src \<Rightarrow> ((sync_error + gathered) \<times> 'src) option" where
  "fetch_window fuel S from' end' src =
     (case fetch_stream fuel S Commitments from' end' None ([], []) src of
        Some (Inr g, src) \<Rightarrow> fetch_stream fuel S Nullifiers from' end' None g src
      | r \<Rightarrow> r)"

definition window_end :: "'src syncer \<Rightarrow> block_number \<Rightarrow> block_number \<Rightarrow> block_number" where
  "window_end syncer from' target = min (block_saturating_add from' (sy_block_window syncer - 1)) target"

text \<open>\<^verbatim>\<open>while from <= target { ... }\<close>: the first fuel counts windows, the second the pages of one stream.\<close>

primrec sync_loop ::
  "nat \<Rightarrow> nat \<Rightarrow> ('db, 'rt, 'tbl, 'wt) redb \<Rightarrow> merkle_config \<Rightarrow> merkle_accumulator_state json \<Rightarrow> 'src syncer
     \<Rightarrow> block_number \<Rightarrow> block_number \<Rightarrow> sync_summary \<Rightarrow> 'src \<times> 'db
     \<Rightarrow> ((sync_error + sync_summary) \<times> 'src \<times> 'db) option" where
  "sync_loop 0 pages E C J syncer target from' summary w =
     (if from' \<le> target then None else Some (Inr summary, w))"
| "sync_loop (Suc windows) pages E C J syncer target from' summary w =
     (if from' \<le> target
      then (let end' = window_end syncer from' target
            in case fetch_window pages (sy_source syncer) from' end' (fst w) of
                 None \<Rightarrow> None
               | Some (Inl e, src) \<Rightarrow> Some (Inl e, src, snd w)
               | Some (Inr (commitments, nullifiers), src) \<Rightarrow>
                   (case commit_window E C J commitments nullifiers end' (snd w) of
                      (Inl e, db) \<Rightarrow> Some (Inl e, src, db)
                    | (Inr _, db) \<Rightarrow>
                        sync_loop windows pages E C J syncer target (block_saturating_add end' 1)
                          \<lparr>ss_commitments = ss_commitments summary + of_nat (length commitments),
                           ss_nullifiers = ss_nullifiers summary + of_nat (length nullifiers),
                           ss_synced_to = end'\<rparr> (src, db)))
      else Some (Inr summary, w))"

definition sync_run ::
  "nat \<Rightarrow> nat \<Rightarrow> ('db, 'rt, 'tbl, 'wt) redb \<Rightarrow> merkle_config \<Rightarrow> merkle_accumulator_state json \<Rightarrow> 'src syncer
     \<Rightarrow> block_number \<Rightarrow> 'src \<times> 'db \<Rightarrow> ((sync_error + sync_summary) \<times> 'src \<times> 'db) option" where
  "sync_run windows pages E C J syncer target w =
     (case res_bind (db_read E (snd w)) (\<lambda>view. synced_block (read_view E) view) of
        Inl e \<Rightarrow> Some (Inl (from_db e), w)
      | Inr watermark \<Rightarrow>
          sync_loop windows pages E C J syncer target
            (case watermark of None \<Rightarrow> sy_floor syncer | Some block \<Rightarrow> block_saturating_add block 1)
            \<lparr>ss_commitments = 0, ss_nullifiers = 0,
             ss_synced_to = (case watermark of None \<Rightarrow> 0 | Some block \<Rightarrow> block)\<rparr> w)"

definition run_to_head ::
  "nat \<Rightarrow> nat \<Rightarrow> ('db, 'rt, 'tbl, 'wt) redb \<Rightarrow> merkle_config \<Rightarrow> merkle_accumulator_state json \<Rightarrow> 'src syncer
     \<Rightarrow> 'src \<times> 'db \<Rightarrow> ((sync_error + sync_summary) \<times> 'src \<times> 'db) option" where
  "run_to_head windows pages E C J syncer w =
     (case es_latest_block (sy_source syncer) (fst w) of
        (Inl e, src) \<Rightarrow> Some (Inl e, src, snd w)
      | (Inr target, src) \<Rightarrow> sync_run windows pages E C J syncer target (src, snd w))"

definition run_to_head_if_unsynced ::
  "nat \<Rightarrow> nat \<Rightarrow> ('db, 'rt, 'tbl, 'wt) redb \<Rightarrow> merkle_config \<Rightarrow> merkle_accumulator_state json \<Rightarrow> 'src syncer
     \<Rightarrow> 'src \<times> 'db \<Rightarrow> ((sync_error + sync_summary) \<times> 'src \<times> 'db) option" where
  "run_to_head_if_unsynced windows pages E C J syncer w =
     (case db_read E (snd w) of
        Inl e \<Rightarrow> Some (Inl (from_db e), w)
      | Inr view \<Rightarrow>
          (case is_synced (read_view E) view of
             Inl e \<Rightarrow> Some (Inl (from_db e), w)
           | Inr True \<Rightarrow>
               (case synced_block (read_view E) view of
                  Inl e \<Rightarrow> Some (Inl (from_db e), w)
                | Inr block \<Rightarrow>
                    Some (Inr \<lparr>ss_commitments = 0, ss_nullifiers = 0,
                               ss_synced_to = (case block of None \<Rightarrow> 0 | Some b \<Rightarrow> b)\<rparr>, w))
           | Inr False \<Rightarrow> run_to_head windows pages E C J syncer w))"

end
