(* ===== verification/Sync_Window.thy ===== *)
theory Sync_Window
  imports Sync
begin

text \<open>
  One block window against the invariants: storing its nodes and nullifiers keeps \<open>forest_ok\<close>, and
  advancing the frontiers re-establishes that every snapshot is the accumulator of its tree's leaves,
  whether the window appends, leaves gaps, repeats nodes or backfills below the frontier.
\<close>

section \<open>Storing the nodes and nullifiers\<close>

definition acceptable :: "node \<Rightarrow> bool" where
  "acceptable n \<longleftrightarrow> storable n \<and> unat (tree_number (nd_position n)) + 1 < 2 ^ 32"

definition window_stored :: "node list \<Rightarrow> tables \<Rightarrow> tables \<Rightarrow> bool" where
  "window_stored ns m m' \<longleftrightarrow> forest_ok m'
     \<and> (\<forall>t p n. leaf_at m' t p = Some n \<longleftrightarrow> leaf_at m t p = Some n \<or> n \<in> set ns \<and> node_at t p n)
     \<and> (\<forall>T. T \<noteq> COMMITMENTS \<longrightarrow> m' T = m T)"

lemma st_map_err_eq [simp]:
  "m s = (Inr x, s') \<Longrightarrow> st_map_err f m s = (Inr x, s')"
  "m s = (Inl e, s') \<Longrightarrow> st_map_err f m s = (Inl (f e), s')"
  by (simp_all add: st_map_err_def)

lemma window_stored_Nil: "forest_ok m \<Longrightarrow> window_stored [] m m"
  by (simp add: window_stored_def)

lemma window_stored_Cons:
  assumes "stored n m m1" and "leaf_at m (tree_number (nd_position n)) (leaf_index (nd_position n)) = None"
    and "window_stored ns m1 m'"
  shows "window_stored (n # ns) m m'"
proof -
  have step: "leaf_at m1 t p = Some n' \<longleftrightarrow> leaf_at m t p = Some n' \<or> n' = n \<and> node_at t p n" for t p n'
    using assms(1,2) by (auto simp: stored_def node_at_def)
  show ?thesis
    using assms(1,3) unfolding window_stored_def step by (auto simp: stored_def)
qed

lemma window_stored_same:
  assumes "leaf_at m t p = Some n" and "node_at t p n" and "window_stored ns m m'"
  shows "window_stored (n # ns) m m'"
  using assms by (auto simp: window_stored_def node_at_def)

text \<open>Two different nodes for one leaf, one of them in the window.\<close>

definition conflicts :: "node list \<Rightarrow> tables \<Rightarrow> u32 \<Rightarrow> u32 \<Rightarrow> bool" where
  "conflicts ns m t p \<longleftrightarrow> (\<exists>n \<in> set ns. \<exists>n'. node_at t p n \<and> n' \<noteq> n
     \<and> (leaf_at m t p = Some n' \<or> n' \<in> set ns \<and> node_at t p n'))"

lemma conflicts_Cons_stored:
  assumes "stored n m m1" and "conflicts ns m1 t p"
  shows "conflicts (n # ns) m t p"
proof -
  obtain a b where ab: "a \<in> set ns" "node_at t p a" "b \<noteq> a" "leaf_at m1 t p = Some b \<or> b \<in> set ns \<and> node_at t p b"
    using assms(2) by (auto simp: conflicts_def)
  have "leaf_at m t p = Some b \<or> b = n \<and> node_at t p n" if "leaf_at m1 t p = Some b"
    using that assms(1) by (auto simp: stored_def split: if_splits)
  with ab show ?thesis unfolding conflicts_def by (intro bexI [of _ a] exI [of _ b]) auto
qed

lemma conflicts_Cons: "conflicts ns m t p \<Longrightarrow> conflicts (n # ns) m t p"
  by (auto simp: conflicts_def)

context store_contract
begin

lemma insert_nodes_law:
  assumes "ready s" and "forest_ok (contents s)" and "\<forall>n \<in> set ns. acceptable n"
    and "st_for (\<lambda>n. st_map_err from_db (insert_node R n)) ns s = (r, s')"
  shows "case r of
      Inr _ \<Rightarrow> ready s' \<and> window_stored ns (contents s) (contents s')
        \<and> nullified_in (contents s') = nullified_in (contents s)
    | Inl e \<Rightarrow> \<exists>t p. e = SyncDatabase (CommitmentConflict t p) \<and> conflicts ns (contents s) t p"
  using assms
proof (induction ns arbitrary: s)
  case Nil
  then show ?case by (auto simp: window_stored_Nil)
next
  case (Cons n ns)
  let ?t = "tree_number (nd_position n)" and ?p = "leaf_index (nd_position n)"
  have n: "storable n" "node_at ?t ?p n" "unat ?t + 1 < 2 ^ 32"
    using Cons.prems(3) by (simp_all add: acceptable_def node_at_def)
  show ?case
  proof (cases "leaf_at (contents s) ?t ?p")
    case None
    obtain s1 where s1: "insert_node R n s = (Inr (), s1)" "ready s1" "stored n (contents s) (contents s1)"
      using insert_node_new [OF Cons.prems(1,2) n None] by blast
    have "forest_ok (contents s1)" "nullified_in (contents s1) = nullified_in (contents s)"
      using s1(3) by (simp_all add: stored_def)
    from Cons.IH [OF s1(2) this(1)] this(2) Cons.prems(3,4) s1(1) show ?thesis
      using window_stored_Cons [OF s1(3) None] conflicts_Cons_stored [OF s1(3)]
      by (auto simp: st_bind_def split: sum.splits)
  next
    case (Some n')
    show ?thesis
    proof (cases "n' = n")
      case True
      have "insert_node R n s = (Inr (), s)"
        using insert_node_existing [OF Cons.prems(1,2) n(1,2) Some] True by simp
      with Cons.IH [OF Cons.prems(1,2)] Cons.prems(3,4) show ?thesis
        using window_stored_same [OF _ n(2)] Some True conflicts_Cons by (auto simp: st_bind_def split: sum.splits)
    next
      case False
      then have "insert_node R n s = (Inl (Err (CommitmentConflict ?t ?p)), s)"
        using insert_node_existing [OF Cons.prems(1,2) n(1,2) Some] by simp
      moreover have "conflicts (n # ns) (contents s) ?t ?p"
        using Some False n(2) unfolding conflicts_def by (intro bexI [of _ n] exI [of _ n']) auto
      ultimately show ?thesis using Cons.prems(4) by (auto simp: st_bind_def)
    qed
  qed
qed

lemma insert_nullifiers_law:
  assumes "ready s" and "forest_ok (contents s)"
  shows "\<exists>s'. st_for (\<lambda>n. st_map_err from_db (insert_nullifier R n)) ns s = (Inr (), s')
    \<and> ready s' \<and> forest_ok (contents s') \<and> leaf_at (contents s') = leaf_at (contents s)
    \<and> (\<forall>T. T \<noteq> COMMITMENTS \<longrightarrow> contents s' T = contents s T)
    \<and> (\<forall>t h. nullified_in (contents s') t h \<longleftrightarrow> nullified_in (contents s) t h
          \<or> (\<exists>n \<in> set ns. nf_tree_number n = t \<and> nf_nullifier n = h))"
  using assms
proof (induction ns arbitrary: s)
  case Nil
  then show ?case by simp
next
  case (Cons n ns)
  obtain s1 where s1: "insert_nullifier R n s = (Inr (), s1)" "ready s1" "forest_ok (contents s1)"
    "contents s1 = set_entry (contents s) COMMITMENTS (nullifier_key (nf_tree_number n) (nf_nullifier n)) (Some [])"
    using insert_nullifier_law [OF Cons.prems] by blast
  have same: "leaf_at (contents s1) = leaf_at (contents s)"
    "\<forall>T. T \<noteq> COMMITMENTS \<longrightarrow> contents s1 T = contents s T"
    "\<And>t h. nullified_in (contents s1) t h \<longleftrightarrow> nullified_in (contents s) t h
       \<or> nf_tree_number n = t \<and> nf_nullifier n = h"
    by (auto simp: s1(4) fun_eq_iff leaf_at_other nullified_in_def)
  obtain s2 where s2: "st_for (\<lambda>n. st_map_err from_db (insert_nullifier R n)) ns s1 = (Inr (), s2)" "ready s2"
    "forest_ok (contents s2)" "leaf_at (contents s2) = leaf_at (contents s1)"
    "\<forall>T. T \<noteq> COMMITMENTS \<longrightarrow> contents s2 T = contents s1 T"
    "\<And>t h. nullified_in (contents s2) t h \<longleftrightarrow> nullified_in (contents s1) t h
          \<or> (\<exists>n \<in> set ns. nf_tree_number n = t \<and> nf_nullifier n = h)"
    using Cons.IH [OF s1(2,3)] by blast
  have "st_for (\<lambda>n. st_map_err from_db (insert_nullifier R n)) (n # ns) s = (Inr (), s2)"
    using s1(1) s2(1) by (simp add: st_bind_def)
  then show ?case using s2(2-5) same s2(6) by (intro exI [of _ s2]) auto
qed

end

section \<open>Grouping the window's leaves\<close>

definition leaf_in :: "window_leaves \<Rightarrow> u32 \<Rightarrow> u32 \<Rightarrow> u256 option" where
  "leaf_in g t p = (case map_of g t of None \<Rightarrow> None | Some leaves \<Rightarrow> map_of leaves p)"

definition groups_ok :: "window_leaves \<Rightarrow> bool" where
  "groups_ok g \<longleftrightarrow> bt_ok g \<and> (\<forall>t leaves. map_of g t = Some leaves \<longrightarrow> bt_ok leaves \<and> leaves \<noteq> [])"

lemma bt_insert_not_Nil [simp]: "bt_insert k v m \<noteq> []"
  by (cases "(k, v, m)" rule: bt_insert.cases) auto

lemma groups_ok_group_leaf: "groups_ok g \<Longrightarrow> groups_ok (group_leaf n g)"
proof -
  let ?t = "tree_number (nd_position n)"
  define inner where "inner = (case map_of g ?t of Some leaves \<Rightarrow> leaves | None \<Rightarrow> [])"
  assume g: "groups_ok g"
  then have "bt_ok inner" by (cases "map_of g ?t") (simp_all add: inner_def groups_ok_def)
  then show ?thesis
    unfolding group_leaf_def Let_def inner_def [symmetric] groups_ok_def
    using g by (simp add: groups_ok_def map_of_bt_insert bt_ok_insert)
qed

lemma leaf_in_group_leaf:
  "leaf_in (group_leaf n g) t p = (if node_at t p n then Some (nd_hash n) else leaf_in g t p)"
  by (auto simp: leaf_in_def group_leaf_def Let_def map_of_bt_insert node_at_def split: option.split)

lemma groups_ok_group_leaves: "groups_ok (group_leaves ns)"
proof -
  have "groups_ok g \<Longrightarrow> groups_ok (fold group_leaf ns g)" for g
    by (induction ns arbitrary: g) (simp_all add: groups_ok_group_leaf)
  moreover have "groups_ok []" by (simp add: groups_ok_def)
  ultimately show ?thesis unfolding group_leaves_def by blast
qed

lemma leaf_in_group_leaves:
  "leaf_in (group_leaves ns) t p =
     (case filter (node_at t p) (rev ns) of [] \<Rightarrow> None | n # _ \<Rightarrow> Some (nd_hash n))"
  by (induction ns rule: rev_induct) (simp_all add: group_leaves_def leaf_in_group_leaf, simp add: leaf_in_def)

lemma leaf_in_group_leaves_Some:
  assumes "leaf_in (group_leaves ns) t p = Some h"
  shows "\<exists>n \<in> set ns. node_at t p n \<and> nd_hash n = h"
proof -
  from assms obtain n rest where "filter (node_at t p) (rev ns) = n # rest" "nd_hash n = h"
    by (auto simp: leaf_in_group_leaves split: list.splits)
  then show ?thesis by (metis filter_eq_ConsD in_set_conv_decomp set_rev)
qed

lemma leaf_in_group_leaves_None:
  "leaf_in (group_leaves ns) t p = None \<longleftrightarrow> (\<forall>n \<in> set ns. \<not> node_at t p n)"
proof -
  have "leaf_in (group_leaves ns) t p = None \<longleftrightarrow> filter (node_at t p) (rev ns) = []"
    by (simp add: leaf_in_group_leaves split: list.split)
  then show ?thesis by (simp add: filter_empty_conv)
qed

section \<open>Extending an accumulator\<close>

text \<open>\<open>v\<close> is the value of each position; below \<open>k\<close> they have been folded.\<close>

lemma fill_to_accumulates:
  assumes "accumulates C (map v [0..<k]) a" and "k \<le> unat target" and "unat target \<le> 65536"
    and "mc_depth C = 16" and "\<forall>q. k \<le> q \<and> q < unat target \<longrightarrow> v q = mc_zero C"
  shows "accumulates C (map v [0..<unat target]) (fill_to C target a)"
  using assms
proof (induction C target a arbitrary: k rule: fill_to.induct)
  case (1 C target a)
  have len: "unat (accumulator_len a) = k" using accumulates_len [OF "1.prems"(1)] by simp
  show ?case
  proof (cases "accumulator_len a < target")
    case True
    then have lt: "k < unat target" using len by (simp add: word_less_nat_alt)
    have "accumulates C (map v [0..<k] @ [mc_zero C]) (accumulator_insert C (mc_zero C) a)"
      by (rule accumulates_insert [OF "1.prems"(1)]) (use "1.prems"(3,4) lt in simp_all)
    moreover have "v k = mc_zero C" using "1.prems"(5) lt by simp
    ultimately have "accumulates C (map v [0..<Suc k]) (accumulator_insert C (mc_zero C) a)" by simp
    from "1.IH" [OF True this] "1.prems"(3-5) lt show ?thesis
      by (subst fill_to.simps) (simp add: True)
  next
    case False
    then have "unat target = k" using len "1.prems"(2) by (simp add: word_less_nat_alt)
    with False "1.prems"(1) show ?thesis by (subst fill_to.simps) simp
  qed
qed

lemma unat_ucast_u64 [simp]: "unat (ucast (p :: u32) :: u64) = unat p"
  using unsigned_less [of p, where 'a = nat] by (intro unat_ucast_small) simp

lemma push_leaf_accumulates:
  assumes "accumulates C (map v [0..<k]) a" and "k \<le> unat p" and "unat p < 65536"
    and "mc_depth C = 16" and "\<forall>q. k \<le> q \<and> q < unat p \<longrightarrow> v q = mc_zero C" and "v (unat p) = h"
  shows "accumulates C (map v [0..<Suc (unat p)]) (push_leaf C (p, h) a)"
proof -
  have "accumulates C (map v [0..<unat p]) (fill_to C (ucast p) a)"
    using fill_to_accumulates [OF assms(1), of "ucast p"] assms(2-5) by simp
  then have "accumulates C (map v [0..<unat p] @ [h]) (push_leaf C (p, h) a)"
    unfolding push_leaf_def using assms(3,4) by (simp add: accumulates_insert)
  then show ?thesis using assms(6) by simp
qed

lemma push_leaves_accumulates:
  assumes "accumulates C (map v [0..<k]) a" and "mc_depth C = 16" and "bt_ok leaves"
    and "\<forall>(p, h) \<in> set leaves. k \<le> unat p \<and> unat p < len \<and> v (unat p) = h" and "len \<le> 65536" and "k \<le> len"
    and "\<forall>q. k \<le> q \<and> q < 65536 \<and> map_of leaves (of_nat q) = None \<longrightarrow> v q = mc_zero C"
  shows "\<exists>K. accumulates C (map v [0..<K]) (fold (push_leaf C) leaves a) \<and> k \<le> K \<and> K \<le> len
    \<and> (\<forall>(p, h) \<in> set leaves. unat p < K)"
  using assms
proof (induction leaves arbitrary: k a)
  case Nil
  then show ?case by auto
next
  case (Cons entry leaves)
  obtain p h where entry: "entry = (p, h)" by fastforce
  have p: "k \<le> unat p" "unat p < len" "unat p < 65536" "v (unat p) = h" "Suc (unat p) \<le> len"
    using Cons.prems(4,5) entry by auto
  have above: "\<forall>p' \<in> fst ` set leaves. p < p'" "bt_ok leaves" using Cons.prems(3) entry by auto
  have gap: "v q = mc_zero C" if "k \<le> q" "q < unat p" for q
  proof -
    have "(of_nat q :: u32) < p" using that(2) p(3) by (simp add: word_less_nat_alt unat_of_nat_small)
    then have "map_of (entry # leaves) (of_nat q) = None"
      using above(1) entry by (intro map_of_above_None) (auto intro: order.strict_trans)
    with Cons.prems(7) that p(3) show ?thesis by auto
  qed
  have 1: "accumulates C (map v [0..<Suc (unat p)]) (push_leaf C entry a)"
    unfolding entry by (rule push_leaf_accumulates [OF Cons.prems(1) p(1,3) Cons.prems(2)]) (use gap p(4) in auto)
  have 2: "\<forall>(p', h) \<in> set leaves. Suc (unat p) \<le> unat p' \<and> unat p' < len \<and> v (unat p') = h"
    using Cons.prems(4) above(1) by (force simp: word_less_nat_alt)
  have 3: "\<forall>q. Suc (unat p) \<le> q \<and> q < 65536 \<and> map_of leaves (of_nat q) = None \<longrightarrow> v q = mc_zero C"
  proof (intro allI impI)
    fix q :: nat
    assume q: "Suc (unat p) \<le> q \<and> q < 65536 \<and> map_of leaves (of_nat q) = None"
    then have "(of_nat q :: u32) \<noteq> p" using unat_of_nat_small [of q, where 'a = 32] by auto
    then have "map_of (entry # leaves) (of_nat q) = None" using q by (simp add: entry)
    then show "v q = mc_zero C" using Cons.prems(7) q p(1) by simp
  qed
  obtain K where "accumulates C (map v [0..<K]) (fold (push_leaf C) leaves (push_leaf C entry a))"
    "Suc (unat p) \<le> K" "K \<le> len" "\<forall>(p, h) \<in> set leaves. unat p < K"
    using Cons.IH [OF 1 Cons.prems(2) above(2) 2 Cons.prems(5) p(5) 3] by blast
  then show ?case using p(1) by (intro exI [of _ K]) (auto simp: entry)
qed

section \<open>Advancing one tree\<close>

text \<open>
  \<open>m0\<close> are the tables before the window, \<open>m\<close> after its nodes are staged: the leaves of \<open>m\<close> are those
  of \<open>m0\<close> and those of the group.
\<close>

definition group_of :: "tables \<Rightarrow> tables \<Rightarrow> u32 \<Rightarrow> (u32, u256) btree \<Rightarrow> bool" where
  "group_of m0 m t leaves \<longleftrightarrow> bt_ok leaves
     \<and> (\<forall>p n. leaf_at m0 t p = Some n \<longrightarrow> leaf_at m t p = Some n)
     \<and> (\<forall>p h. map_of leaves p = Some h \<longrightarrow> (\<exists>n. leaf_at m t p = Some n \<and> nd_hash n = h))
     \<and> (\<forall>p. map_of leaves p = None \<longrightarrow> leaf_at m t p = leaf_at m0 t p)"

lemma append_only_leaves:
  assumes ok: "forest_ok m0" "forest_ok m" and g: "group_of m0 m t leaves"
    and first: "\<forall>p \<in> fst ` set leaves. tree_span m0 t \<le> unat p"
    and a: "accumulates C (leaves_of C m0 t) a" and d: "mc_depth C = 16"
  shows "accumulates C (leaves_of C m t) (fold (push_leaf C) leaves a)"
proof -
  let ?k = "tree_span m0 t" and ?v = "leaf_value C m t"
  have asc: "bt_ok leaves" and sub: "\<And>p n. leaf_at m0 t p = Some n \<Longrightarrow> leaf_at m t p = Some n"
    and val: "\<And>p h. map_of leaves p = Some h \<Longrightarrow> \<exists>n. leaf_at m t p = Some n \<and> nd_hash n = h"
    and rest: "\<And>p. map_of leaves p = None \<Longrightarrow> leaf_at m t p = leaf_at m0 t p"
    using g unfolding group_of_def by blast+
  have span: "?k \<le> tree_span m t"
    unfolding tree_span_le
    using has_leaf_in_span sub has_leaf_iff [OF ok(1)] has_leaf_iff [OF ok(2)] by fastforce
  have cap: "tree_span m t \<le> 65536" by (rule tree_span_capacity [OF ok(2)])
  have small: "unat (of_nat q :: u32) = q" if "q < 65536" for q
    using that by (simp add: unat_of_nat_small)
  have none: "leaf_at m0 t (of_nat q) = None" if "?k \<le> q" "q < 65536" for q
    using that has_leaf_in_span [of m0 t "of_nat q"] small [of q] has_leaf_iff [OF ok(1), of t "of_nat q"] by auto
  have "leaf_value C m0 t q = ?v q" if "q < ?k" for q
  proof -
    have "map_of leaves (of_nat q) = None"
      using first that small [of q] cap span by (force simp: map_of_eq_None_iff)
    then show ?thesis using rest by (simp add: leaf_value_def)
  qed
  then have "map (leaf_value C m0 t) [0..<?k] = map ?v [0..<?k]" by simp
  then have old: "accumulates C (map ?v [0..<?k]) a" using a by (simp only: leaves_of_def)
  have new: "\<forall>(p, h) \<in> set leaves. ?k \<le> unat p \<and> unat p < tree_span m t \<and> ?v (unat p) = h"
  proof clarify
    fix p h assume mem: "(p, h) \<in> set leaves"
    obtain n where n: "leaf_at m t p = Some n" "nd_hash n = h"
      using val [OF bt_ok_map_of [OF asc mem]] by blast
    then have "has_leaf m t p" using has_leaf_iff [OF ok(2)] by simp
    then show "?k \<le> unat p \<and> unat p < tree_span m t \<and> ?v (unat p) = h"
      using first mem n has_leaf_in_span by (force simp: leaf_value_def)
  qed
  have zero: "\<forall>q. ?k \<le> q \<and> q < 65536 \<and> map_of leaves (of_nat q) = None \<longrightarrow> ?v q = mc_zero C"
    using rest none by (simp add: leaf_value_def)
  obtain K where K: "accumulates C (map ?v [0..<K]) (fold (push_leaf C) leaves a)" "?k \<le> K"
    "K \<le> tree_span m t" "\<forall>(p, h) \<in> set leaves. unat p < K"
    using push_leaves_accumulates [OF old d asc new cap span zero] by blast
  have "tree_span m t \<le> K"
    unfolding tree_span_le
  proof (intro allI impI)
    fix p assume "has_leaf m t p"
    then obtain n where n: "leaf_at m t p = Some n" using has_leaf_iff [OF ok(2)] by auto
    show "unat p < K"
    proof (cases "map_of leaves p")
      case None
      then have "has_leaf m0 t p" using rest n has_leaf_iff [OF ok(1)] by simp
      then show ?thesis using has_leaf_in_span K(2) by fastforce
    next
      case (Some h)
      then have "(p, h) \<in> set leaves" by (rule map_of_SomeD)
      with K(4) show ?thesis by auto
    qed
  qed
  with K(1,3) show ?thesis by (simp add: leaves_of_def)
qed

context store_contract
begin

lemma load_accumulator_law:
  assumes "ready s" and "contents s FRONTIER (to_be_bytes t) = m0 FRONTIER (to_be_bytes t)"
    and "snapshot_current C J m0 t"
  shows "\<exists>a. load_accumulator R C J s t = Inr a \<and> accumulates C (leaves_of C m0 t) a"
proof (cases "m0 FRONTIER (to_be_bytes t)")
  case None
  with assms(3) have "leaves_of C m0 t = []" by (simp add: snapshot_current_def leaves_of_def)
  with None assms(1,2) show ?thesis
    by (simp add: load_accumulator_def frontier_snapshot_law accumulates_new)
next
  case (Some bs)
  with assms(3) obtain a where "accumulates C (leaves_of C m0 t) a"
    "js_from_slice J bs = Inr (accumulator_state a)" by (auto simp: snapshot_current_def)
  with Some assms(1,2) show ?thesis
    by (auto simp: load_accumulator_def frontier_snapshot_law from_state_state)
qed

lemma advance_tree_law:
  assumes s: "ready s" and J: "json_ok J" and d: "mc_depth C = 16"
    and ok: "forest_ok m0" "forest_ok (contents s)" and g: "group_of m0 (contents s) t leaves"
    and front: "contents s FRONTIER (to_be_bytes t) = m0 FRONTIER (to_be_bytes t)"
    and cur: "snapshot_current C J m0 t"
  shows "\<exists>s' bs a. advance_tree R C J (t, leaves) s = (Inr (), s') \<and> ready s'
    \<and> contents s' = set_entry (contents s) FRONTIER (to_be_bytes t) (Some bs)
    \<and> accumulates C (leaves_of C (contents s) t) a \<and> js_from_slice J bs = Inr (accumulator_state a)"
proof -
  obtain a0 where a0: "load_accumulator R C J s t = Inr a0" "accumulates C (leaves_of C m0 t) a0"
    using load_accumulator_law [OF s front cur] by blast
  have "\<exists>a. advance_accumulator R C s t leaves a0 = Inr a \<and> accumulates C (leaves_of C (contents s) t) a"
  proof (cases "case leaves of [] \<Rightarrow> False | (first, _) # _ \<Rightarrow> (ucast first :: u64) < accumulator_len a0")
    case True
    then show ?thesis
      using tree_frontier_law [OF s ok(2) d, of t] by (auto simp: advance_accumulator_def)
  next
    case False
    have "\<forall>p \<in> fst ` set leaves. tree_span m0 t \<le> unat p"
    proof (cases leaves)
      case (Cons entry rest)
      obtain first h where entry: "entry = (first, h)" by fastforce
      have "tree_span m0 t \<le> unat first"
        using False accumulates_len [OF a0(2)] by (simp add: Cons entry word_less_nat_alt)
      moreover have "\<forall>p \<in> fst ` set rest. first < p"
        using g by (simp add: group_of_def Cons entry)
      ultimately show ?thesis
        by (auto simp: Cons entry word_less_nat_alt intro: order.trans less_imp_le)
    qed simp
    from append_only_leaves [OF ok g this a0(2) d] False show ?thesis
      by (simp add: advance_accumulator_def)
  qed
  then obtain a where a: "advance_accumulator R C s t leaves a0 = Inr a"
    "accumulates C (leaves_of C (contents s) t) a" by blast
  obtain bs where bs: "js_to_vec J (accumulator_state a) = Inr bs" "js_from_slice J bs = Inr (accumulator_state a)"
    using J by (auto simp: json_ok_def)
  obtain s' where s': "wr_put R FRONTIER (to_be_bytes t) bs s = (Inr (), s')" "ready s'"
    "contents s' = set_entry (contents s) FRONTIER (to_be_bytes t) (Some bs)"
    using put_law [OF s] by blast
  have "advance_tree R C J (t, leaves) s = (Inr (), s')"
    using s'(1) by (simp add: advance_tree_def a0(1) a(1) bs(1) set_snapshot_def)
  with s' a(2) bs(2) show ?thesis by blast
qed

end

section \<open>Advancing every tree of the window\<close>

lemma commitments_cong:
  assumes "m COMMITMENTS = m' COMMITMENTS"
  shows "leaf_at m = leaf_at m'" and "forest_ok m = forest_ok m'" and "tree_span m t = tree_span m' t"
    and "leaves_of C m t = leaves_of C m' t" and "group_of m0 m = group_of m0 m'"
proof -
  show 1: "leaf_at m = leaf_at m'" using assms by (simp add: leaf_at_def fun_eq_iff)
  show 2: "tree_span m t = tree_span m' t" for t using assms by (simp add: tree_span_def has_leaf_def)
  have "forest_span m = forest_span m'" using assms by (simp add: forest_span_def has_leaf_def)
  then show "forest_ok m = forest_ok m'" using assms 2 by (simp add: forest_ok_def)
  show "leaves_of C m t = leaves_of C m' t" using 1 2 by (simp add: leaves_of_def leaf_value_def)
  show "group_of m0 m = group_of m0 m'" using 1 by (simp add: group_of_def fun_eq_iff)
qed

lemma same_leaves:
  assumes ok: "forest_ok m" "forest_ok m'" and "\<And>p. leaf_at m t p = leaf_at m' t p"
  shows "tree_span m t = tree_span m' t" and "leaves_of C m t = leaves_of C m' t"
proof -
  have "has_leaf m t p = has_leaf m' t p" for p
    using assms(3) has_leaf_iff [OF ok(1)] has_leaf_iff [OF ok(2)] by simp
  then show "tree_span m t = tree_span m' t" by (simp add: tree_span_def)
  then show "leaves_of C m t = leaves_of C m' t" using assms(3) by (simp add: leaves_of_def leaf_value_def)
qed

lemma window_leaf:
  "window_stored ns m0 m \<Longrightarrow> n \<in> set ns \<Longrightarrow> node_at t p n \<Longrightarrow> leaf_at m t p = Some n"
  "window_stored ns m0 m \<Longrightarrow> leaf_at m0 t p = Some n \<Longrightarrow> leaf_at m t p = Some n"
  by (simp_all add: window_stored_def)

lemma window_no_leaf:
  assumes "window_stored ns m0 m" and "\<forall>n \<in> set ns. \<not> node_at t p n"
  shows "leaf_at m t p = leaf_at m0 t p"
proof -
  have "leaf_at m t p = Some n \<longleftrightarrow> leaf_at m0 t p = Some n" for n
    using assms by (auto simp: window_stored_def)
  then show ?thesis by (metis not_Some_eq)
qed

lemma group_of_window:
  assumes "window_stored ns m0 m" and "map_of (group_leaves ns) t = Some leaves"
  shows "group_of m0 m t leaves"
proof -
  have leaves: "map_of leaves p = leaf_in (group_leaves ns) t p" for p
    using assms(2) by (simp add: leaf_in_def)
  have "bt_ok leaves" using groups_ok_group_leaves assms(2) by (auto simp: groups_ok_def)
  moreover have "\<exists>n. leaf_at m t p = Some n \<and> nd_hash n = h" if "map_of leaves p = Some h" for p h
    using leaf_in_group_leaves_Some [of ns t p h] that window_leaf(1) [OF assms(1)] by (auto simp: leaves)
  moreover have "leaf_at m t p = leaf_at m0 t p" if "map_of leaves p = None" for p
    using that leaf_in_group_leaves_None window_no_leaf [OF assms(1)] by (simp add: leaves)
  ultimately show ?thesis using window_leaf(2) [OF assms(1)] by (simp add: group_of_def)
qed

lemma snapshot_current_cong:
  assumes "m FRONTIER (to_be_bytes t) = m' FRONTIER (to_be_bytes t)"
    and "tree_span m t = tree_span m' t" and "leaves_of C m t = leaves_of C m' t"
  shows "snapshot_current C J m t = snapshot_current C J m' t"
  using assms by (simp add: snapshot_current_def split: option.split)

lemma untouched_snapshot:
  assumes "window_stored ns m0 m" and "forest_ok m0" and "map_of (group_leaves ns) t = None"
    and "snapshot_current C J m0 t"
  shows "snapshot_current C J m t"
proof -
  have "leaf_at m t p = leaf_at m0 t p" for p
    using assms(3) leaf_in_group_leaves_None [of ns t p]
    by (intro window_no_leaf [OF assms(1)]) (simp add: leaf_in_def)
  moreover have "forest_ok m" using assms(1) by (simp add: window_stored_def)
  ultimately have "tree_span m t = tree_span m0 t" "leaves_of C m t = leaves_of C m0 t"
    using same_leaves [OF _ assms(2)] by blast+
  moreover have "m FRONTIER = m0 FRONTIER" using assms(1) by (simp add: window_stored_def)
  ultimately show ?thesis using assms(4) snapshot_current_cong [of m t m0 C J] by simp
qed

text \<open>What a committed window leaves behind.\<close>

definition window_committed ::
  "merkle_config \<Rightarrow> merkle_accumulator_state json \<Rightarrow> node list \<Rightarrow> nullified list \<Rightarrow> block_number \<Rightarrow> tables \<Rightarrow> tables \<Rightarrow> bool" where
  "window_committed C J ns nulls through m m' \<longleftrightarrow> forest_ok m' \<and> snapshots_ok C J m'
     \<and> (\<forall>t p n. leaf_at m' t p = Some n \<longleftrightarrow> leaf_at m t p = Some n \<or> n \<in> set ns \<and> node_at t p n)
     \<and> (\<forall>t h. nullified_in m' t h \<longleftrightarrow> nullified_in m t h
          \<or> (\<exists>n \<in> set nulls. nf_tree_number n = t \<and> nf_nullifier n = h))
     \<and> m' COMMITMENTS synced_block_key = Some (to_be_bytes through)
     \<and> (\<forall>T. T \<noteq> COMMITMENTS \<and> T \<noteq> FRONTIER \<longrightarrow> m' T = m T)"

context store_contract
begin

lemma advance_list:
  assumes "ready s" and J: "json_ok J" and d: "mc_depth C = 16" and ok: "forest_ok m0" "forest_ok (contents s)"
    and "distinct (map fst gs)"
    and "\<forall>(t, leaves) \<in> set gs. group_of m0 (contents s) t leaves \<and> snapshot_current C J m0 t
        \<and> contents s FRONTIER (to_be_bytes t) = m0 FRONTIER (to_be_bytes t)"
    and "\<forall>t. t \<notin> fst ` set gs \<longrightarrow> snapshot_current C J (contents s) t"
  shows "\<exists>s'. st_for (advance_tree R C J) gs s = (Inr (), s') \<and> ready s' \<and> snapshots_ok C J (contents s')
    \<and> (\<forall>T. T \<noteq> FRONTIER \<longrightarrow> contents s' T = contents s T)"
  using assms(1,5-)
proof (induction gs arbitrary: s)
  case Nil
  then show ?case by (simp add: snapshots_ok_def)
next
  case (Cons g gs)
  obtain t leaves where g: "g = (t, leaves)" by fastforce
  have gt: "group_of m0 (contents s) t leaves" "snapshot_current C J m0 t"
    "contents s FRONTIER (to_be_bytes t) = m0 FRONTIER (to_be_bytes t)"
    using Cons.prems(4) g by auto
  obtain s1 bs a where s1: "advance_tree R C J (t, leaves) s = (Inr (), s1)" "ready s1"
    "contents s1 = set_entry (contents s) FRONTIER (to_be_bytes t) (Some bs)"
    "accumulates C (leaves_of C (contents s) t) a" "js_from_slice J bs = Inr (accumulator_state a)"
    using advance_tree_law [OF Cons.prems(1) J d ok(1) Cons.prems(2) gt(1,3,2)] by blast
  have com: "contents s1 COMMITMENTS = contents s COMMITMENTS" by (simp add: s1(3) set_entry_def)
  note cong = commitments_cong [where m = "contents s1" and m' = "contents s", OF com]
  have here: "snapshot_current C J (contents s1) t"
  proof -
    have "contents s1 FRONTIER (to_be_bytes t) = Some bs" by (simp add: s1(3))
    then show ?thesis using s1(4,5) by (auto simp: snapshot_current_def cong(4))
  qed
  have else_where: "snapshot_current C J (contents s1) u \<longleftrightarrow> snapshot_current C J (contents s) u" if "u \<noteq> t" for u
    by (rule snapshot_current_cong) (use that cong in \<open>simp_all add: s1(3)\<close>)
  have rest: "\<forall>(u, leaves) \<in> set gs. group_of m0 (contents s1) u leaves \<and> snapshot_current C J m0 u
        \<and> contents s1 FRONTIER (to_be_bytes u) = m0 FRONTIER (to_be_bytes u)"
  proof clarify
    fix u leaves' assume mem: "(u, leaves') \<in> set gs"
    then have "u \<noteq> t" using Cons.prems(3) g by (force simp: image_iff)
    then show "group_of m0 (contents s1) u leaves' \<and> snapshot_current C J m0 u
        \<and> contents s1 FRONTIER (to_be_bytes u) = m0 FRONTIER (to_be_bytes u)"
      using Cons.prems(4) mem unfolding cong(5) by (auto simp: s1(3))
  qed
  have fin: "\<forall>u. u \<notin> fst ` set gs \<longrightarrow> snapshot_current C J (contents s1) u"
    using Cons.prems(5) here else_where g by (metis fst_conv image_insert insert_iff list.simps(15))
  obtain s2 where "st_for (advance_tree R C J) gs s1 = (Inr (), s2)" "ready s2"
    "snapshots_ok C J (contents s2)" "\<forall>T. T \<noteq> FRONTIER \<longrightarrow> contents s2 T = contents s1 T"
    using Cons.IH [OF s1(2) _ _ rest fin] Cons.prems(2,3) cong(2) by auto
  moreover have "\<forall>T. T \<noteq> FRONTIER \<longrightarrow> contents s1 T = contents s T" by (simp add: s1(3) set_entry_def)
  ultimately show ?case using s1(1) by (auto simp: g st_bind_def)
qed

lemma advance_frontiers_law:
  assumes "ready s" and J: "json_ok J" and d: "mc_depth C = 16" and ok: "forest_ok m0"
    and w: "window_stored ns m0 (contents s)" and cur: "snapshots_ok C J m0"
  shows "\<exists>s'. advance_frontiers R C J ns s = (Inr (), s') \<and> ready s' \<and> snapshots_ok C J (contents s')
    \<and> (\<forall>T. T \<noteq> FRONTIER \<longrightarrow> contents s' T = contents s T)"
  unfolding advance_frontiers_def
proof (rule advance_list [OF assms(1) J d ok])
  have g: "bt_ok (group_leaves ns)" using groups_ok_group_leaves by (simp add: groups_ok_def)
  show "forest_ok (contents s)" using w by (simp add: window_stored_def)
  show "distinct (map fst (group_leaves ns))" using g by (simp add: bt_ok_def strict_sorted_iff)
  show "\<forall>(t, leaves) \<in> set (group_leaves ns). group_of m0 (contents s) t leaves \<and> snapshot_current C J m0 t
        \<and> contents s FRONTIER (to_be_bytes t) = m0 FRONTIER (to_be_bytes t)"
    using group_of_window [OF w] bt_ok_map_of [OF g] cur w by (auto simp: snapshots_ok_def window_stored_def)
  show "\<forall>t. t \<notin> fst ` set (group_leaves ns) \<longrightarrow> snapshot_current C J (contents s) t"
    using untouched_snapshot [OF w ok] cur by (auto simp: snapshots_ok_def map_of_eq_None_iff)
qed

lemma window_body_law:
  assumes s: "ready s" and J: "json_ok J" and d: "mc_depth C = 16" and ok: "forest_ok (contents s)"
    and cur: "snapshots_ok C J (contents s)" and ns: "\<forall>n \<in> set ns. acceptable n"
    and run: "window_body R C J ns nulls through s = (r, s')"
  shows "case r of
      Inr _ \<Rightarrow> ready s' \<and> window_committed C J ns nulls through (contents s) (contents s')
    | Inl e \<Rightarrow> \<exists>t p. e = SyncDatabase (CommitmentConflict t p) \<and> conflicts ns (contents s) t p"
proof -
  obtain r1 s1 where s1: "st_for (\<lambda>n. st_map_err from_db (insert_node R n)) ns s = (r1, s1)" by fastforce
  note nodes = insert_nodes_law [OF s ok ns s1]
  show ?thesis
  proof (cases r1)
    case (Inl e)
    then show ?thesis using nodes run s1 by (auto simp: window_body_def st_bind_def)
  next
    case (Inr u)
    have w: "ready s1" "window_stored ns (contents s) (contents s1)"
      "nullified_in (contents s1) = nullified_in (contents s)" using nodes Inr by auto
    then have ok1: "forest_ok (contents s1)" by (simp add: window_stored_def)
    obtain s2 where s2: "st_for (\<lambda>n. st_map_err from_db (insert_nullifier R n)) nulls s1 = (Inr (), s2)" "ready s2"
      "forest_ok (contents s2)" "leaf_at (contents s2) = leaf_at (contents s1)"
      "\<forall>T. T \<noteq> COMMITMENTS \<longrightarrow> contents s2 T = contents s1 T"
      "\<And>t h. nullified_in (contents s2) t h \<longleftrightarrow> nullified_in (contents s1) t h
          \<or> (\<exists>n \<in> set nulls. nf_tree_number n = t \<and> nf_nullifier n = h)"
      using insert_nullifiers_law [OF w(1) ok1] by blast
    have w2: "window_stored ns (contents s) (contents s2)"
      using w(2) s2(3-5) by (simp add: window_stored_def)
    obtain s3 where s3: "advance_frontiers R C J ns s2 = (Inr (), s3)" "ready s3" "snapshots_ok C J (contents s3)"
      "\<forall>T. T \<noteq> FRONTIER \<longrightarrow> contents s3 T = contents s2 T"
      using advance_frontiers_law [OF s2(2) J d ok w2 cur] by blast
    have com3: "contents s3 COMMITMENTS = contents s2 COMMITMENTS" using s3(4) by simp
    note cong = commitments_cong [where m = "contents s3" and m' = "contents s2", OF com3]
    have ok3: "forest_ok (contents s3)" using s2(3) cong(2) by simp
    obtain s4 where s4: "set_synced_block R through s3 = (Inr (), s4)" "ready s4" "forest_ok (contents s4)"
      "contents s4 = set_entry (contents s3) COMMITMENTS synced_block_key (Some (to_be_bytes through))"
      using set_synced_block_law [OF s3(2) ok3] by blast
    have leaf4: "leaf_at (contents s4) = leaf_at (contents s3)"
      by (simp add: s4(4) fun_eq_iff leaf_at_other)
    have snap4: "snapshots_ok C J (contents s4)"
      unfolding snapshots_ok_def
    proof
      fix t
      have "tree_span (contents s4) t = tree_span (contents s3) t"
        "leaves_of C (contents s4) t = leaves_of C (contents s3) t"
        using same_leaves [OF s4(3) ok3] leaf4 by simp_all
      then show "snapshot_current C J (contents s4) t"
        using s3(3) snapshot_current_cong [of "contents s4" t "contents s3" C J]
        by (simp add: snapshots_ok_def s4(4))
    qed
    have "nullified_in (contents s4) t h \<longleftrightarrow> nullified_in (contents s) t h
          \<or> (\<exists>n \<in> set nulls. nf_tree_number n = t \<and> nf_nullifier n = h)" for t h
      using s2(6) [of t h] w(3) com3 by (simp add: s4(4) nullified_in_def)
    moreover have "leaf_at (contents s4) t p = Some n \<longleftrightarrow> leaf_at (contents s) t p = Some n \<or> n \<in> set ns \<and> node_at t p n"
      for t p n using w2 leaf4 cong(1) by (simp add: window_stored_def)
    moreover have "contents s4 COMMITMENTS synced_block_key = Some (to_be_bytes through)" by (simp add: s4(4))
    moreover have "contents s4 T = contents s T" if "T \<noteq> COMMITMENTS" "T \<noteq> FRONTIER" for T
      using that w2 s3(4) by (simp add: s4(4) set_entry_def window_stored_def)
    ultimately have "window_committed C J ns nulls through (contents s) (contents s4)"
      using s4(3) snap4 by (simp add: window_committed_def)
    moreover have "(r, s') = (Inr (), s4)"
      using run s1 Inr s2(1) s3(1) s4(1) by (simp add: window_body_def st_bind_def)
    ultimately show ?thesis using s4(2) by simp
  qed
qed

end

end
