(* ===== verification/Subsquid.thy ===== *)
theory Subsquid
  imports Sync_Window
begin

text \<open>
  The Subsquid event source (\<^verbatim>\<open>sync/src/graphql.rs\<close>, \<^verbatim>\<open>subsquid.rs\<close>, \<^verbatim>\<open>chain.rs\<close>): the rows of the indexer, their
  mapping to domain events, one request, the bounded retry loop and the pages of a stream. The HTTP client and the
  JSON deserialization (\<^verbatim>\<open>reqwest\<close>, \<^verbatim>\<open>serde\<close>) are the record \<open>http_client\<close>, over the state of the network.
\<close>

section \<open>Requests and rows (graphql.rs)\<close>

text \<open>The texts of the three \<^verbatim>\<open>.graphql\<close> files, as names.\<close>

datatype graphql_query = COMMITMENTS_QUERY | NULLIFIERS_QUERY | BLOCK_NUMBER_QUERY

record query_vars =
  qv_id_gt :: string
  qv_block_number_gte :: u64
  qv_block_number_lte :: u64
  qv_limit :: u64

record graphql_request =
  gq_query :: graphql_query
  gq_variables :: "query_vars option"

record graphql_error =
  ge_message :: string

record 'r graphql_response =
  gr_data :: "'r option"
  gr_errors :: "graphql_error list option"

datatype token_type = TokenErc20 | TokenErc721 | TokenErc1155

record token_info =
  ti_token_address :: bytes
  ti_token_type :: token_type

record shield_preimage =
  sp_npk :: bytes
  sp_value :: u256
  sp_token :: token_info

record transact_ciphertext_inner =
  ci_iv :: bytes
  ci_tag :: bytes
  ci_data :: "bytes list"

record transact_ciphertext_outer =
  co_ciphertext :: transact_ciphertext_inner
  co_memo :: bytes
  co_blinded_sender_viewing_key :: bytes
  co_blinded_receiver_viewing_key :: bytes
  co_annotation_data :: bytes

datatype commitment_kind =
    ShieldKind shield_preimage bytes "bytes list"
  | TransactKind transact_ciphertext_outer
  | Legacy

record commitment_row =
  cm_id :: string
  cm_block_number :: u64
  cm_hash :: u256
  cm_tree_number :: u32
  cm_tree_position :: u32
  cm_kind :: commitment_kind

record commitments_response =
  cr_commitments :: "commitment_row list"

record nullifier_row =
  nr_id :: string
  nr_nullifier :: u256
  nr_tree_number :: u32

record nullifiers_response =
  nr_nullifiers :: "nullifier_row list"

record block_row =
  br_block_number :: u64

record block_number_response =
  bn_transactions :: "block_row list"

text \<open>\<open>None\<close> is the panic of \<^verbatim>\<open>normalized\<close>, which runs before the kind is looked at; \<open>Some None\<close> skips the row.\<close>

definition map_commitment :: "commitment_row \<Rightarrow> sync_event option option" where
  "map_commitment c =
     Option.bind (normalized (cm_tree_number c) (cm_tree_position c)) (\<lambda>position.
       let hash = cm_hash c; block = cm_block_number c;
           event = (\<lambda>body. Some (Some (Commitment
             \<lparr>nd_position = position, nd_hash = hash, nd_block = block, nd_body = body\<rparr>)))
       in (case cm_kind c of
             Legacy \<Rightarrow> Some None
           | TransactKind ciphertext \<Rightarrow>
               event (Transact
                 \<lparr>tr_ciphertext = \<lparr>ct_iv = ci_iv (co_ciphertext ciphertext), ct_tag = ci_tag (co_ciphertext ciphertext),
                    ct_data = ci_data (co_ciphertext ciphertext)\<rparr>,
                  tr_memo = co_memo ciphertext,
                  tr_blinded_sender_key = co_blinded_sender_viewing_key ciphertext,
                  tr_blinded_receiver_key = co_blinded_receiver_viewing_key ciphertext,
                  tr_annotation = co_annotation_data ciphertext\<rparr>)
           | ShieldKind preimage shield_key encrypted_bundle \<Rightarrow>
               if ti_token_type (sp_token preimage) \<noteq> TokenErc20 then Some None
               else event (Shield
                 \<lparr>sh_npk = from_be_bytes (sp_npk preimage), sh_token = Erc20 (ti_token_address (sp_token preimage)),
                  sh_value = sp_value preimage, sh_encrypted_bundle = encrypted_bundle,
                  sh_shield_key = shield_key\<rparr>)))"

definition map_nullifier :: "nullifier_row \<Rightarrow> sync_event" where
  "map_nullifier row =
     Nullified \<lparr>nf_tree_number = nr_tree_number row, nf_nullifier = to_be_bytes (nr_nullifier row)\<rparr>"

section \<open>The HTTP client\<close>

record 'j http_response =
  hr_status :: nat
  hr_text :: "string option"
  hr_json :: 'j

text \<open>\<open>hc_post\<close> sends one request; the other fields read a body as a response of the query's shape.\<close>

record ('net, 'j) http_client =
  hc_post :: "string \<Rightarrow> graphql_request \<Rightarrow> ('net, string, 'j http_response) step"
  hc_commitments :: "'j \<Rightarrow> string + commitments_response graphql_response"
  hc_nullifiers :: "'j \<Rightarrow> string + nullifiers_response graphql_response"
  hc_block_number :: "'j \<Rightarrow> string + block_number_response graphql_response"

section \<open>The source (subsquid.rs)\<close>

definition DEFAULT_PAGE_LIMIT :: u64 where "DEFAULT_PAGE_LIMIT = 20000"

definition DEFAULT_MAX_RETRIES :: nat where "DEFAULT_MAX_RETRIES = 3"

definition DEFAULT_RETRY_DELAY :: nat where "DEFAULT_RETRY_DELAY = 1"

record subsquid_source =
  sq_url :: string
  sq_page_limit :: u64
  sq_max_retries :: nat
  sq_retry_delay :: nat

definition subsquid_new :: "string \<Rightarrow> subsquid_source" where
  "subsquid_new url = \<lparr>sq_url = url, sq_page_limit = DEFAULT_PAGE_LIMIT, sq_max_retries = DEFAULT_MAX_RETRIES,
     sq_retry_delay = DEFAULT_RETRY_DELAY\<rparr>"

text \<open>\<open>None\<close> is the panic of \<^verbatim>\<open>assert!\<close>.\<close>

definition set_page_limit :: "u64 \<Rightarrow> subsquid_source \<Rightarrow> subsquid_source option" where
  "set_page_limit page_limit S = (if page_limit > 0 then Some (S\<lparr>sq_page_limit := page_limit\<rparr>) else None)"

definition set_retries :: "nat \<Rightarrow> nat \<Rightarrow> subsquid_source \<Rightarrow> subsquid_source" where
  "set_retries max_retries retry_delay S = S\<lparr>sq_max_retries := max_retries, sq_retry_delay := retry_delay\<rparr>"

fun join_messages :: "string list \<Rightarrow> string" where
  "join_messages [] = []"
| "join_messages [m] = m"
| "join_messages (m # ms) = m @ ''; '' @ join_messages ms"

definition post_once ::
  "('net, 'j) http_client \<Rightarrow> ('j \<Rightarrow> string + 'r graphql_response) \<Rightarrow> subsquid_source \<Rightarrow> graphql_request
     \<Rightarrow> ('net, sync_error, 'r) step" where
  "post_once H read S body net =
     (case hc_post H (sq_url S) body net of
        (Inl e, net) \<Rightarrow> (Inl (Http e), net)
      | (Inr resp, net) \<Rightarrow>
          (if \<not> (200 \<le> hr_status resp \<and> hr_status resp < 300)
           then Inl (Request (hr_status resp) (case hr_text resp of None \<Rightarrow> [] | Some t \<Rightarrow> t))
           else res_bind (map_err Http (read (hr_json resp))) (\<lambda>parsed.
             (case gr_errors parsed of
                Some errors \<Rightarrow> Inl (GraphQl (join_messages (map ge_message errors)))
              | None \<Rightarrow> ok_or (GraphQl ''no data in response'') (gr_data parsed))), net))"

text \<open>The loop of \<^verbatim>\<open>post_retry\<close>, from an attempt count; waiting does not change the network.\<close>

function retry_loop :: "('net, sync_error, 'r) step \<Rightarrow> nat \<Rightarrow> nat \<Rightarrow> ('net, sync_error, 'r) step" where
  "retry_loop once max_retries attempt net =
     (case once net of
        (Inr data, net) \<Rightarrow> (Inr data, net)
      | (Inl error, net) \<Rightarrow>
          if attempt + 1 > max_retries then (Inl error, net) else retry_loop once max_retries (attempt + 1) net)"
  by pat_completeness auto
termination
  by (relation "measure (\<lambda>(once, max_retries, attempt, net). max_retries - attempt)") auto

declare retry_loop.simps [simp del]

definition post_retry ::
  "('net, 'j) http_client \<Rightarrow> ('j \<Rightarrow> string + 'r graphql_response) \<Rightarrow> subsquid_source \<Rightarrow> graphql_query
     \<Rightarrow> query_vars option \<Rightarrow> ('net, sync_error, 'r) step" where
  "post_retry H read S query variables =
     retry_loop (post_once H read S \<lparr>gq_query = query, gq_variables = variables\<rparr>) (sq_max_retries S) 0"

definition request_vars :: "subsquid_source \<Rightarrow> string option \<Rightarrow> block_number \<Rightarrow> block_number \<Rightarrow> query_vars" where
  "request_vars S cursor from' to' =
     \<lparr>qv_id_gt = (case cursor of None \<Rightarrow> [] | Some c \<Rightarrow> c), qv_block_number_gte = from',
      qv_block_number_lte = to', qv_limit = sq_page_limit S\<rparr>"

definition subsquid_latest_block ::
  "('net, 'j) http_client \<Rightarrow> subsquid_source \<Rightarrow> ('net, sync_error, block_number) step" where
  "subsquid_latest_block H S =
     st_bind (post_retry H (hc_block_number H) S BLOCK_NUMBER_QUERY None) (\<lambda>resp.
       st_ok (case bn_transactions resp of [] \<Rightarrow> 0 | t # _ \<Rightarrow> br_block_number t))"

text \<open>\<^verbatim>\<open>filter_map(map_commitment)\<close>; a panic in it is a panic of the fetch.\<close>

fun map_commitments :: "commitment_row list \<Rightarrow> sync_event list option" where
  "map_commitments [] = Some []"
| "map_commitments (c # cs) =
     Option.bind (map_commitment c) (\<lambda>event. Option.bind (map_commitments cs) (\<lambda>events.
       Some (case event of None \<Rightarrow> events | Some e \<Rightarrow> e # events)))"

definition last_id :: "('r \<Rightarrow> string) \<Rightarrow> 'r list \<Rightarrow> string option" where
  "last_id ident rows = (if rows = [] then None else Some (ident (last rows)))"

definition subsquid_fetch_page ::
  "('net, 'j) http_client \<Rightarrow> subsquid_source \<Rightarrow> event_stream \<Rightarrow> block_number \<Rightarrow> block_number \<Rightarrow> string option
     \<Rightarrow> ('net, sync_error, page) step" where
  "subsquid_fetch_page H S stream from' to' cursor =
     (let vars = request_vars S cursor from' to'
      in case stream of
           Commitments \<Rightarrow>
             st_bind (post_retry H (hc_commitments H) S COMMITMENTS_QUERY (Some vars)) (\<lambda>resp.
               let cursor = last_id cm_id (cr_commitments resp)
               in st_lift (ok_or SyncPanic (map_option (\<lambda>events. \<lparr>pg_events = events, pg_cursor = cursor\<rparr>)
                    (map_commitments (cr_commitments resp)))))
         | Nullifiers \<Rightarrow>
             st_bind (post_retry H (hc_nullifiers H) S NULLIFIERS_QUERY (Some vars)) (\<lambda>resp.
               let cursor = last_id nr_id (nr_nullifiers resp)
               in st_ok \<lparr>pg_events = map map_nullifier (nr_nullifiers resp), pg_cursor = cursor\<rparr>))"

definition subsquid :: "('net, 'j) http_client \<Rightarrow> subsquid_source \<Rightarrow> 'net event_source" where
  "subsquid H S = \<lparr>es_latest_block = subsquid_latest_block H S, es_fetch_page = subsquid_fetch_page H S\<rparr>"

end
