(* ===== verification/Durability.thy ===== *)
theory Durability
  imports Engine
begin

text \<open>
  What the store promises over an engine that keeps its documented laws: a \<open>ReadView\<close> reads the
  committed tables, a \<open>WriteTxn\<close> reads its own writes, a transaction lands whole or not at all,
  applying a batch makes the database read as the overlay did, and opening refuses a foreign schema.
\<close>

section \<open>What redb documents\<close>

text \<open>The tables of a redb database by name; \<open>None\<close> is a table that does not exist.\<close>

type_synonym disk = "string \<Rightarrow> (bytes \<Rightarrow> bytes option) option"

definition on_disk :: "disk \<Rightarrow> tables" where
  "on_disk d t k = (case d (table_name t) of None \<Rightarrow> None | Some m \<Rightarrow> m k)"

definition materialized :: "disk \<Rightarrow> bool" where
  "materialized d \<longleftrightarrow> (\<forall>t \<in> set ALL_TABLES. d (table_name t) \<noteq> None)"

text \<open>
  A snapshot is the committed tables; opening a table for writing creates it; \<^verbatim>\<open>insert\<close>,
  \<^verbatim>\<open>remove\<close> and \<^verbatim>\<open>delete_table\<close> act on the transaction only; a scan is ordered and inclusive; a commit
  installs the transaction's tables, and a commit that fails leaves the database as it was. That a
  transaction cannot be begun, or not be committed, is allowed.
\<close>

locale redb_laws =
  fixes E :: "('db, 'rt, 'tbl, 'wt) redb"
    and db_disk :: "'db \<Rightarrow> disk" and rt_disk :: "'rt \<Rightarrow> disk"
    and tbl_map :: "'tbl \<Rightarrow> bytes \<Rightarrow> bytes option" and wt_disk :: "'wt \<Rightarrow> disk"
  assumes create: "redb_create E file = Inr db \<Longrightarrow> db_disk db = db_disk file"
    and begin_read: "redb_begin_read E db = Inr rt \<Longrightarrow> rt_disk rt = db_disk db"
    and begin_write: "redb_begin_write E db = Inr wt \<Longrightarrow> wt_disk wt = db_disk db"
    and ro_open: "rt_disk rt name = Some m \<Longrightarrow> \<exists>tbl. ro_open_table E rt name = Inr tbl \<and> tbl_map tbl = m"
    and ro_get: "ro_get E tbl k = Inr (tbl_map tbl k)"
    and ro_range: "lo \<le> hi \<Longrightarrow> \<exists>xs. ro_range E tbl lo hi = Inr (map Inr xs) \<and> bt_ok xs
        \<and> map_of xs = tbl_map tbl |` {lo..hi}"
    and rw_open: "\<exists>wt'. rw_open_table E name wt = (Inr (), wt')
        \<and> wt_disk wt' = (case wt_disk wt name of None \<Rightarrow> (wt_disk wt)(name \<mapsto> Map.empty) | Some _ \<Rightarrow> wt_disk wt)"
    and rw_get: "wt_disk wt name = Some m \<Longrightarrow> rw_get E wt name k = Inr (m k)"
    and rw_range: "wt_disk wt name = Some m \<Longrightarrow> lo \<le> hi \<Longrightarrow>
        \<exists>xs. rw_range E wt name lo hi = Inr (map Inr xs) \<and> bt_ok xs \<and> map_of xs = m |` {lo..hi}"
    and rw_insert: "wt_disk wt name = Some m \<Longrightarrow>
        \<exists>wt'. rw_insert E name k v wt = (Inr (), wt') \<and> wt_disk wt' = (wt_disk wt)(name \<mapsto> m(k \<mapsto> v))"
    and rw_remove: "wt_disk wt name = Some m \<Longrightarrow>
        \<exists>wt'. rw_remove E name k wt = (Inr (), wt') \<and> wt_disk wt' = (wt_disk wt)(name \<mapsto> m(k := None))"
    and rw_delete_table: "\<exists>wt'. rw_delete_table E name wt = (Inr (), wt')
        \<and> wt_disk wt' = (wt_disk wt)(name := None)"
    and commit: "redb_commit E wt db = (Inr (), db') \<Longrightarrow> db_disk db' = wt_disk wt"
    and commit_fails: "redb_commit E wt db = (Inl msg, db') \<Longrightarrow> db_disk db' = db_disk db"

section \<open>Table maps on disk\<close>

lemma in_ALL_TABLES [simp]: "t \<in> set ALL_TABLES"
  by (cases t) (simp_all add: ALL_TABLES_def)

lemma materializedE:
  assumes "materialized d" obtains m where "d (table_name t) = Some m"
  using assms in_ALL_TABLES [of t] unfolding materialized_def by blast

lemma on_disk_upd:
  "on_disk (d(table_name t \<mapsto> m)) = (on_disk d)(t := m)"
  by (auto simp: on_disk_def fun_eq_iff)

lemma on_disk_eq: "d (table_name t) = Some m \<Longrightarrow> on_disk d t = m"
  by (simp add: on_disk_def fun_eq_iff)

lemma materialized_upd: "materialized d \<Longrightarrow> materialized (d(n \<mapsto> m))"
  by (simp add: materialized_def)

section \<open>The contracts over an engine\<close>

definition view_tables :: "('rt \<Rightarrow> disk) \<Rightarrow> 'rt \<Rightarrow> tables" where
  "view_tables rt_disk rt = on_disk (rt_disk rt)"

definition txn_tables :: "('wt \<Rightarrow> disk) \<Rightarrow> 'wt write_txn \<Rightarrow> tables" where
  "txn_tables wt_disk txn = on_disk (wt_disk (wt_inner txn))"

definition txn_ready :: "('wt \<Rightarrow> disk) \<Rightarrow> 'wt write_txn \<Rightarrow> bool" where
  "txn_ready wt_disk txn \<longleftrightarrow> materialized (wt_disk (wt_inner txn))"

lemma collect_scan_ok [simp]: "collect_scan (map Inr xs) = Inr xs"
  by (induction xs) simp_all

lemma write_txn_store_simps [simp]:
  "rd_get (write_txn_store E) = (\<lambda>txn. write_txn_get E (wt_inner txn))"
  "rd_range (write_txn_store E) = (\<lambda>txn table start end'.
        res_bind (write_txn_range E (wt_inner txn) table start end') (\<lambda>out. Inr (Collected out)))"
  "wr_put (write_txn_store E) = txn_put E"
  "wr_delete (write_txn_store E) = txn_delete E"
  by (simp_all add: write_txn_store_def)

lemma read_view_simps [simp]:
  "rd_get (read_view E) = read_txn_get E"
  "rd_range (read_view E) = (\<lambda>rt table start end'.
        res_bind (read_txn_range E rt table start end') (\<lambda>range. Inr (Raw range)))"
  by (simp_all add: read_view_def)

context redb_laws
begin

lemma read_view_contract:
  "reader_contract (read_view E) (view_tables rt_disk) (\<lambda>rt. materialized (rt_disk rt))"
proof
  fix s t k
  assume "materialized (rt_disk s)"
  then obtain m where m: "rt_disk s (table_name t) = Some m" by (rule materializedE)
  from ro_open [OF m] show "rd_get (read_view E) s t k = Inr (view_tables rt_disk s t k)"
    by (auto simp: read_txn_get_def view_tables_def on_disk_eq [of "rt_disk s" t, OF m] ro_get)
next
  fix s t and lo hi :: bytes
  assume "materialized (rt_disk s)" and le: "lo \<le> hi"
  then obtain m where m: "rt_disk s (table_name t) = Some m" by (auto elim: materializedE)
  from ro_open [OF m] obtain tbl where tbl: "ro_open_table E s (table_name t) = Inr tbl" "tbl_map tbl = m"
    by blast
  from ro_range [OF le, of tbl] obtain xs where xs: "ro_range E tbl lo hi = Inr (map Inr xs)" "bt_ok xs"
    "map_of xs = m |` {lo..hi}" using tbl(2) by auto
  have "rd_range (read_view E) s t lo hi = Inr (Raw (map Inr xs))"
    using tbl xs by (simp add: read_txn_range_def comp_def)
  moreover have "scan_of (view_tables rt_disk s) t lo hi xs"
    using xs by (simp add: scan_of_def view_tables_def on_disk_eq [of "rt_disk s" t, OF m])
  ultimately show "\<exists>it xs. rd_range (read_view E) s t lo hi = Inr it \<and> items it = map Inr xs
      \<and> scan_of (view_tables rt_disk s) t lo hi xs" by auto
qed

lemma with_table_open:
  assumes "wt_disk wt (table_name t) = Some m"
  obtains wt' where "with_table E t act wt = st_map_err engine_error act wt'" "wt_disk wt' = wt_disk wt"
  using rw_open [of "table_name t" wt] assms
  by (auto simp: with_table_def st_map_err_def st_bind_def)

lemma write_txn_put_law:
  assumes "wt_disk wt (table_name t) = Some m"
  shows "\<exists>wt'. write_txn_put E t k v wt = (Inr (), wt') \<and> wt_disk wt' = (wt_disk wt)(table_name t \<mapsto> m(k \<mapsto> v))"
proof -
  obtain wt1 where 1: "write_txn_put E t k v wt = st_map_err engine_error (rw_insert E (table_name t) k v) wt1"
    "wt_disk wt1 = wt_disk wt"
    unfolding write_txn_put_def by (rule with_table_open [OF assms])
  from rw_insert [of wt1 "table_name t" m k v] 1 assms show ?thesis by (auto simp: st_map_err_def)
qed

lemma write_txn_delete_law:
  assumes "wt_disk wt (table_name t) = Some m"
  shows "\<exists>wt'. write_txn_delete E t k wt = (Inr (), wt') \<and> wt_disk wt' = (wt_disk wt)(table_name t \<mapsto> m(k := None))"
proof -
  obtain wt1 where 1: "write_txn_delete E t k wt = st_map_err engine_error (rw_remove E (table_name t) k) wt1"
    "wt_disk wt1 = wt_disk wt"
    unfolding write_txn_delete_def by (rule with_table_open [OF assms])
  from rw_remove [of wt1 "table_name t" m k] 1 assms show ?thesis by (auto simp: st_map_err_def)
qed

lemma write_txn_get_law:
  assumes "wt_disk wt (table_name t) = Some m"
  shows "write_txn_get E wt t k = Inr (m k)"
proof -
  obtain wt1 where "with_table E t (\<lambda>wt. (rw_get E wt (table_name t) k, wt)) wt
      = st_map_err engine_error (\<lambda>wt. (rw_get E wt (table_name t) k, wt)) wt1" "wt_disk wt1 = wt_disk wt"
    by (rule with_table_open [OF assms])
  then show ?thesis
    using rw_get [of wt1 "table_name t" m k] assms by (simp add: write_txn_get_def st_map_err_def)
qed

lemma write_txn_range_law:
  assumes "wt_disk wt (table_name t) = Some m" and "lo \<le> hi"
  shows "\<exists>xs. write_txn_range E wt t lo hi = Inr xs \<and> bt_ok xs \<and> map_of xs = m |` {lo..hi}"
proof -
  let ?act = "\<lambda>wt. (res_bind (rw_range E wt (table_name t) lo hi) collect_scan, wt)"
  obtain wt1 where 1: "with_table E t ?act wt = st_map_err engine_error ?act wt1" "wt_disk wt1 = wt_disk wt"
    by (rule with_table_open [OF assms(1)])
  then obtain xs where "rw_range E wt1 (table_name t) lo hi = Inr (map Inr xs)" "bt_ok xs"
    "map_of xs = m |` {lo..hi}" using rw_range [of wt1 "table_name t" m lo hi] assms by auto
  with 1 show ?thesis by (simp add: write_txn_range_def st_map_err_def)
qed

lemma write_txn_contract:
  "store_contract (write_txn_store E) (txn_tables wt_disk) (txn_ready wt_disk)"
proof
  fix s t k
  assume "txn_ready wt_disk s"
  then obtain m where m: "wt_disk (wt_inner s) (table_name t) = Some m"
    by (auto simp: txn_ready_def elim: materializedE)
  then show "rd_get (write_txn_store E) s t k = Inr (txn_tables wt_disk s t k)"
    by (simp add: write_txn_get_law txn_tables_def on_disk_eq [of "wt_disk (wt_inner s)" t, OF m])
next
  fix s t and lo hi :: bytes
  assume "txn_ready wt_disk s" and le: "lo \<le> hi"
  then obtain m where m: "wt_disk (wt_inner s) (table_name t) = Some m"
    by (auto simp: txn_ready_def elim: materializedE)
  from write_txn_range_law [OF m le] show "\<exists>it xs. rd_range (write_txn_store E) s t lo hi = Inr it
      \<and> items it = map Inr xs \<and> scan_of (txn_tables wt_disk s) t lo hi xs"
    by (auto simp: scan_of_def txn_tables_def on_disk_eq [of "wt_disk (wt_inner s)" t, OF m])
next
  fix s t k v
  assume r: "txn_ready wt_disk s"
  then obtain m where m: "wt_disk (wt_inner s) (table_name t) = Some m"
    by (auto simp: txn_ready_def elim: materializedE)
  from write_txn_put_law [OF m] obtain wt' where
    "write_txn_put E t k v (wt_inner s) = (Inr (), wt')"
    "wt_disk wt' = (wt_disk (wt_inner s))(table_name t \<mapsto> m(k \<mapsto> v))" by blast
  with r show "\<exists>s'. wr_put (write_txn_store E) t k v s = (Inr (), s') \<and> txn_ready wt_disk s'
      \<and> txn_tables wt_disk s' = set_entry (txn_tables wt_disk s) t k (Some v)"
    by (simp add: txn_put_def on_inner_def touch_def txn_ready_def txn_tables_def materialized_upd
        on_disk_upd set_entry_def on_disk_eq [of "wt_disk (wt_inner s)" t, OF m])
next
  fix s t k
  assume r: "txn_ready wt_disk s"
  then obtain m where m: "wt_disk (wt_inner s) (table_name t) = Some m"
    by (auto simp: txn_ready_def elim: materializedE)
  from write_txn_delete_law [OF m] obtain wt' where
    "write_txn_delete E t k (wt_inner s) = (Inr (), wt')"
    "wt_disk wt' = (wt_disk (wt_inner s))(table_name t \<mapsto> m(k := None))" by blast
  with r show "\<exists>s'. wr_delete (write_txn_store E) t k s = (Inr (), s') \<and> txn_ready wt_disk s'
      \<and> txn_tables wt_disk s' = set_entry (txn_tables wt_disk s) t k None"
    by (simp add: txn_delete_def on_inner_def touch_def txn_ready_def txn_tables_def materialized_upd
        on_disk_upd set_entry_def on_disk_eq [of "wt_disk (wt_inner s)" t, OF m])
qed

end

sublocale redb_laws \<subseteq> view: reader_contract "read_view E" "view_tables rt_disk"
  "\<lambda>rt. materialized (rt_disk rt)"
  by (rule read_view_contract)

sublocale redb_laws \<subseteq> txn: store_contract "write_txn_store E" "txn_tables wt_disk" "txn_ready wt_disk"
  by (rule write_txn_contract)

sublocale redb_laws \<subseteq> staging: store_contract "overlay_store (read_view E)"
  "overlay_contents (view_tables rt_disk)" "overlay_inv (\<lambda>rt. materialized (rt_disk rt))"
  by (rule view.overlay_store_contract)

section \<open>Transactions\<close>

context redb_laws
begin

lemma db_write_outcome:
  assumes "db_write E from f db = (r, db')"
  shows "case r of
      Inl _ \<Rightarrow> db_disk db' = db_disk db
    | Inr val \<Rightarrow> \<exists>wt txn. wt_disk wt = db_disk db \<and> f (write_txn_new wt) = (Inr val, txn)
        \<and> db_disk db' = wt_disk (wt_inner txn)"
proof (cases "redb_begin_write E db")
  case (Inl msg)
  then show ?thesis using assms by (auto simp: db_write_def begin_write_def)
next
  case (Inr wt)
  obtain res txn where f: "f (write_txn_new wt) = (res, txn)" by fastforce
  obtain c db'' where c: "redb_commit E (wt_inner txn) db = (c, db'')" by fastforce
  from assms show ?thesis
    using begin_write [OF Inr] f c commit [of "wt_inner txn" db db''] commit_fails [of "wt_inner txn" db _ db'']
    by (cases res; cases c)
      (force simp: db_write_def Engine.begin_write_def Inr write_txn_commit_def st_map_err_def)+
qed

end

section \<open>Applying a batch\<close>

context store_contract
begin

lemma apply_entry_law:
  assumes "ready s"
  shows "\<exists>s'. apply_entry R t (k, e) s = (Inr (), s') \<and> ready s' \<and> contents s' = set_entry (contents s) t k e"
  using put_law [OF assms, of t k] delete_law [OF assms, of t k]
  by (cases e) (auto simp: apply_entry_def)

lemma apply_entries_law:
  assumes "ready s" and "bt_ok kvs"
  shows "\<exists>s'. st_for (apply_entry R t) kvs s = (Inr (), s') \<and> ready s'
    \<and> contents s' = (contents s)(t := overlay_map (contents s t) (map_of kvs))"
  using assms
proof (induction kvs arbitrary: s)
  case Nil
  then show ?case by simp
next
  case (Cons kv kvs)
  obtain k e where kv: "kv = (k, e)" by fastforce
  obtain s1 where s1: "apply_entry R t (k, e) s = (Inr (), s1)" "ready s1"
    "contents s1 = set_entry (contents s) t k e" using apply_entry_law [OF Cons.prems(1)] by blast
  have ok: "bt_ok kvs" using Cons.prems(2) kv by simp
  obtain s2 where s2: "st_for (apply_entry R t) kvs s1 = (Inr (), s2)" "ready s2"
    "contents s2 = (contents s1)(t := overlay_map (contents s1 t) (map_of kvs))"
    using Cons.IH [OF s1(2) ok] by blast
  have "map_of kvs k = None" using Cons.prems(2) kv by (intro map_of_above_None) auto
  from overlay_map_base_upd [of "map_of kvs" k, OF this] have
    "contents s2 = (contents s)(t := overlay_map (contents s t) (map_of (kv # kvs)))"
    unfolding s2(3) s1(3) by (simp add: kv set_entry_def)
  moreover have "st_for (apply_entry R t) (kv # kvs) s = (Inr (), s2)"
    using s1(1) s2(1) kv by (simp add: st_bind_def)
  ultimately show ?case using s2(2) by blast
qed

lemma apply_batch_law:
  assumes "ready s" and "batch_ok batch"
  shows "\<exists>s'. apply_batch R batch s = (Inr (), s') \<and> ready s'
    \<and> contents s' = (\<lambda>t. overlay_map (contents s t) (staged_of batch t))"
  using assms
proof (induction batch arbitrary: s)
  case Nil
  then show ?case by (simp add: apply_batch_def staged_of_def)
next
  case (Cons entry batch)
  obtain t kvs where entry: "entry = (t, kvs)" by fastforce
  with Cons.prems(2) have ok: "bt_ok kvs" "batch_ok batch" "\<forall>t' \<in> fst ` set batch. t < t'"
    by (auto simp: batch_ok_def)
  obtain s1 where s1: "st_for (apply_entry R t) kvs s = (Inr (), s1)" "ready s1"
    "contents s1 = (contents s)(t := overlay_map (contents s t) (map_of kvs))"
    using apply_entries_law [OF Cons.prems(1) ok(1)] by blast
  obtain s2 where s2: "apply_batch R batch s1 = (Inr (), s2)" "ready s2"
    "contents s2 = (\<lambda>t. overlay_map (contents s1 t) (staged_of batch t))"
    using Cons.IH [OF s1(2) ok(2)] by blast
  have "map_of batch t = None" using ok(3) by (rule map_of_above_None)
  then have "contents s2 = (\<lambda>t'. overlay_map (contents s t') (staged_of (entry # batch) t'))"
    unfolding s2(3) s1(3) by (simp add: entry staged_of_def fun_eq_iff)
  moreover have "apply_batch R (entry # batch) s = (Inr (), s2)"
    using s1(1) s2(1) by (simp add: apply_batch_def entry st_bind_def)
  ultimately show ?case using s2(2) by blast
qed

end

section \<open>Schema stamps\<close>

definition stamp_ok :: "tables \<Rightarrow> table_id \<times> u32 \<Rightarrow> bool" where
  "stamp_ok m = (\<lambda>(t, v). case m META (version_key t) of None \<Rightarrow> True | Some bs \<Rightarrow> bs = to_be_bytes v)"

definition stamp :: "table_id \<times> u32 \<Rightarrow> tables \<Rightarrow> tables" where
  "stamp = (\<lambda>(t, v) m. set_entry m META (version_key t) (Some (to_be_bytes v)))"

definition schema_ok :: "tables \<Rightarrow> bool" where
  "schema_ok m \<longleftrightarrow> list_all (stamp_ok m) SCHEMA_VERSIONS"

definition stamped :: "tables \<Rightarrow> tables" where
  "stamped m = fold stamp SCHEMA_VERSIONS m"

lemma ascii_inject [simp]: "ascii s = ascii s' \<longleftrightarrow> s = s'"
proof -
  have "inj (\<lambda>c. of_nat (of_char c :: nat) :: byte)"
  proof (rule injI)
    fix c d :: char
    have "(of_char c :: nat) < 2 ^ LENGTH(8)" "(of_char d :: nat) < 2 ^ LENGTH(8)" by simp_all
    moreover assume "(of_nat (of_char c :: nat) :: byte) = of_nat (of_char d)"
    ultimately have "(of_char c :: nat) = of_char d" using unat_of_nat_small by metis
    then show "c = d" by simp
  qed
  then show ?thesis unfolding ascii_def by (simp add: inj_map_eq_map)
qed

lemma version_key_inject [simp]: "version_key t = version_key t' \<longleftrightarrow> t = t'"
  by (simp add: version_key_def)

lemma read_version_stamp:
  "rd_get R s META (version_key t) = Inr found \<Longrightarrow>
     read_version R s t = (case found of None \<Rightarrow> Inr None | Some bs \<Rightarrow>
       if length bs = 4 then Inr (Some (from_be_bytes bs)) else Inl (Err (Engine ''malformed version stamp'')))"
  by (simp add: read_version_def)

lemma stamp_ok_other: "t \<noteq> fst p \<Longrightarrow> stamp_ok (stamp (t, v) m) p = stamp_ok m p"
  by (cases p) (simp add: stamp_ok_def stamp_def)

context store_contract
begin

lemma check_and_stamp_one_law:
  assumes "ready s"
  shows "if stamp_ok (contents s) p
    then \<exists>s'. check_and_stamp_one R p s = (Inr (), s') \<and> ready s' \<and> contents s' = stamp p (contents s)
    else \<exists>e. check_and_stamp_one R p s = (Inl (Err e), s)"
proof -
  obtain t v where p: "p = (t, v)" by fastforce
  let ?found = "contents s META (version_key t)"
  have v: "length bs = 4 \<Longrightarrow> from_be_bytes bs = v \<longleftrightarrow> bs = to_be_bytes v" for bs
    by (auto simp: to_from_be_bytes)
  show ?thesis
  proof (cases ?found)
    case None
    then show ?thesis
      using put_law [OF assms, of META "version_key t" "to_be_bytes v"]
      by (simp add: p stamp_ok_def stamp_def check_and_stamp_one_def read_version_def get_law [OF assms])
  next
    case (Some bs)
    then have "stamp p (contents s) = contents s" if "bs = to_be_bytes v"
      using that by (simp add: p stamp_def fun_eq_iff)
    with Some show ?thesis
      using assms v [of bs]
      by (auto simp: p stamp_ok_def check_and_stamp_one_def read_version_def get_law [OF assms])
  qed
qed

lemma check_and_stamp_list:
  assumes "ready s" and "distinct (map fst ps)"
  shows "if list_all (stamp_ok (contents s)) ps
    then \<exists>s'. st_for (check_and_stamp_one R) ps s = (Inr (), s') \<and> ready s' \<and> contents s' = fold stamp ps (contents s)
    else \<exists>e s'. st_for (check_and_stamp_one R) ps s = (Inl (Err e), s')"
  using assms
proof (induction ps arbitrary: s)
  case Nil
  then show ?case by simp
next
  case (Cons p ps)
  show ?case
  proof (cases "stamp_ok (contents s) p")
    case True
    then obtain s1 where s1: "check_and_stamp_one R p s = (Inr (), s1)" "ready s1"
      "contents s1 = stamp p (contents s)" using check_and_stamp_one_law [OF Cons.prems(1), of p] by auto
    have "list_all (stamp_ok (contents s1)) ps = list_all (stamp_ok (contents s)) ps"
      using Cons.prems(2) stamp_ok_other [of "fst p" _ "snd p" "contents s"]
      by (auto simp: s1(3) list_all_iff image_iff)
    then show ?thesis
      using Cons.IH [OF s1(2)] Cons.prems(2) True s1 by (auto simp: st_bind_def split: if_splits)
  next
    case False
    then show ?thesis
      using check_and_stamp_one_law [OF Cons.prems(1), of p] by (auto simp: st_bind_def)
  qed
qed

lemma check_and_stamp_law:
  assumes "ready s"
  shows "if schema_ok (contents s)
    then \<exists>s'. check_and_stamp R s = (Inr (), s') \<and> ready s' \<and> contents s' = stamped (contents s)
    else \<exists>e s'. check_and_stamp R s = (Inl (Err e), s')"
  unfolding schema_ok_def stamped_def check_and_stamp_def
  by (rule check_and_stamp_list [OF assms]) (simp add: SCHEMA_VERSIONS_def)

end

section \<open>Opening and clearing\<close>

context redb_laws
begin

lemma materialize_law:
  "\<exists>txn'. on_inner (write_txn_materialize E t) txn = (Inr (), txn') \<and>
     wt_disk (wt_inner txn') = (case wt_disk (wt_inner txn) (table_name t) of
        None \<Rightarrow> (wt_disk (wt_inner txn))(table_name t \<mapsto> Map.empty) | Some _ \<Rightarrow> wt_disk (wt_inner txn))"
  using rw_open [of "table_name t" "wt_inner txn"]
  by (auto simp: on_inner_def write_txn_materialize_def st_map_err_def)

lemma clear_table_law:
  "\<exists>txn'. txn_clear_table E t txn = (Inr (), txn') \<and>
     wt_disk (wt_inner txn') = (wt_disk (wt_inner txn))(table_name t \<mapsto> Map.empty)"
proof -
  obtain wt1 where 1: "rw_delete_table E (table_name t) (wt_inner txn) = (Inr (), wt1)"
    "wt_disk wt1 = (wt_disk (wt_inner txn))(table_name t := None)" using rw_delete_table by blast
  obtain wt2 where "rw_open_table E (table_name t) wt1 = (Inr (), wt2)"
    "wt_disk wt2 = (wt_disk wt1)(table_name t \<mapsto> Map.empty)"
    using rw_open [of "table_name t" wt1] 1(2) by auto
  with 1 show ?thesis
    by (simp add: txn_clear_table_def on_inner_def touch_def write_txn_clear_table_def st_map_err_def st_bind_def)
qed

lemma materialize_list:
  "\<exists>txn'. st_for (\<lambda>table. on_inner (write_txn_materialize E table)) ts txn = (Inr (), txn')
     \<and> on_disk (wt_disk (wt_inner txn')) = on_disk (wt_disk (wt_inner txn))
     \<and> (\<forall>t. wt_disk (wt_inner txn) (table_name t) \<noteq> None \<or> t \<in> set ts \<longrightarrow>
             wt_disk (wt_inner txn') (table_name t) \<noteq> None)"
proof (induction ts arbitrary: txn)
  case Nil
  then show ?case by simp
next
  case (Cons t ts)
  let ?d = "wt_disk (wt_inner txn)"
  obtain txn1 where 1: "on_inner (write_txn_materialize E t) txn = (Inr (), txn1)"
    "wt_disk (wt_inner txn1) = (case ?d (table_name t) of
        None \<Rightarrow> ?d(table_name t \<mapsto> Map.empty) | Some _ \<Rightarrow> ?d)"
    using materialize_law [of t txn] by blast
  have d1: "on_disk (wt_disk (wt_inner txn1)) = on_disk ?d"
    unfolding 1(2) by (auto simp: on_disk_def fun_eq_iff split: option.split)
  have e1: "\<forall>u. ?d (table_name u) \<noteq> None \<or> u = t \<longrightarrow> wt_disk (wt_inner txn1) (table_name u) \<noteq> None"
    unfolding 1(2) by (auto split: option.split)
  obtain txn2 where 2: "st_for (\<lambda>table. on_inner (write_txn_materialize E table)) ts txn1 = (Inr (), txn2)"
    "on_disk (wt_disk (wt_inner txn2)) = on_disk (wt_disk (wt_inner txn1))"
    "\<forall>u. wt_disk (wt_inner txn1) (table_name u) \<noteq> None \<or> u \<in> set ts \<longrightarrow>
       wt_disk (wt_inner txn2) (table_name u) \<noteq> None" using Cons.IH [of txn1] by blast
  have "st_for (\<lambda>table. on_inner (write_txn_materialize E table)) (t # ts) txn = (Inr (), txn2)"
    using 1(1) 2(1) by (simp add: st_bind_def)
  then show ?case using 2(2,3) d1 e1 by (intro exI [of _ txn2]) auto
qed

lemma clear_list:
  "\<exists>txn'. st_for (txn_clear_table E) ts txn = (Inr (), txn') \<and>
     wt_disk (wt_inner txn') =
       (\<lambda>n. if n \<in> table_name ` set ts then Some Map.empty else wt_disk (wt_inner txn) n)"
proof (induction ts arbitrary: txn)
  case Nil
  then show ?case by simp
next
  case (Cons t ts)
  obtain txn1 where 1: "txn_clear_table E t txn = (Inr (), txn1)"
    "wt_disk (wt_inner txn1) = (wt_disk (wt_inner txn))(table_name t \<mapsto> Map.empty)"
    using clear_table_law by blast
  obtain txn2 where 2: "st_for (txn_clear_table E) ts txn1 = (Inr (), txn2)"
    "wt_disk (wt_inner txn2) =
       (\<lambda>n. if n \<in> table_name ` set ts then Some Map.empty else wt_disk (wt_inner txn1) n)"
    using Cons.IH by blast
  have "st_for (txn_clear_table E) (t # ts) txn = (Inr (), txn2)" using 1(1) 2(1) by (simp add: st_bind_def)
  then show ?case using 2(2) 1(2) by (intro exI [of _ txn2]) (auto simp: fun_eq_iff)
qed

lemma initialize_txn:
  fixes txn :: "'wt write_txn"
  defines "m \<equiv> txn_tables wt_disk txn"
  defines "body \<equiv> st_bind (st_for (\<lambda>table. on_inner (write_txn_materialize E table)) ALL_TABLES)
             (\<lambda>_. check_and_stamp (write_txn_store E))"
  shows "if schema_ok m
    then \<exists>txn'. body txn = (Inr (), txn') \<and> txn_ready wt_disk txn' \<and> txn_tables wt_disk txn' = stamped m
    else \<exists>e txn'. body txn = (Inl (Err e), txn')"
proof -
  obtain txn1 where 1: "st_for (\<lambda>table. on_inner (write_txn_materialize E table)) ALL_TABLES txn = (Inr (), txn1)"
    "on_disk (wt_disk (wt_inner txn1)) = on_disk (wt_disk (wt_inner txn))"
    "\<forall>t. wt_disk (wt_inner txn) (table_name t) \<noteq> None \<or> t \<in> set ALL_TABLES \<longrightarrow>
             wt_disk (wt_inner txn1) (table_name t) \<noteq> None"
    using materialize_list by blast
  have r: "txn_ready wt_disk txn1" using 1(3) by (simp add: txn_ready_def materialized_def)
  have m: "txn_tables wt_disk txn1 = m" using 1(2) by (simp add: m_def txn_tables_def)
  from txn.check_and_stamp_law [OF r] show ?thesis
    unfolding m body_def st_bind_def 1(1) by simp
qed

lemma clear_all_txn:
  "\<exists>txn'. st_bind (st_for (txn_clear_table E) ALL_TABLES) (\<lambda>_. check_and_stamp (write_txn_store E)) txn
       = (Inr (), txn') \<and> txn_ready wt_disk txn' \<and> txn_tables wt_disk txn' = stamped (\<lambda>_. Map.empty)"
proof -
  obtain txn1 where 1: "st_for (txn_clear_table E) ALL_TABLES txn = (Inr (), txn1)"
    "wt_disk (wt_inner txn1) =
       (\<lambda>n. if n \<in> table_name ` set ALL_TABLES then Some Map.empty else wt_disk (wt_inner txn) n)"
    using clear_list by blast
  have r: "txn_ready wt_disk txn1" by (simp add: txn_ready_def materialized_def 1(2))
  have m: "txn_tables wt_disk txn1 = (\<lambda>_. Map.empty)"
    by (simp add: txn_tables_def 1(2) on_disk_def fun_eq_iff)
  have "schema_ok (txn_tables wt_disk txn1)"
    unfolding m by (simp add: schema_ok_def stamp_ok_def SCHEMA_VERSIONS_def)
  with txn.check_and_stamp_law [OF r] show ?thesis
    unfolding m st_bind_def 1(1) by simp
qed

end

end
