(* ===== verification/Memory_Engine.thy ===== *)
theory Memory_Engine
  imports Durability
begin

text \<open>
  An executable engine that keeps \<open>redb_laws\<close>, so that every theorem about the store can be run on
  concrete databases, and the properties of the \<^verbatim>\<open>database\<close> crate's transactions stated over any
  engine that keeps the laws.
\<close>

section \<open>An engine in memory\<close>

text \<open>
  A table is its list of writes, the newest first; a database, a snapshot and a transaction are the
  list of named tables.
\<close>

type_synonym mem_disk = "(string \<times> kv list) list"

definition mem_scan :: "kv list \<Rightarrow> bytes \<Rightarrow> bytes \<Rightarrow> kv list" where
  "mem_scan tbl lo hi = bt_range lo hi (fold (\<lambda>(k, v). bt_insert k v) (rev tbl) [])"

definition mem_table :: "mem_disk \<Rightarrow> string \<Rightarrow> string + kv list" where
  "mem_table d name = ok_or ''table does not exist'' (map_of d name)"

definition mem_update :: "string \<Rightarrow> (kv list \<Rightarrow> kv list) \<Rightarrow> (mem_disk, string, unit) step" where
  "mem_update name f d =
     (case map_of d name of None \<Rightarrow> (Inl ''table does not exist'', d)
      | Some tbl \<Rightarrow> (Inr (), (name, f tbl) # d))"

definition mem_open :: "string \<Rightarrow> (mem_disk, string, unit) step" where
  "mem_open name d = (Inr (), case map_of d name of None \<Rightarrow> (name, []) # d | Some _ \<Rightarrow> d)"

definition mem_redb :: "(mem_disk, mem_disk, kv list, mem_disk) redb" where
  "mem_redb =
     \<lparr>redb_create = Inr, redb_begin_read = Inr, redb_begin_write = Inr,
      ro_open_table = mem_table, ro_get = (\<lambda>tbl k. Inr (map_of tbl k)),
      ro_range = (\<lambda>tbl lo hi. Inr (map Inr (mem_scan tbl lo hi))),
      rw_open_table = mem_open,
      rw_get = (\<lambda>d name k. res_bind (mem_table d name) (\<lambda>tbl. Inr (map_of tbl k))),
      rw_range = (\<lambda>d name lo hi. res_bind (mem_table d name) (\<lambda>tbl. Inr (map Inr (mem_scan tbl lo hi)))),
      rw_insert = (\<lambda>name k v. mem_update name (Cons (k, v))),
      rw_remove = (\<lambda>name k. mem_update name (filter (\<lambda>(k', _). k' \<noteq> k))),
      rw_delete_table = (\<lambda>name d. (Inr (), filter (\<lambda>(n, _). n \<noteq> name) d)),
      redb_commit = (\<lambda>wt _. (Inr (), wt))\<rparr>"

definition mem_tables :: "mem_disk \<Rightarrow> disk" where
  "mem_tables d name = map_option map_of (map_of d name)"

lemma mem_scan_ok: "bt_ok (mem_scan tbl lo hi)"
  unfolding mem_scan_def by (intro bt_ok_range btree.ok_fold_put) simp

lemma map_of_mem_scan: "map_of (mem_scan tbl lo hi) = map_of tbl |` {lo..hi}"
  unfolding mem_scan_def map_of_bt_range by (simp add: btree.get_fold_put)

lemma map_of_filter_neq: "map_of (filter (\<lambda>(k', _). k' \<noteq> k) xs) = (map_of xs)(k := None)"
  by (induction xs) (auto simp: fun_eq_iff)

interpretation mem: redb_laws mem_redb mem_tables mem_tables map_of mem_tables
proof
  fix lo hi :: bytes and tbl :: "kv list"
  show "\<exists>xs. ro_range mem_redb tbl lo hi = Inr (map Inr xs) \<and> bt_ok xs \<and> map_of xs = map_of tbl |` {lo..hi}"
    by (intro exI [of _ "mem_scan tbl lo hi"]) (simp add: mem_redb_def mem_scan_ok map_of_mem_scan)
next
  fix wt name m and lo hi :: bytes
  assume "mem_tables wt name = Some m"
  then obtain tbl where "map_of wt name = Some tbl" "m = map_of tbl" by (auto simp: mem_tables_def)
  then show "\<exists>xs. rw_range mem_redb wt name lo hi = Inr (map Inr xs) \<and> bt_ok xs \<and> map_of xs = m |` {lo..hi}"
    by (intro exI [of _ "mem_scan tbl lo hi"])
      (simp add: mem_redb_def mem_table_def mem_scan_ok map_of_mem_scan)
qed (auto simp: mem_redb_def mem_tables_def mem_table_def mem_update_def mem_open_def
    map_of_filter_neq fun_eq_iff split: option.split)

section \<open>Properties of the transactions\<close>

text \<open>C23: \<open>Database::write\<close> is atomic. If it returns an error, from the closure, from beginning the
  transaction or from the commit, the tables on disk are what they were; if it returns a value, they
  are exactly the tables the closure left in its transaction, which began from the committed ones.\<close>

theorem db_write_atomic:
  assumes "redb_laws E db_disk rt_disk tbl_map wt_disk"
    and "db_write E from f db = (r, db')"
  shows "case r of
      Inl _ \<Rightarrow> db_disk db' = db_disk db
    | Inr val \<Rightarrow> \<exists>wt txn. wt_disk wt = db_disk db \<and> f (write_txn_new wt) = (Inr val, txn)
        \<and> db_disk db' = wt_disk (wt_inner txn)"
  using assms by (rule redb_laws.db_write_outcome)

theorem db_write_atomic_witness:
  "\<exists>wt txn. mem_tables wt = mem_tables [(''meta'', [])]
     \<and> txn_put mem_redb META [1] [2] (write_txn_new wt) = (Inr (), txn)
     \<and> mem_tables [(''meta'', [([1], [2])]), (''meta'', [])] = mem_tables (wt_inner txn)"
proof -
  have "db_write mem_redb id (txn_put mem_redb META [1] [2]) [(''meta'', [])]
      = (Inr (), [(''meta'', [([1], [2])]), (''meta'', [])])" by code_simp
  from db_write_atomic [OF mem.redb_laws_axioms this] show ?thesis by simp
qed

text \<open>A reader's point reads and scans, as one value: what a client can learn from it.\<close>

definition same_reads :: "('s, 'z) reader_scheme \<Rightarrow> 's \<Rightarrow> ('t, 'y) reader_scheme \<Rightarrow> 't \<Rightarrow> bool" where
  "same_reads R s R' s' \<longleftrightarrow>
     (\<forall>t k. rd_get R s t k = rd_get R' s' t k) \<and>
     (\<forall>t lo hi. lo \<le> hi \<longrightarrow> (\<exists>it it'. rd_range R s t lo hi = Inr it \<and> rd_range R' s' t lo hi = Inr it'
        \<and> items it = items it'))"

lemma same_readsI:
  assumes "reader_contract R contents ready" and "ready s"
    and "reader_contract R' contents' ready'" and "ready' s'"
    and "contents s = contents' s'"
  shows "same_reads R s R' s'"
  unfolding same_reads_def
proof (intro conjI allI impI)
  fix t k
  show "rd_get R s t k = rd_get R' s' t k"
    using assms by (simp add: reader_contract.get_law)
next
  fix t and lo hi :: bytes
  assume le: "lo \<le> hi"
  obtain it xs where 1: "rd_range R s t lo hi = Inr it" "items it = map Inr xs"
    "scan_of (contents s) t lo hi xs"
    by (rule reader_contract.range_lawE [OF assms(1,2) le])
  obtain it' ys where 2: "rd_range R' s' t lo hi = Inr it'" "items it' = map Inr ys"
    "scan_of (contents' s') t lo hi ys"
    by (rule reader_contract.range_lawE [OF assms(3,4) le])
  have "xs = ys" using 1(3) 2(3) unfolding assms(5) by (rule scan_of_unique)
  with 1 2 show "\<exists>it it'. rd_range R s t lo hi = Inr it \<and> rd_range R' s' t lo hi = Inr it'
        \<and> items it = items it'" by auto
qed

lemma txn_tables_new [simp]:
  "wt_inner (write_txn_new wt) = wt"
  "txn_tables wt_disk (write_txn_new wt) = on_disk (wt_disk wt)"
  "txn_ready wt_disk (write_txn_new wt) = materialized (wt_disk wt)"
  by (simp_all add: txn_tables_def txn_ready_def write_txn_new_def)

context redb_laws
begin

lemma db_read_disk: "db_read E db = Inr rt \<Longrightarrow> rt_disk rt = db_disk db"
  by (simp add: db_read_def Engine.begin_read_def begin_read)

lemma db_apply_disk:
  assumes "materialized (db_disk db)" and "batch_ok batch" and "db_apply E batch db = (Inr (), db')"
  shows "materialized (db_disk db')
    \<and> on_disk (db_disk db') = (\<lambda>t. overlay_map (on_disk (db_disk db) t) (staged_of batch t))"
proof -
  obtain wt txn where t: "wt_disk wt = db_disk db" "db_disk db' = wt_disk (wt_inner txn)"
    "apply_batch (write_txn_store E) batch (write_txn_new wt) = (Inr (), txn)"
    using db_write_outcome [OF assms(3) [unfolded db_apply_def]] by auto
  have "txn_ready wt_disk (write_txn_new wt)" using t(1) assms(1) by simp
  from txn.apply_batch_law [OF this assms(2)] t(3) have
    "txn_ready wt_disk txn"
    "txn_tables wt_disk txn = (\<lambda>t. overlay_map (on_disk (wt_disk wt) t) (staged_of batch t))"
    by auto
  then show ?thesis by (simp add: t(1,2) txn_ready_def txn_tables_def)
qed

lemma db_apply_same_reads:
  assumes "materialized (db_disk db)" and "batch_ok batch" and "db_read E db = Inr rt"
    and "db_apply E batch db = (Inr (), db')" and "db_read E db' = Inr rt'"
  shows "same_reads (overlay_store (read_view E)) (batch, rt) (read_view E) rt'"
proof (rule same_readsI)
  show "reader_contract (overlay_store (read_view E)) (overlay_contents (view_tables rt_disk))
      (overlay_inv (\<lambda>rt. materialized (rt_disk rt)))"
    by (rule staging.reader_contract_axioms)
  show "reader_contract (read_view E) (view_tables rt_disk) (\<lambda>rt. materialized (rt_disk rt))"
    by (rule read_view_contract)
  show "overlay_inv (\<lambda>rt. materialized (rt_disk rt)) (batch, rt)"
    using assms(1,2) db_read_disk [OF assms(3)] by (simp add: overlay_inv_def)
  have after: "materialized (db_disk db')"
    "on_disk (db_disk db') = (\<lambda>t. overlay_map (on_disk (db_disk db) t) (staged_of batch t))"
    using db_apply_disk [OF assms(1,2,4)] by auto
  show "materialized (rt_disk rt')" using after(1) db_read_disk [OF assms(5)] by simp
  show "overlay_contents (view_tables rt_disk) (batch, rt) = view_tables rt_disk rt'"
    using after(2) db_read_disk [OF assms(3)] db_read_disk [OF assms(5)]
    by (simp add: overlay_contents_def view_tables_def)
qed

lemma db_initialize_disk:
  assumes "db_initialize E db = (r, db')"
  shows "case r of
      Inl _ \<Rightarrow> db_disk db' = db_disk db
    | Inr _ \<Rightarrow> schema_ok (on_disk (db_disk db)) \<and> materialized (db_disk db')
        \<and> on_disk (db_disk db') = stamped (on_disk (db_disk db))"
proof (cases r)
  case (Inl e)
  then show ?thesis using db_write_outcome [OF assms [unfolded db_initialize_def]] by simp
next
  case (Inr u)
  obtain wt txn where t: "wt_disk wt = db_disk db" "db_disk db' = wt_disk (wt_inner txn)"
    "st_bind (st_for (\<lambda>table. on_inner (write_txn_materialize E table)) ALL_TABLES)
             (\<lambda>_. check_and_stamp (write_txn_store E)) (write_txn_new wt) = (Inr (), txn)"
    using db_write_outcome [OF assms [unfolded db_initialize_def]] Inr by auto
  from initialize_txn [of "write_txn_new wt"] t(3) show ?thesis
    by (simp add: Inr t(1,2) txn_ready_def txn_tables_def split: if_splits)
qed

lemma db_clear_all_disk:
  assumes "db_clear_all E db = (r, db')"
  shows "case r of
      Inl _ \<Rightarrow> db_disk db' = db_disk db
    | Inr _ \<Rightarrow> materialized (db_disk db') \<and> on_disk (db_disk db') = stamped (\<lambda>_. Map.empty)"
proof (cases r)
  case (Inl e)
  then show ?thesis using db_write_outcome [OF assms [unfolded db_clear_all_def]] by simp
next
  case (Inr u)
  obtain wt txn where t: "wt_disk wt = db_disk db" "db_disk db' = wt_disk (wt_inner txn)"
    "st_bind (st_for (txn_clear_table E) ALL_TABLES)
             (\<lambda>_. check_and_stamp (write_txn_store E)) (write_txn_new wt) = (Inr (), txn)"
    using db_write_outcome [OF assms [unfolded db_clear_all_def]] Inr by auto
  from clear_all_txn [of "write_txn_new wt"] t(3) show ?thesis
    by (auto simp: Inr t(1,2) txn_ready_def txn_tables_def)
qed

end

text \<open>C13: \<open>Database::apply\<close> makes the database read as the overlay did. A view opened after a batch
  was applied answers every point read and every range scan as the overlay of the batch over a view
  opened before.\<close>

theorem db_apply_reads_as_overlay:
  assumes "redb_laws E db_disk rt_disk tbl_map wt_disk"
    and "materialized (db_disk db)" and "batch_ok batch" and "db_read E db = Inr rt"
    and "db_apply E batch db = (Inr (), db')" and "db_read E db' = Inr rt'"
  shows "same_reads (overlay_store (read_view E)) (batch, rt) (read_view E) rt'"
  using assms by (rule redb_laws.db_apply_same_reads)

definition sample_db :: mem_disk where
  "sample_db = [(''commitments'', [([7], [70]), ([9], [90])]), (''decoded'', []), (''frontier'', []), (''meta'', [])]"

definition sample_batch :: write_batch where
  "sample_batch = stage COMMITMENTS [7] None (stage COMMITMENTS [8] (Some [80]) write_batch_new)"

theorem db_apply_reads_as_overlay_witness:
  "same_reads (overlay_store (read_view mem_redb)) (sample_batch, sample_db) (read_view mem_redb)
     (snd (db_apply mem_redb sample_batch sample_db))"
proof (rule db_apply_reads_as_overlay [OF mem.redb_laws_axioms])
  show "materialized (mem_tables sample_db)"
    by (simp add: materialized_def ALL_TABLES_def mem_tables_def sample_db_def)
  show "batch_ok sample_batch" by (simp add: sample_batch_def batch_ok_stage)
  show "db_read mem_redb sample_db = Inr sample_db"
    by (simp add: db_read_def begin_read_def mem_redb_def)
  have "fst (db_apply mem_redb sample_batch sample_db) = Inr ()" by code_simp
  then show "db_apply mem_redb sample_batch sample_db = (Inr (), snd (db_apply mem_redb sample_batch sample_db))"
    by (simp add: prod_eq_iff)
  show "db_read mem_redb (snd (db_apply mem_redb sample_batch sample_db)) = Inr (snd (db_apply mem_redb sample_batch sample_db))"
    by (simp add: db_read_def begin_read_def mem_redb_def)
qed

text \<open>Opening checks and stamps the schema. It succeeds only if no table carries a foreign or
  malformed version stamp; then every table exists, every table is stamped with its current version and
  no other entry has changed. If it fails, the file is as it was.\<close>

theorem db_initialize_stamps:
  assumes "redb_laws E db_disk rt_disk tbl_map wt_disk"
    and "db_initialize E db = (r, db')"
  shows "case r of
      Inl _ \<Rightarrow> db_disk db' = db_disk db
    | Inr _ \<Rightarrow> schema_ok (on_disk (db_disk db)) \<and> materialized (db_disk db')
        \<and> on_disk (db_disk db') = stamped (on_disk (db_disk db))"
  using assms by (rule redb_laws.db_initialize_disk)

theorem db_initialize_stamps_witness:
  "schema_ok (on_disk (mem_tables [])) \<and> materialized (mem_tables (snd (db_initialize mem_redb [])))
     \<and> on_disk (mem_tables (snd (db_initialize mem_redb []))) = stamped (on_disk (mem_tables []))"
proof -
  have "fst (db_initialize mem_redb []) = Inr ()" by code_simp
  then have "db_initialize mem_redb [] = (Inr (), snd (db_initialize mem_redb []))"
    by (simp add: prod_eq_iff)
  from db_initialize_stamps [OF mem.redb_laws_axioms this] show ?thesis by simp
qed

text \<open>\<open>clear_all\<close> leaves an empty, stamped database, or the database as it was: on success
  every table exists and holds nothing but the version stamps, whatever the stamps were before.\<close>

theorem db_clear_all_empties:
  assumes "redb_laws E db_disk rt_disk tbl_map wt_disk"
    and "db_clear_all E db = (r, db')"
  shows "case r of
      Inl _ \<Rightarrow> db_disk db' = db_disk db
    | Inr _ \<Rightarrow> materialized (db_disk db') \<and> on_disk (db_disk db') = stamped (\<lambda>_. Map.empty)"
  using assms by (rule redb_laws.db_clear_all_disk)

theorem db_clear_all_empties_witness:
  "materialized (mem_tables (snd (db_clear_all mem_redb sample_db)))
     \<and> on_disk (mem_tables (snd (db_clear_all mem_redb sample_db))) = stamped (\<lambda>_. Map.empty)"
proof -
  have "fst (db_clear_all mem_redb sample_db) = Inr ()" by code_simp
  then have "db_clear_all mem_redb sample_db = (Inr (), snd (db_clear_all mem_redb sample_db))"
    by (simp add: prod_eq_iff)
  from db_clear_all_empties [OF mem.redb_laws_axioms this] show ?thesis by simp
qed

text \<open>C25: a scan of the overlay is the ordered merge. Over any base reader that keeps its
  contract, the overlay's range yields, without error, the ascending entries of the base with the staged
  entries put over it, staged values winning and tombstones hiding.\<close>

theorem overlay_range_merges:
  assumes "reader_contract R contents ready" and "ready view" and "batch_ok batch" and "start \<le> end'"
  shows "\<exists>it kvs. overlay_range R (batch, view) table start end' = Inr it \<and> items it = map Inr kvs
     \<and> bt_ok kvs
     \<and> map_of kvs = overlay_map (contents view table) (staged_of batch table) |` {start..end'}"
  using reader_contract.overlay_range_law [OF assms(1), of "(batch, view)" start end' table] assms(2-4)
  by (simp add: overlay_inv_def overlay_contents_def scan_of_def)

theorem overlay_range_merges_witness:
  "\<exists>it kvs. overlay_range (read_view mem_redb) (sample_batch, sample_db) COMMITMENTS [0] [255] = Inr it
     \<and> items it = map Inr kvs \<and> bt_ok kvs
     \<and> map_of kvs = overlay_map (view_tables mem_tables sample_db COMMITMENTS) (staged_of sample_batch COMMITMENTS)
         |` {[0]..[255]}"
proof (rule overlay_range_merges [OF mem.read_view_contract])
  show "materialized (mem_tables sample_db)"
    by (simp add: materialized_def ALL_TABLES_def mem_tables_def sample_db_def)
  show "batch_ok sample_batch" by (simp add: sample_batch_def batch_ok_stage)
  show "([0] :: bytes) \<le> [255]" by simp
qed

end
