(* ===== verification/Forest_Properties.thy ===== *)
theory Forest_Properties
  imports Forest Memory_Engine
begin

text \<open>
  The properties of the codec and of the commitments table, over any store that keeps its contract,
  with witnesses on a write transaction of the engine in memory.
\<close>

section \<open>A concrete store\<close>

definition empty_db :: mem_disk where
  "empty_db = [(''commitments'', []), (''decoded'', []), (''frontier'', []), (''meta'', [])]"

definition empty_txn :: "mem_disk write_txn" where
  "empty_txn = write_txn_new empty_db"

abbreviation mem_txn :: "mem_disk write_txn store" where
  "mem_txn \<equiv> write_txn_store mem_redb"

lemma empty_txn_ready: "txn_ready mem_tables empty_txn"
  by (simp add: empty_txn_def materialized_def ALL_TABLES_def mem_tables_def empty_db_def)

lemma empty_txn_tables: "txn_tables mem_tables empty_txn = (\<lambda>_. Map.empty)"
proof
  fix t
  show "txn_tables mem_tables empty_txn t = Map.empty"
    by (cases t) (simp_all add: empty_txn_def on_disk_def mem_tables_def empty_db_def fun_eq_iff)
qed

lemma empty_txn_forest: "forest_ok (txn_tables mem_tables empty_txn)"
  unfolding empty_txn_tables by (rule forest_ok_empty)

definition sample_node :: node where
  "sample_node = \<lparr>nd_position = \<lparr>tree_number = 3, leaf_index = 5\<rparr>, nd_hash = 42, nd_block = 9,
     nd_body = Shield \<lparr>sh_npk = 7, sh_token = Erc20 (replicate 20 0x11), sh_value = 1000,
       sh_encrypted_bundle = [replicate 32 0], sh_shield_key = replicate 32 1\<rparr>\<rparr>"

lemma sample_node_storable: "storable sample_node" "node_at 3 5 sample_node"
  by (simp_all add: storable_def sample_node_def wf_node_def wf_position_def TREE_LEAF_CAPACITY_def
      wf_shield_def node_at_def node_bytes_def put_position_def put_u32_def bundle_bytes_def)

section \<open>The codec\<close>

text \<open>C22: the codec round-trips, exactly. A byte string (of a length a slice can have) decodes to a node
  if and only if the node satisfies its types' invariants and the byte string is what
  \<open>encode_node\<close> writes for it. So encoding loses nothing, and no two records stand for one node.\<close>

theorem node_codec_exact:
  assumes "length bs < 2 ^ 64"
  shows "decode_node bs = Inr n \<longleftrightarrow> wf_node n \<and> encode_node n = Some bs"
  using assms
  by (auto simp: encode_node_eq decode_node_node_bytes split: if_splits dest: decode_node_eq_InrD)

theorem node_codec_exact_witness:
  "decode_node (node_bytes sample_node) = Inr sample_node
     \<longleftrightarrow> wf_node sample_node \<and> encode_node sample_node = Some (node_bytes sample_node)"
  by (rule node_codec_exact) (use sample_node_storable(1) in \<open>simp add: storable_def\<close>)

section \<open>The commitments table\<close>

text \<open>\<open>insert_node\<close> keeps the forest's invariant and does what it says. At a free position it
  succeeds, the node is there afterwards and both counters are up to date; at a position that holds the
  same node it changes nothing; at one that holds another node it reports the conflict and changes
  nothing.\<close>

theorem insert_node_spec:
  assumes "store_contract R contents ready" and "ready s" and "forest_ok (contents s)"
    and "storable n" and "node_at t p n" and "unat t + 1 < 2 ^ 32"
  shows "case leaf_at (contents s) t p of
      None \<Rightarrow> \<exists>s'. insert_node R n s = (Inr (), s') \<and> ready s' \<and> stored n (contents s) (contents s')
    | Some n' \<Rightarrow> insert_node R n s = ((if n' = n then Inr () else Inl (Err (CommitmentConflict t p))), s)"
  using store_contract.insert_node_new [OF assms] store_contract.insert_node_existing [OF assms(1-5)]
  by (cases "leaf_at (contents s) t p") simp_all

theorem insert_node_spec_witness:
  "\<exists>s'. insert_node mem_txn sample_node empty_txn = (Inr (), s') \<and> txn_ready mem_tables s'
     \<and> stored sample_node (txn_tables mem_tables empty_txn) (txn_tables mem_tables s')"
  using insert_node_spec [OF mem.write_txn_contract empty_txn_ready empty_txn_forest sample_node_storable]
  by (simp add: empty_txn_tables leaf_at_def)

text \<open>Point reads answer from the represented forest: \<open>node\<close> returns the stored node,
  \<open>leaf_hash\<close> its hash although it decodes only the record's head, and a missing record is \<open>None\<close>,
  never an error.\<close>

theorem commitments_point_reads:
  assumes "reader_contract R contents ready" and "ready s" and "forest_ok (contents s)"
  shows "commitments_node R s t p = Inr (leaf_at (contents s) t p)
     \<and> leaf_hash R s t p = Inr (map_option nd_hash (leaf_at (contents s) t p))"
  using reader_contract.commitments_node_law [OF assms] reader_contract.leaf_hash_law [OF assms] by blast

lemma mem_txn_reader: "reader_contract mem_txn (txn_tables mem_tables) (txn_ready mem_tables)"
  by (rule mem.txn.reader_contract_axioms)

definition stored_txn :: "mem_disk write_txn" where
  "stored_txn = snd (insert_node mem_txn sample_node empty_txn)"

lemma stored_txn_props:
  "txn_ready mem_tables stored_txn"
  "stored sample_node (\<lambda>_. Map.empty) (txn_tables mem_tables stored_txn)"
  using store_contract.insert_node_new [OF mem.write_txn_contract empty_txn_ready empty_txn_forest
      sample_node_storable]
  by (auto simp: empty_txn_tables leaf_at_def stored_txn_def)

lemma stored_txn_forest:
  "forest_ok (txn_tables mem_tables stored_txn)"
  "leaf_at (txn_tables mem_tables stored_txn) 3 5 = Some sample_node"
  using stored_txn_props(2) sample_node_storable(2) by (simp_all add: stored_def)

theorem commitments_point_reads_witness:
  "commitments_node mem_txn stored_txn 3 5 = Inr (Some sample_node) \<and> leaf_hash mem_txn stored_txn 3 5 = Inr (Some 42)"
  using commitments_point_reads [OF mem_txn_reader stored_txn_props(1) stored_txn_forest(1), of 3 5]
  by (simp add: stored_txn_forest(2)) (simp add: sample_node_def)

text \<open>The leaf stream of a tree is complete and ordered. \<open>leaf_hashes\<close> yields, without error,
  each stored position of the tree once, in ascending order, with its leaf hash, and nothing of any
  other tree or namespace.\<close>

theorem leaf_hashes_complete:
  assumes "reader_contract R contents ready" and "ready s" and "forest_ok (contents s)"
  shows "\<exists>ls. leaf_hashes R s t = Inr (map Inr ls) \<and> bt_ok ls
     \<and> map_of ls = (\<lambda>p. map_option nd_hash (leaf_at (contents s) t p))"
  using assms by (rule reader_contract.leaf_hashes_law)

theorem leaf_hashes_complete_witness:
  "\<exists>ls. leaf_hashes mem_txn stored_txn 3 = Inr (map Inr ls) \<and> bt_ok ls
     \<and> map_of ls = (\<lambda>p. map_option nd_hash (leaf_at (txn_tables mem_tables stored_txn) 3 p))"
  by (rule leaf_hashes_complete [OF mem_txn_reader stored_txn_props(1) stored_txn_forest(1)])

text \<open>The counters are what they count. \<open>tree_length\<close> is one more than the highest stored
  position of the tree and \<open>latest_tree\<close> the highest tree with a leaf, or \<open>None\<close> when there is none.\<close>

theorem counters_exact:
  assumes "reader_contract R contents ready" and "ready s" and "forest_ok (contents s)"
  shows "(\<exists>len. tree_length R s t = Inr len \<and> unat len = tree_span (contents s) t)
     \<and> latest_tree R s = Inr (if forest_span (contents s) = 0 then None
          else Some (of_nat (forest_span (contents s) - 1)))"
proof -
  obtain len where "tree_length R s t = Inr len" "unat len = tree_span (contents s) t"
    by (rule reader_contract.tree_length_law [OF assms])
  moreover obtain count where c: "tree_count R s = Inr count" "unat count = forest_span (contents s)"
    by (rule reader_contract.tree_count_law [OF assms])
  have "count - 1 = of_nat (unat count - 1)" if "count \<noteq> 0"
    using that by (metis of_nat_diff of_nat_1 unat_gt_0 of_nat_unat ucast_id Suc_leI One_nat_def)
  with c have "latest_tree R s = Inr (if forest_span (contents s) = 0 then None
          else Some (of_nat (forest_span (contents s) - 1)))"
    by (auto simp: latest_tree_def unat_eq_0 [symmetric] simp flip: c(2))
  ultimately show ?thesis by blast
qed

theorem counters_exact_witness:
  "(\<exists>len. tree_length mem_txn stored_txn 3 = Inr len \<and> unat len = tree_span (txn_tables mem_tables stored_txn) 3)
     \<and> latest_tree mem_txn stored_txn = Inr (if forest_span (txn_tables mem_tables stored_txn) = 0 then None
          else Some (of_nat (forest_span (txn_tables mem_tables stored_txn) - 1)))"
  by (rule counters_exact [OF mem_txn_reader stored_txn_props(1) stored_txn_forest(1)])

text \<open>The nullifier set. After \<open>insert_nullifier\<close> exactly the given nullifier of the given tree
  has been added: \<open>is_nullified\<close> answers true for it and as before for every other, and the
  forest and its invariant are untouched.\<close>

theorem insert_nullifier_spec:
  assumes "store_contract R contents ready" and "ready s" and "forest_ok (contents s)"
  shows "\<exists>s'. insert_nullifier R n s = (Inr (), s') \<and> ready s' \<and> forest_ok (contents s')
     \<and> leaf_at (contents s') = leaf_at (contents s)
     \<and> (\<forall>t h. is_nullified R s' t h =
          (if t = nf_tree_number n \<and> h = nf_nullifier n then Inr True else is_nullified R s t h))"
proof -
  have R: "reader_contract R contents ready" using assms(1) by (rule store_contract.axioms(1))
  obtain s' where s': "insert_nullifier R n s = (Inr (), s')" "ready s'" "forest_ok (contents s')"
    "contents s' = set_entry (contents s) COMMITMENTS (nullifier_key (nf_tree_number n) (nf_nullifier n)) (Some [])"
    using store_contract.insert_nullifier_law [OF assms] by blast
  have "leaf_at (contents s') = leaf_at (contents s)"
    unfolding s'(4) by (simp add: fun_eq_iff leaf_at_other)
  moreover have "is_nullified R s' t h =
      (if t = nf_tree_number n \<and> h = nf_nullifier n then Inr True else is_nullified R s t h)" for t h
    using reader_contract.is_nullified_law [OF R] s'(2,4) assms(2) by (simp add: nullified_in_def)
  ultimately show ?thesis using s'(1-3) by blast
qed

theorem insert_nullifier_spec_witness:
  "\<exists>s'. insert_nullifier mem_txn \<lparr>nf_tree_number = 3, nf_nullifier = replicate 32 9\<rparr> stored_txn = (Inr (), s')
     \<and> is_nullified mem_txn s' 3 (replicate 32 9) = Inr True"
  using insert_nullifier_spec [OF mem.write_txn_contract stored_txn_props(1) stored_txn_forest(1),
      of "\<lparr>nf_tree_number = 3, nf_nullifier = replicate 32 9\<rparr>"]
  by fastforce

text \<open>The tree counter wraps at the last tree number. In a release build \<open>insert_node\<close> stores a
  node of tree \<open>2^32 - 1\<close> at a free position and succeeds, but \<open>tree + 1\<close> is zero, so the tree count,
  and with it \<open>latest_tree\<close>, is what it was before.\<close>

theorem insert_node_last_tree:
  assumes "store_contract R contents ready" and "ready s" and "forest_ok (contents s)"
    and "storable n" and "node_at (- 1) p n" and "leaf_at (contents s) (- 1) p = None"
  shows "\<exists>s'. insert_node R n s = (Inr (), s') \<and> tree_count R s' = tree_count R s
     \<and> commitments_node R s' (- 1) p = Inr (Some n)"
proof -
  have R: "reader_contract R contents ready" using assms(1) by (rule store_contract.axioms(1))
  obtain s' where s': "insert_node R n s = (Inr (), s')" "ready s'"
    "contents s' COMMITMENTS tree_count_key = contents s COMMITMENTS tree_count_key"
    "contents s' COMMITMENTS (commitment_key (- 1) p) = Some (node_bytes n)"
    using store_contract.insert_node_last [OF assms] by blast
  then show ?thesis
    using assms(2,4)
    by (simp add: tree_count_def commitments_node_def reader_contract.get_law [OF R] decode_storable)
qed

definition last_tree_node :: node where
  "last_tree_node = sample_node\<lparr>nd_position := \<lparr>tree_number = - 1, leaf_index = 0\<rparr>\<rparr>"

theorem insert_node_last_tree_witness:
  "\<exists>s'. insert_node mem_txn last_tree_node empty_txn = (Inr (), s')
     \<and> tree_count mem_txn s' = tree_count mem_txn empty_txn
     \<and> commitments_node mem_txn s' (- 1) 0 = Inr (Some last_tree_node)"
proof (rule insert_node_last_tree [OF mem.write_txn_contract empty_txn_ready empty_txn_forest])
  show "storable last_tree_node"
    by (simp add: last_tree_node_def storable_def sample_node_def wf_node_def wf_position_def
        TREE_LEAF_CAPACITY_def wf_shield_def node_bytes_def put_position_def put_u32_def bundle_bytes_def)
  show "node_at (- 1) 0 last_tree_node" by (simp add: last_tree_node_def node_at_def)
  show "leaf_at (txn_tables mem_tables empty_txn) (- 1) 0 = None" by (simp add: empty_txn_tables leaf_at_def)
qed

end
