(* ===== verification/Sync_Properties.thy ===== *)
theory Sync_Properties
  imports Sync_Window Forest_Properties
begin

text \<open>
  The Merkle walk and the pump end to end: a committed window keeps the database's invariant, a run moves
  the watermark to its target, and the snapshot's root is the root recomputed from the leaves. The last
  section states where the code does not keep what it promises.
\<close>

section \<open>The database's invariant\<close>

definition db_ok :: "merkle_config \<Rightarrow> merkle_accumulator_state json \<Rightarrow> disk \<Rightarrow> bool" where
  "db_ok C J d \<longleftrightarrow> materialized d \<and> forest_ok (on_disk d) \<and> snapshots_ok C J (on_disk d)"

definition watermark :: "disk \<Rightarrow> block_number option" where
  "watermark d = map_option from_be_bytes (on_disk d COMMITMENTS synced_block_key)"

lemma snapshots_ok_empty:
  assumes "m FRONTIER = Map.empty" and "m COMMITMENTS = Map.empty"
  shows "snapshots_ok C J m"
  using assms by (simp add: snapshots_ok_def snapshot_current_def tree_span_def has_leaf_def)

lemma stamped_tables: "T \<noteq> META \<Longrightarrow> stamped m T = m T"
  by (simp add: stamped_def SCHEMA_VERSIONS_def stamp_def set_entry_def)

lemma db_ok_fresh:
  assumes "materialized d" and "on_disk d = stamped (\<lambda>_. Map.empty)"
  shows "db_ok C J d"
proof -
  have tables: "on_disk d COMMITMENTS = Map.empty" "on_disk d FRONTIER = Map.empty"
    using assms(2) stamped_tables by simp_all
  have "forest_ok (on_disk d) = forest_ok (\<lambda>_. Map.empty)"
    by (rule commitments_cong(2)) (simp add: tables)
  with assms(1) tables show ?thesis
    by (simp add: db_ok_def forest_ok_empty snapshots_ok_empty)
qed

context redb_laws
begin

lemma commit_window_law:
  assumes J: "json_ok J" and d: "mc_depth C = 16" and ok: "db_ok C J (db_disk db)"
    and ns: "\<forall>n \<in> set ns. acceptable n"
    and run: "commit_window E C J ns nulls through db = (r, db')"
  shows "case r of
      Inl _ \<Rightarrow> db_disk db' = db_disk db
    | Inr _ \<Rightarrow> db_ok C J (db_disk db')
        \<and> window_committed C J ns nulls through (on_disk (db_disk db)) (on_disk (db_disk db'))"
proof (cases r)
  case (Inl e)
  then show ?thesis using db_write_outcome [OF run [unfolded commit_window_def]] by simp
next
  case (Inr u)
  obtain wt txn where t: "wt_disk wt = db_disk db" "db_disk db' = wt_disk (wt_inner txn)"
    "window_body (write_txn_store E) C J ns nulls through (write_txn_new wt) = (Inr (), txn)"
    using db_write_outcome [OF run [unfolded commit_window_def]] Inr by auto
  have start: "txn_ready wt_disk (write_txn_new wt)" "txn_tables wt_disk (write_txn_new wt) = on_disk (db_disk db)"
    using t(1) ok by (simp_all add: db_ok_def)
  have "txn_ready wt_disk txn \<and> window_committed C J ns nulls through (on_disk (db_disk db)) (txn_tables wt_disk txn)"
    using txn.window_body_law [OF start(1) J d _ _ ns t(3)] ok unfolding start(2) by (simp add: db_ok_def)
  then show ?thesis
    by (simp add: Inr db_ok_def t(2) txn_ready_def txn_tables_def window_committed_def)
qed

end

section \<open>The pump\<close>

text \<open>A source whose commitments are nodes the store can hold.\<close>

definition serves_acceptable :: "'src event_source \<Rightarrow> bool" where
  "serves_acceptable S \<longleftrightarrow>
     (\<forall>stream from' end' cursor src page src' n.
        es_fetch_page S stream from' end' cursor src = (Inr page, src') \<longrightarrow>
        Commitment n \<in> set (pg_events page) \<longrightarrow> acceptable n)"

lemma gather_nodes:
  "set (fst (fold gather events g)) = set (fst g) \<union> {n. Commitment n \<in> set events}"
proof (induction events arbitrary: g)
  case Nil
  then show ?case by simp
next
  case (Cons event events)
  then show ?case by (cases event; cases g) auto
qed

lemma fetch_stream_acceptable:
  assumes "serves_acceptable S" and "\<forall>n \<in> set (fst g). acceptable n"
    and "fetch_stream fuel S stream from' end' cursor g src = Some (Inr g', src')"
  shows "\<forall>n \<in> set (fst g'). acceptable n"
  using assms(2,3)
proof (induction fuel arbitrary: cursor g src)
  case 0
  then show ?case by simp
next
  case (Suc fuel)
  obtain r src1 where f: "es_fetch_page S stream from' end' cursor src = (r, src1)" by fastforce
  with Suc.prems(2) obtain page where r: "r = Inr page" by (cases r) auto
  have "acceptable n" if "Commitment n \<in> set (pg_events page)" for n
    using assms(1) that f unfolding r serves_acceptable_def by blast
  then have acc: "\<forall>n \<in> set (fst (fold gather (pg_events page) g)). acceptable n"
    using Suc.prems(1) by (auto simp: gather_nodes)
  show ?case
  proof (cases "pg_cursor page")
    case None
    with Suc.prems(2) f r acc show ?thesis by simp
  next
    case (Some c)
    with Suc.IH [OF acc] Suc.prems(2) f r show ?thesis by simp
  qed
qed

lemma fetch_window_acceptable:
  assumes "serves_acceptable S" and "fetch_window pages S from' end' src = Some (Inr (cs, ns), src')"
  shows "\<forall>n \<in> set cs. acceptable n"
proof -
  obtain g src1 where 1: "fetch_stream pages S Commitments from' end' None ([], []) src = Some (Inr g, src1)"
    "fetch_stream pages S Nullifiers from' end' None g src1 = Some (Inr (cs, ns), src')"
    using assms(2) by (auto simp: fetch_window_def split: option.splits prod.splits sum.splits)
  have "\<forall>n \<in> set (fst g). acceptable n" using fetch_stream_acceptable [OF assms(1) _ 1(1)] by simp
  from fetch_stream_acceptable [OF assms(1) this 1(2)] show ?thesis by simp
qed

lemma window_end_bounds:
  assumes "from' \<le> target"
  shows "from' \<le> window_end syncer from' target" and "window_end syncer from' target \<le> target"
proof -
  have "from' \<le> block_saturating_add from' w" for w
    using unsigned_less [of from', where 'a = nat] by (simp add: word_le_nat_alt unat_block_saturating_add)
  then show "from' \<le> window_end syncer from' target" using assms by (simp add: window_end_def)
qed (simp add: window_end_def)

lemma after_window:
  fixes target e :: block_number
  assumes "e \<le> target"
  shows "\<not> block_saturating_add e 1 \<le> target \<Longrightarrow> e = target"
    and "unat target < 2 ^ 64 - 1 \<Longrightarrow> unat (block_saturating_add e 1) = unat e + 1"
  using assms unsigned_less [of target, where 'a = nat]
  by (auto simp: word_le_nat_alt unat_block_saturating_add word_unat_eq_iff)

context redb_laws
begin

lemma sync_loop_law:
  assumes J: "json_ok J" and d: "mc_depth C = 16" and S: "serves_acceptable (sy_source syncer)"
    and "db_ok C J (db_disk db)"
    and "sync_loop windows pages E C J syncer target from' summary (src, db) = Some (r, src', db')"
  shows "db_ok C J (db_disk db') \<and>
    (case r of
       Inl _ \<Rightarrow> True
     | Inr result \<Rightarrow>
         if from' \<le> target then watermark (db_disk db') = Some target \<and> ss_synced_to result = target
         else db' = db \<and> result = summary)"
  using assms(4,5)
proof (induction windows arbitrary: from' summary src db)
  case 0
  then show ?case by (auto split: if_splits)
next
  case (Suc windows)
  show ?case
  proof (cases "from' \<le> target")
    case False
    with Suc.prems show ?thesis by auto
  next
    case True
    let ?last = "window_end syncer from' target"
    have le: "?last \<le> target" by (rule window_end_bounds(2) [OF True])
    obtain w where w: "fetch_window pages (sy_source syncer) from' ?last src = Some w"
      using Suc.prems(2) True by (cases "fetch_window pages (sy_source syncer) from' ?last src") (auto simp: Let_def)
    obtain fr src1 where fr: "w = (fr, src1)" by fastforce
    show ?thesis
    proof (cases fr)
      case (Inl e)
      with Suc.prems True w fr show ?thesis by (auto simp: Let_def)
    next
      case (Inr g)
      obtain cs ns where g: "g = (cs, ns)" by fastforce
      have acc: "\<forall>n \<in> set cs. acceptable n"
        using fetch_window_acceptable [OF S] w fr Inr g by metis
      obtain cr db1 where c: "commit_window E C J cs ns ?last db = (cr, db1)" by fastforce
      note law = commit_window_law [OF J d Suc.prems(1) acc c]
      show ?thesis
      proof (cases cr)
        case (Inl e)
        with law Suc.prems True w fr \<open>fr = Inr g\<close> g c show ?thesis by (auto simp: Let_def db_ok_def)
      next
        case (Inr u)
        let ?sum = "\<lparr>ss_commitments = ss_commitments summary + of_nat (length cs),
            ss_nullifiers = ss_nullifiers summary + of_nat (length ns), ss_synced_to = ?last\<rparr>"
        have rec: "sync_loop windows pages E C J syncer target (block_saturating_add ?last 1) ?sum (src1, db1)
            = Some (r, src', db')"
          using Suc.prems(2) True w fr \<open>fr = Inr g\<close> g c Inr by (simp add: Let_def)
        have db1: "db_ok C J (db_disk db1)" "watermark (db_disk db1) = Some ?last"
          using law Inr by (simp_all add: window_committed_def watermark_def)
        from Suc.IH [OF db1(1) rec] after_window(1) [OF le] db1(2) True show ?thesis
          by (auto split: sum.splits if_splits)
      qed
    qed
  qed
qed

end

lemma sync_loop_returns:
  assumes pages: "\<And>from' end' src. fetch_window pages (sy_source syncer) from' end' src \<noteq> None"
    and target: "unat target < 2 ^ 64 - 1" and fuel: "unat target + 1 - unat from' \<le> windows"
  shows "sync_loop windows pages E C J syncer target from' summary w \<noteq> None"
  using fuel
proof (induction windows arbitrary: from' summary w)
  case 0
  then show ?case by (auto simp: word_le_nat_alt)
next
  case (Suc windows)
  show ?case
  proof (cases "from' \<le> target")
    case True
    let ?last = "window_end syncer from' target"
    have le: "from' \<le> ?last" "?last \<le> target" by (rule window_end_bounds [OF True])+
    have "unat (block_saturating_add ?last 1) = unat ?last + 1" by (rule after_window(2) [OF le(2) target])
    then have fuel: "unat target + 1 - unat (block_saturating_add ?last 1) \<le> windows"
      using Suc.prems le by (simp add: word_le_nat_alt)
    obtain fr src1 where "fetch_window pages (sy_source syncer) from' ?last (fst w) = Some (fr, src1)"
      using pages [of from' ?last "fst w"] by auto
    then show ?thesis
      using True Suc.IH [OF fuel] by (auto simp: Let_def split: sum.splits prod.splits)
  qed simp
qed

section \<open>A concrete serialization\<close>

text \<open>Fixed-width fields one after the other; enough to run the theorems below.\<close>

fun words32 :: "bytes \<Rightarrow> u256 list" where
  "words32 [] = []"
| "words32 (b # bs) = from_be_bytes (take 32 (b # bs)) # words32 (drop 31 bs)"

definition state_json :: "merkle_accumulator_state json" where
  "state_json =
     \<lparr>js_to_vec = (\<lambda>st. Inr (to_be_bytes (as_next_index st) @ to_be_bytes (as_root st)
        @ concat (map to_be_bytes (as_filled_subtrees st)))),
      js_from_slice = (\<lambda>bs. Inr \<lparr>as_filled_subtrees = words32 (drop 40 bs),
        as_next_index = from_be_bytes (take 8 bs), as_root = from_be_bytes (take 32 (drop 8 bs))\<rparr>)\<rparr>"

lemma words32_append: "words32 (to_be_bytes w @ bs) = w # words32 bs"
proof -
  obtain b rest where w: "to_be_bytes w = b # rest"
    by (cases "to_be_bytes w") (use length_to_be_bytes [of w] in auto)
  have len: "length rest = 31" using length_to_be_bytes [of w] w by simp
  have "words32 (to_be_bytes w @ bs) = from_be_bytes (take 32 (to_be_bytes w @ bs)) # words32 (drop 31 (rest @ bs))"
    by (simp add: w del: take_append drop_append take_Suc_Cons)
  also have "take 32 (to_be_bytes w @ bs) = to_be_bytes w" by simp
  also have "drop 31 (rest @ bs) = bs" using len by simp
  finally show ?thesis by simp
qed

lemma words32_concat: "words32 (concat (map to_be_bytes ws)) = ws"
  by (induction ws) (simp_all add: words32_append del: words32.simps(2))

lemma state_json_ok: "json_ok state_json"
  by (simp add: json_ok_def state_json_def words32_concat)

section \<open>The walk\<close>

text \<open>C12: the recomputed root is the tree's root. For every tree of a well-formed table the walk
  returns, without error, the root over the leaves up to the highest stored position with the gaps zero-filled,
  the number of those positions, and how many of them are missing; \<open>validate\<close> reports exactly these and
  what the validator says of the root.\<close>

theorem validate_recomputes:
  assumes "reader_contract R contents ready" and "ready s" and "forest_ok (contents s)" and "mc_depth C = 16"
  shows "\<exists>report. validate R C is_valid s t = Inr report \<and> ti_tree report = t
     \<and> ti_root report = tree_root C (leaves_of C (contents s) t)
     \<and> unat (ti_leaf_count report) = tree_span (contents s) t
     \<and> unat (ti_missing report) = missing_of (contents s) t
     \<and> ti_valid report = is_valid t (of_nat (tree_span (contents s) t - 1)) (ti_root report)"
  by (rule reader_contract.validate_law [OF assms])

abbreviation sample_merkle :: merkle_config where
  "sample_merkle \<equiv> sample_config 16"

theorem validate_recomputes_witness:
  "\<exists>report. validate mem_txn sample_merkle (expected_root 0) stored_txn 3 = Inr report \<and> ti_tree report = 3
     \<and> ti_root report = tree_root sample_merkle (leaves_of sample_merkle (txn_tables mem_tables stored_txn) 3)
     \<and> unat (ti_leaf_count report) = tree_span (txn_tables mem_tables stored_txn) 3
     \<and> unat (ti_missing report) = missing_of (txn_tables mem_tables stored_txn) 3
     \<and> ti_valid report = expected_root 0 3 (of_nat (tree_span (txn_tables mem_tables stored_txn) 3 - 1)) (ti_root report)"
  by (rule validate_recomputes [OF mem_txn_reader stored_txn_props(1) stored_txn_forest(1)])
    (simp add: sample_config_def)



section \<open>The pump\<close>

text \<open>C6: a window lands whole or not at all, and keeps the invariant. When \<open>commit_window\<close> returns an
  error the tables are unchanged. When it succeeds, the forest holds exactly the old nodes and the
  window's, the nullifier set exactly the old and the window's, the watermark is the window's end, and
  every frontier snapshot is the accumulator of its tree's leaves, whether the window appended, left
  gaps, repeated nodes or filled gaps below the frontier.\<close>

theorem commit_window_correct:
  assumes "redb_laws E db_disk rt_disk tbl_map wt_disk" and "json_ok J" and "mc_depth C = 16"
    and "db_ok C J (db_disk db)" and "\<forall>n \<in> set commitments. acceptable n"
    and "commit_window E C J commitments nullifiers through db = (r, db')"
  shows "case r of
      Inl _ \<Rightarrow> db_disk db' = db_disk db
    | Inr _ \<Rightarrow> db_ok C J (db_disk db')
        \<and> window_committed C J commitments nullifiers through (on_disk (db_disk db)) (on_disk (db_disk db'))"
  using assms by (rule redb_laws.commit_window_law)

lemma empty_db_ok: "mc_depth C = 16 \<Longrightarrow> db_ok C J (mem_tables empty_db)"
  using empty_txn_ready empty_txn_forest empty_txn_tables
  by (simp add: db_ok_def empty_txn_def snapshots_ok_empty)

lemma sample_node_acceptable: "acceptable sample_node"
  using sample_node_storable(1) by (simp add: acceptable_def sample_node_def)

text \<open>Over a healthy engine a window of one new node commits.\<close>

lemma sample_merkle_depth: "mc_depth sample_merkle = 16"
  by (simp add: sample_config_def)

lemma one_node_window_commits:
  assumes ok: "db_ok sample_merkle state_json (mem_tables db)" and n: "acceptable n"
    and new: "leaf_at (on_disk (mem_tables db)) (tree_number (nd_position n)) (leaf_index (nd_position n)) = None"
  shows "\<exists>db'. commit_window mem_redb sample_merkle state_json [n] [] through db = (Inr (), db')"
proof -
  let ?txn = "write_txn_new db" and ?m = "on_disk (mem_tables db)"
  have start: "txn_ready mem_tables ?txn" "forest_ok (txn_tables mem_tables ?txn)" "txn_tables mem_tables ?txn = ?m"
    "snapshots_ok sample_merkle state_json ?m"
    using ok by (simp_all add: db_ok_def)
  obtain s1 where s1: "insert_node mem_txn n ?txn = (Inr (), s1)" "txn_ready mem_tables s1"
    "stored n ?m (txn_tables mem_tables s1)"
    using store_contract.insert_node_new [OF mem.write_txn_contract start(1,2), of n] n new
    by (auto simp: start(3) acceptable_def node_at_def)
  have w: "window_stored [n] ?m (txn_tables mem_tables s1)"
    using window_stored_Cons [OF s1(3) new window_stored_Nil] s1(3) by (simp add: stored_def)
  obtain s2 where s2: "advance_frontiers mem_txn sample_merkle state_json [n] s1 = (Inr (), s2)"
    "txn_ready mem_tables s2"
    using store_contract.advance_frontiers_law [OF mem.write_txn_contract s1(2) state_json_ok sample_merkle_depth _ w start(4)]
      start(2,3) by auto
  obtain s3 where "set_synced_block mem_txn through s2 = (Inr (), s3)"
    using store_contract.put_law [OF mem.write_txn_contract s2(2), of COMMITMENTS synced_block_key "to_be_bytes through"]
    by (auto simp: set_synced_block_def)
  with s1(1) s2(1) have "window_body mem_txn sample_merkle state_json [n] [] through ?txn = (Inr (), s3)"
    by (simp add: window_body_def st_bind_def)
  then show ?thesis
    by (simp add: commit_window_def db_write_def begin_write_def write_txn_commit_def mem_redb_def [THEN arg_cong, of redb_begin_write]
        mem_redb_def [THEN arg_cong, of redb_commit] st_map_err_def)
qed

theorem commit_window_correct_witness:
  "\<exists>db. commit_window mem_redb sample_merkle state_json [sample_node] [] 9 empty_db = (Inr (), db)
     \<and> window_committed sample_merkle state_json [sample_node] [] 9 (on_disk (mem_tables empty_db)) (on_disk (mem_tables db))"
proof -
  obtain db where db: "commit_window mem_redb sample_merkle state_json [sample_node] [] 9 empty_db = (Inr (), db)"
    using one_node_window_commits [OF empty_db_ok [OF sample_merkle_depth] sample_node_acceptable] empty_txn_tables
    by (auto simp: empty_txn_def leaf_at_def)
  note d = sample_merkle_depth
  from commit_window_correct [OF mem.redb_laws_axioms state_json_ok d empty_db_ok [OF d] _ db]
  show ?thesis using db sample_node_acceptable by simp
qed

text \<open>An empty source, for the witnesses.\<close>

definition empty_source :: "unit event_source" where
  "empty_source = \<lparr>es_latest_block = (\<lambda>s. (Inr 250000, s)),
     es_fetch_page = (\<lambda>_ _ _ _ s. (Inr \<lparr>pg_events = [], pg_cursor = None\<rparr>, s))\<rparr>"

definition empty_syncer :: "unit syncer" where
  "empty_syncer = syncer_new empty_source 5"

lemma empty_source_fetch: "0 < pages \<Longrightarrow> fetch_window pages empty_source from' end' src = Some (Inr ([], []), src)"
  by (cases pages) (simp_all add: fetch_window_def empty_source_def)

lemma empty_source_acceptable: "serves_acceptable (sy_source empty_syncer)"
  by (simp add: serves_acceptable_def empty_source_def empty_syncer_def syncer_new_def)

definition start_of :: "'src syncer \<Rightarrow> disk \<Rightarrow> block_number" where
  "start_of syncer d = (case watermark d of None \<Rightarrow> sy_floor syncer | Some block \<Rightarrow> block_saturating_add block 1)"

context redb_laws
begin

lemma synced_block_watermark:
  assumes "db_ok C J (db_disk db)" and "db_read E db = Inr view"
  shows "synced_block (read_view E) view = Inr (watermark (db_disk db))"
proof -
  have rt: "rt_disk view = db_disk db" using db_read_disk [OF assms(2)] .
  have "materialized (rt_disk view)" using assms(1) rt by (simp add: db_ok_def)
  moreover have "length bs = 8" if "on_disk (db_disk db) COMMITMENTS synced_block_key = Some bs" for bs
    using forest_mark [of "on_disk (db_disk db)" bs] that assms(1) by (simp add: db_ok_def)
  moreover have "rd_get (read_view E) view COMMITMENTS synced_block_key
      = Inr (on_disk (db_disk db) COMMITMENTS synced_block_key)" if "materialized (rt_disk view)"
    using view.get_law [OF that, of COMMITMENTS synced_block_key] unfolding view_tables_def rt .
  ultimately show ?thesis
    by (cases "on_disk (db_disk db) COMMITMENTS synced_block_key")
      (simp_all add: synced_block_def watermark_def del: read_view_simps)
qed

lemma sync_run_law:
  assumes J: "json_ok J" and d: "mc_depth C = 16" and S: "serves_acceptable (sy_source syncer)"
    and ok: "db_ok C J (db_disk db)"
    and run: "sync_run windows pages E C J syncer target (src, db) = Some (r, src', db')"
  shows "db_ok C J (db_disk db') \<and>
    (case r of
       Inl _ \<Rightarrow> True
     | Inr result \<Rightarrow>
         if start_of syncer (db_disk db) \<le> target
         then watermark (db_disk db') = Some target \<and> ss_synced_to result = target
         else db' = db)"
proof (cases "db_read E db")
  case (Inl e)
  with run ok show ?thesis by (auto simp: sync_run_def)
next
  case (Inr view)
  let ?from = "start_of syncer (db_disk db)"
  obtain sum where "sync_loop windows pages E C J syncer target ?from sum (src, db) = Some (r, src', db')"
    using run synced_block_watermark [OF ok Inr]
    by (cases "watermark (db_disk db)") (auto simp: sync_run_def Inr start_of_def)
  from sync_loop_law [OF J d S ok this] show ?thesis by (auto split: sum.splits if_splits)
qed

end

text \<open>C7: a run keeps the database's invariant and reaches its target. Whatever a run returns, the
  database it leaves satisfies the invariant of forest and snapshots; if it returns a summary and there
  was anything to sync, the watermark and the summary are the target block, otherwise the database is
  untouched. (An error after some windows leaves those windows committed.)\<close>

theorem sync_run_correct:
  assumes "redb_laws E db_disk rt_disk tbl_map wt_disk" and "json_ok J" and "mc_depth C = 16"
    and "serves_acceptable (sy_source syncer)" and "db_ok C J (db_disk db)"
    and "sync_run windows pages E C J syncer target (src, db) = Some (r, src', db')"
  shows "db_ok C J (db_disk db') \<and>
    (case r of
       Inl _ \<Rightarrow> True
     | Inr result \<Rightarrow>
         if start_of syncer (db_disk db) \<le> target
         then watermark (db_disk db') = Some target \<and> ss_synced_to result = target
         else db' = db)"
  using assms by (rule redb_laws.sync_run_law)

text \<open>C27: a run towards a block below \<open>2^64 - 1\<close> returns. If every stream of the source ends within
  \<open>pages\<close> pages, as many windows as there are blocks up to the target are enough fuel, whatever the
  window size, the database and the errors met.\<close>

theorem sync_run_returns:
  assumes "\<And>from' end' src. fetch_window pages (sy_source syncer) from' end' src \<noteq> None"
    and "unat target < 2 ^ 64 - 1" and "unat target + 1 \<le> windows"
  shows "sync_run windows pages E C J syncer target w \<noteq> None"
proof -
  have "sync_loop windows pages E C J syncer target from' summary w \<noteq> None" for from' summary
    using assms by (intro sync_loop_returns) simp_all
  then show ?thesis by (simp add: sync_run_def split: sum.split option.split)
qed

theorem sync_run_returns_witness:
  "sync_run 100 1 mem_redb sample_merkle state_json empty_syncer 99 ((), empty_db) \<noteq> None"
  by (rule sync_run_returns) (simp_all add: empty_syncer_def syncer_new_def empty_source_fetch)

text \<open>The window of an empty page commits over a healthy engine.\<close>

lemma empty_window_commits:
  assumes "db_ok C J (mem_tables db)"
  shows "\<exists>db'. commit_window mem_redb C J [] [] through db = (Inr (), db')"
proof -
  have ready: "txn_ready mem_tables (write_txn_new db)" using assms by (simp add: db_ok_def)
  obtain txn where "set_synced_block mem_txn through (write_txn_new db) = (Inr (), txn)"
    using store_contract.put_law [OF mem.write_txn_contract ready, of COMMITMENTS synced_block_key "to_be_bytes through"]
    by (auto simp: set_synced_block_def)
  then have "window_body mem_txn C J [] [] through (write_txn_new db) = (Inr (), txn)"
    by (simp add: window_body_def st_bind_def advance_frontiers_def group_leaves_def)
  then show ?thesis
    by (simp add: commit_window_def db_write_def begin_write_def write_txn_commit_def st_map_err_def
        mem_redb_def [THEN arg_cong, of redb_begin_write] mem_redb_def [THEN arg_cong, of redb_commit])
qed

lemma empty_sync_succeeds:
  assumes "db_ok sample_merkle state_json (mem_tables db)"
    and "sync_loop windows 1 mem_redb sample_merkle state_json empty_syncer target from' summary ((), db) = Some (r, w')"
  shows "\<exists>result. r = Inr result"
  using assms
proof (induction windows arbitrary: from' summary db)
  case 0
  then show ?case by (auto split: if_splits)
next
  case (Suc windows)
  obtain db' where c: "commit_window mem_redb sample_merkle state_json [] [] (window_end empty_syncer from' target) db = (Inr (), db')"
    using empty_window_commits [OF Suc.prems(1)] by blast
  have "db_ok sample_merkle state_json (mem_tables db')"
    using mem.commit_window_law [OF state_json_ok sample_merkle_depth Suc.prems(1) _ c] by simp
  from Suc.IH [OF this] Suc.prems(2) c show ?case
    by (auto simp: Let_def empty_syncer_def syncer_new_def empty_source_fetch split: if_splits)
qed

theorem sync_run_correct_witness:
  "\<exists>result db. sync_run 100 1 mem_redb sample_merkle state_json empty_syncer 99 ((), empty_db) = Some (Inr result, (), db)
     \<and> watermark (mem_tables db) = Some 99 \<and> ss_synced_to result = 99"
proof -
  have ok: "db_ok sample_merkle state_json (mem_tables empty_db)"
    by (rule empty_db_ok [OF sample_merkle_depth])
  have read: "db_read mem_redb empty_db = Inr empty_db" by (simp add: db_read_def begin_read_def mem_redb_def)
  have mark: "watermark (mem_tables empty_db) = None"
    by (simp add: watermark_def on_disk_def mem_tables_def empty_db_def)
  have "sync_loop 100 1 mem_redb sample_merkle state_json empty_syncer 99 from' summary ((), empty_db) \<noteq> None" for from' summary
    by (rule sync_loop_returns) (simp_all add: empty_syncer_def syncer_new_def empty_source_fetch)
  then obtain r db where loop: "sync_run 100 1 mem_redb sample_merkle state_json empty_syncer 99 ((), empty_db) = Some (r, (), db)"
    "\<exists>result. r = Inr result"
    using empty_sync_succeeds [OF ok]
    by (fastforce simp: sync_run_def read mem.synced_block_watermark [OF ok read] mark)
  then obtain result where r: "r = Inr result" by blast
  have "start_of empty_syncer (mem_tables empty_db) \<le> 99"
    by (simp add: start_of_def mark empty_syncer_def syncer_new_def)
  with sync_run_correct [OF mem.redb_laws_axioms state_json_ok sample_merkle_depth empty_source_acceptable ok loop(1)]
  show ?thesis using loop(1) r by auto
qed

section \<open>Where the code does not keep its promise\<close>


text \<open>A node stored in a gap below the tree's length changes one leaf and not the length.\<close>

lemma stored_in_gap:
  assumes ok: "forest_ok m" and st: "stored n m m'" and at: "node_at t p n"
    and gap: "unat p < tree_span m t"
  shows "tree_span m' t = tree_span m t" and "leaves_of C m' t = (leaves_of C m t)[unat p := nd_hash n]"
proof -
  have ok': "forest_ok m'" and leaf: "leaf_at m' u q = (if node_at u q n then Some n else leaf_at m u q)" for u q
    using st by (simp_all add: stored_def)
  have has: "has_leaf m' u q \<longleftrightarrow> has_leaf m u q \<or> u = t \<and> q = p" for u q
    using has_leaf_iff [OF ok'] has_leaf_iff [OF ok] leaf at by (auto simp: node_at_def)
  show span: "tree_span m' t = tree_span m t"
    using tree_span_add [OF has, of t] gap by simp
  show "leaves_of C m' t = (leaves_of C m t)[unat p := nd_hash n]"
  proof (rule nth_equalityI)
    fix q assume "q < length (leaves_of C m' t)"
    then have q: "q < tree_span m t" by (simp add: span)
    then have "unat (of_nat q :: u32) = q"
      using tree_span_capacity [OF ok, of t] by (simp add: unat_of_nat_small)
    then have "node_at t (of_nat q) n \<longleftrightarrow> q = unat p" using at by (auto simp: node_at_def)
    then show "leaves_of C m' t ! q = (leaves_of C m t)[unat p := nd_hash n] ! q"
      using q by (simp add: leaves_of_def span leaf_value_def leaf nth_list_update)
  qed (simp add: span)
qed

text \<open>C31: a snapshot can be stale without the walk noticing. \<open>merkle_root\<close> takes a snapshot whose
  length is the tree's as current, and says a backfill makes it stale. But a node inserted into a gap below
  the tree's length leaves the length as it was: \<open>merkle_root\<close> keeps returning the old snapshot's root,
  while the recomputation returns the root with the new leaf in place.\<close>

theorem merkle_root_serves_stale_snapshot:
  assumes "store_contract R contents ready" and "ready s" and "forest_ok (contents s)" and "mc_depth C = 16"
    and "contents s FRONTIER (to_be_bytes t) = Some bs" and "js_from_slice J bs = Inr st"
    and "unat (as_next_index st) = tree_span (contents s) t"
    and "storable n" and "node_at t p n" and "unat t + 1 < 2 ^ 32"
    and "leaf_at (contents s) t p = None" and "unat p < tree_span (contents s) t"
  shows "\<exists>s'. insert_node R n s = (Inr (), s') \<and> merkle_root R C J s' t = Inr (as_root st)
     \<and> map_sum id fst (walk_up R C s' t)
         = Inr (tree_root C ((leaves_of C (contents s) t)[unat p := nd_hash n]))"
proof -
  have R: "reader_contract R contents ready" using assms(1) by (rule store_contract.axioms(1))
  obtain s' where s': "insert_node R n s = (Inr (), s')" "ready s'" "stored n (contents s) (contents s')"
    using store_contract.insert_node_new [OF assms(1-3,8-11)] by blast
  have ok': "forest_ok (contents s')" and front: "contents s' FRONTIER = contents s FRONTIER"
    using s'(3) by (simp_all add: stored_def)
  note gap = stored_in_gap [OF assms(3) s'(3) assms(9,12)]
  obtain len where len: "tree_length R s' t = Inr len" "unat len = tree_span (contents s) t"
    using reader_contract.tree_length_law [OF R s'(2) ok', of t] gap(1) by metis
  have "as_next_index st = ucast len"
    using len(2) assms(7) by (simp add: word_unat_eq_iff)
  then have "merkle_root R C J s' t = Inr (as_root st)"
    using reader_contract.frontier_snapshot_law [OF R s'(2), of t] assms(5,6)
    by (simp add: merkle_root_def len(1) front Let_def)
  moreover have "map_sum id fst (walk_up R C s' t) = Inr (tree_root C ((leaves_of C (contents s) t)[unat p := nd_hash n]))"
    using reader_contract.walk_up_law [OF R s'(2) ok' assms(4), of t] gap(2) by fastforce
  ultimately show ?thesis using s'(1) by blast
qed

definition gap_node :: node where
  "gap_node = sample_node\<lparr>nd_position := \<lparr>tree_number = 3, leaf_index = 2\<rparr>\<rparr>"

definition old_state :: merkle_accumulator_state where
  "old_state = \<lparr>as_filled_subtrees = [], as_next_index = 6, as_root = 77\<rparr>"

definition snapshot_txn :: "mem_disk write_txn" where
  "snapshot_txn = snd (set_snapshot mem_txn 3 (projr (js_to_vec state_json old_state)) stored_txn)"

lemma stored_txn_span: "tree_span (txn_tables mem_tables stored_txn) 3 = 6"
proof -
  have "has_leaf (txn_tables mem_tables stored_txn) t p \<longleftrightarrow> has_leaf (\<lambda>_. Map.empty) t p \<or> t = 3 \<and> p = 5" for t p
    using stored_txn_props(2) sample_node_storable(2) has_leaf_iff [OF stored_txn_forest(1)]
    by (auto simp: stored_def has_leaf_def node_at_def leaf_at_def)
  from tree_span_add [OF this] show ?thesis by (simp add: tree_span_def has_leaf_def)
qed

lemma snapshot_txn_props:
  "txn_ready mem_tables snapshot_txn"
  "txn_tables mem_tables snapshot_txn
     = set_entry (txn_tables mem_tables stored_txn) FRONTIER (to_be_bytes (3 :: u32)) (Some (projr (js_to_vec state_json old_state)))"
  using store_contract.put_law [OF mem.write_txn_contract stored_txn_props(1)]
  by (metis set_snapshot_def snapshot_txn_def snd_conv)+

theorem merkle_root_serves_stale_snapshot_witness:
  "\<exists>s'. insert_node mem_txn gap_node snapshot_txn = (Inr (), s')
     \<and> merkle_root mem_txn sample_merkle state_json s' 3 = Inr 77
     \<and> map_sum id fst (walk_up mem_txn sample_merkle s' 3)
         = Inr (tree_root sample_merkle ((leaves_of sample_merkle (txn_tables mem_tables snapshot_txn) 3)[2 := 42]))"
proof -
  have other: "forest_ok (txn_tables mem_tables snapshot_txn)"
    "leaf_at (txn_tables mem_tables snapshot_txn) = leaf_at (txn_tables mem_tables stored_txn)"
    unfolding snapshot_txn_props(2) by (rule forest_ok_other [OF stored_txn_forest(1)]; simp)+
  have span: "tree_span (txn_tables mem_tables snapshot_txn) 3 = 6"
    using same_leaves(1) [OF other(1) stored_txn_forest(1)] other(2) stored_txn_span by simp
  have front: "txn_tables mem_tables snapshot_txn FRONTIER (to_be_bytes (3 :: u32)) = Some (projr (js_to_vec state_json old_state))"
    by (simp add: snapshot_txn_props(2))
  have dec: "js_from_slice state_json (projr (js_to_vec state_json old_state)) = Inr old_state"
    using state_json_ok by (metis json_ok_def sum.sel(2))
  have n: "storable gap_node" "node_at 3 2 gap_node"
    by (simp_all add: gap_node_def storable_def sample_node_def wf_node_def wf_position_def node_at_def
        TREE_LEAF_CAPACITY_def wf_shield_def node_bytes_def put_position_def put_u32_def bundle_bytes_def)
  have none: "leaf_at (txn_tables mem_tables snapshot_txn) 3 2 = None"
    unfolding other(2) using stored_txn_props(2) by (simp add: stored_def node_at_def sample_node_def leaf_at_def)
  have hash: "nd_hash gap_node = 42" by (simp add: gap_node_def sample_node_def)
  show ?thesis
    using merkle_root_serves_stale_snapshot [OF mem.write_txn_contract snapshot_txn_props(1) other(1)
        sample_merkle_depth front dec _ n _ none] span
    by (simp add: hash old_state_def)
qed



end
