(* ===== verification/Subsquid_Properties.thy ===== *)
theory Subsquid_Properties
  imports Subsquid Sync_Properties
begin

text \<open>
  What the Subsquid source promises the pump: every page moves the cursor to its last raw row, so a stream over a
  healthy indexer ends and yields each row's event once, in order, even where whole pages are skipped; the retry
  loop makes a bounded number of requests; mapped rows are well-formed nodes.
\<close>

section \<open>The retry loop\<close>

text \<open>The network before the attempt number \<open>k\<close>.\<close>

definition nth_try :: "('net, 'e, 'r) step \<Rightarrow> 'net \<Rightarrow> nat \<Rightarrow> 'net" where
  "nth_try once net k = ((\<lambda>net. snd (once net)) ^^ k) net"

lemma nth_try_Suc: "nth_try once net (Suc k) = nth_try once (snd (once net)) k"
  using funpow_swap1 [of "\<lambda>net. snd (once net)" k net] by (simp add: nth_try_def)

definition attempts_end :: "('net, sync_error, 'r) step \<Rightarrow> nat \<Rightarrow> 'net \<Rightarrow> nat \<Rightarrow> bool" where
  "attempts_end once n net k \<longleftrightarrow> k \<le> n
     \<and> list_all (\<lambda>j. \<exists>e. fst (once (nth_try once net j)) = Inl e) [0..<k]
     \<and> (k = n \<or> (\<exists>d. fst (once (nth_try once net k)) = Inr d))"

lemma retry_loop_attempts:
  "attempt \<le> m \<Longrightarrow> \<exists>k. attempts_end once (m - attempt) net k \<and> retry_loop once m attempt net = once (nth_try once net k)"
proof (induction once m attempt net rule: retry_loop.induct)
  case (1 once m attempt net)
  obtain r net' where r: "once net = (r, net')" by (cases "once net")
  show ?case
  proof (cases r)
    case (Inr d)
    then have "attempts_end once (m - attempt) net 0 \<and> retry_loop once m attempt net = once (nth_try once net 0)"
      using r by (simp add: attempts_end_def nth_try_def retry_loop.simps)
    then show ?thesis by blast
  next
    case (Inl e)
    show ?thesis
    proof (cases "attempt + 1 > m")
      case True
      then have "attempts_end once (m - attempt) net 0 \<and> retry_loop once m attempt net = once (nth_try once net 0)"
        using r Inl 1(2) by (simp add: attempts_end_def nth_try_def retry_loop.simps)
      then show ?thesis by blast
    next
      case False
      obtain k where k: "attempts_end once (m - (attempt + 1)) net' k"
        "retry_loop once m (attempt + 1) net' = once (nth_try once net' k)"
        using 1(1) [OF r [symmetric] Inl False] False by auto
      have shift: "nth_try once net (Suc j) = nth_try once net' j" for j by (simp add: nth_try_Suc r)
      have zero: "nth_try once net 0 = net" by (simp add: nth_try_def)
      have "list_all (\<lambda>j. \<exists>e. fst (once (nth_try once net j)) = Inl e) [0..<Suc k]"
        using k(1) by (simp add: attempts_end_def upt_conv_Cons map_Suc_upt [symmetric] list.pred_map comp_def
            shift zero r Inl del: upt_Suc)
      then have "attempts_end once (m - attempt) net (Suc k)"
        using k(1) False by (auto simp: attempts_end_def shift)
      moreover have "retry_loop once m attempt net = once (nth_try once net (Suc k))"
        using k(2) False by (simp add: retry_loop.simps [of once m attempt] r Inl shift)
      ultimately show ?thesis by blast
    qed
  qed
qed

section \<open>Mapped rows\<close>

definition mapped_nodes :: "commitment_row list \<Rightarrow> node list" where
  "mapped_nodes = List.map_filter (\<lambda>c. case map_commitment c of Some (Some (Commitment n)) \<Rightarrow> Some n | _ \<Rightarrow> None)"

definition mapped_nullifiers :: "nullifier_row list \<Rightarrow> nullified list" where
  "mapped_nullifiers = map (\<lambda>r. \<lparr>nf_tree_number = nr_tree_number r, nf_nullifier = to_be_bytes (nr_nullifier r)\<rparr>)"

lemma mapped_nodes_simps [simp]:
  "mapped_nodes [] = []"
  "mapped_nodes (c # cs) = (case map_commitment c of Some (Some (Commitment n)) \<Rightarrow> n # mapped_nodes cs | _ \<Rightarrow> mapped_nodes cs)"
  by (simp_all add: mapped_nodes_def List.map_filter_def split: option.split sync_event.split)

lemma mapped_nodes_append: "mapped_nodes (cs @ cs') = mapped_nodes cs @ mapped_nodes cs'"
  by (induction cs) (auto split: option.split sync_event.split)

lemma map_commitment_event: "map_commitment c = Some (Some e) \<Longrightarrow> \<exists>n. e = Commitment n"
  by (cases "cm_kind c") (auto simp: map_commitment_def bind_eq_Some_conv Let_def split: if_splits)

lemma map_commitments_eq:
  "list_all (\<lambda>c. map_commitment c \<noteq> None) cs \<Longrightarrow> map_commitments cs = Some (map Commitment (mapped_nodes cs))"
  by (induction cs) (auto dest: map_commitment_event split: option.split)

lemma gather_nullifiers: "fold gather (map map_nullifier rs) (cs, xs) = (cs, xs @ mapped_nullifiers rs)"
  by (induction rs arbitrary: xs) (simp_all add: map_nullifier_def mapped_nullifiers_def)

text \<open>The array lengths that the row types guarantee.\<close>

fun typed_kind :: "commitment_kind \<Rightarrow> bool" where
  "typed_kind (ShieldKind p k b) \<longleftrightarrow> length (sp_npk p) = 32 \<and> length (ti_token_address (sp_token p)) = 20
     \<and> length k = 32 \<and> list_all (\<lambda>w. length w = 32) b"
| "typed_kind (TransactKind c) \<longleftrightarrow> length (ci_iv (co_ciphertext c)) = 16 \<and> length (ci_tag (co_ciphertext c)) = 16
     \<and> list_all (\<lambda>w. length w = 32) (ci_data (co_ciphertext c))
     \<and> length (co_blinded_sender_viewing_key c) = 32 \<and> length (co_blinded_receiver_viewing_key c) = 32"
| "typed_kind Legacy \<longleftrightarrow> True"

section \<open>Pages of a healthy indexer\<close>

text \<open>The rows after a cursor, in the order the query asks for; the empty cursor is the start.\<close>

definition rows_after :: "('r \<Rightarrow> string) \<Rightarrow> string \<Rightarrow> 'r list \<Rightarrow> 'r list" where
  "rows_after ident cursor rows =
     (if cursor = [] then rows else tl (dropWhile (\<lambda>r. ident r \<noteq> cursor) rows))"

definition keyed :: "('r \<Rightarrow> string) \<Rightarrow> 'r list \<Rightarrow> bool" where
  "keyed ident rows \<longleftrightarrow> distinct (map ident rows) \<and> [] \<notin> set (map ident rows)"

text \<open>An indexer that answers every request with a success, holding the rows \<open>coms\<close> and \<open>nuls\<close> of each block range.\<close>

definition healthy ::
  "('net, 'j) http_client \<Rightarrow> subsquid_source \<Rightarrow> (u64 \<Rightarrow> u64 \<Rightarrow> commitment_row list) \<Rightarrow> (u64 \<Rightarrow> u64 \<Rightarrow> nullifier_row list)
     \<Rightarrow> bool" where
  "healthy H S coms nuls \<longleftrightarrow> (\<forall>cursor from' to' net.
     let vars = \<lparr>qv_id_gt = cursor, qv_block_number_gte = from', qv_block_number_lte = to', qv_limit = sq_page_limit S\<rparr>
     in (\<exists>resp. hc_post H (sq_url S) \<lparr>gq_query = COMMITMENTS_QUERY, gq_variables = Some vars\<rparr> net = (Inr resp, net)
          \<and> hr_status resp = 200
          \<and> hc_commitments H (hr_json resp) = Inr \<lparr>gr_data = Some \<lparr>cr_commitments =
              take (unat (sq_page_limit S)) (rows_after cm_id cursor (coms from' to'))\<rparr>, gr_errors = None\<rparr>)
      \<and> (\<exists>resp. hc_post H (sq_url S) \<lparr>gq_query = NULLIFIERS_QUERY, gq_variables = Some vars\<rparr> net = (Inr resp, net)
          \<and> hr_status resp = 200
          \<and> hc_nullifiers H (hr_json resp) = Inr \<lparr>gr_data = Some \<lparr>nr_nullifiers =
              take (unat (sq_page_limit S)) (rows_after nr_id cursor (nuls from' to'))\<rparr>, gr_errors = None\<rparr>))"

abbreviation cursor_text :: "string option \<Rightarrow> string" where
  "cursor_text c \<equiv> (case c of None \<Rightarrow> [] | Some t \<Rightarrow> t)"

lemma rows_after_last:
  assumes "keyed ident (pre @ page @ rest)" and "page \<noteq> []"
  shows "rows_after ident (ident (last page)) (pre @ page @ rest) = rest"
proof -
  let ?c = "ident (last page)" and ?pre = "pre @ butlast page"
  have split: "pre @ page @ rest = ?pre @ last page # rest" using assms(2) by simp
  have keys: "map ident (pre @ page @ rest) = map ident ?pre @ ?c # map ident rest"
    unfolding split by simp
  have D: "distinct (map ident ?pre @ ?c # map ident rest)"
    using assms(1) unfolding keyed_def keys by (rule conjunct1)
  have "[] \<notin> set (map ident ?pre @ ?c # map ident rest)"
    using assms(1) unfolding keyed_def keys by (rule conjunct2)
  then have "?c \<noteq> []" by auto
  have "?c \<notin> set (map ident ?pre)" using D unfolding distinct_append by (meson disjoint_iff list.set_intros(1))
  then have "ident r \<noteq> ?c" if "r \<in> set ?pre" for r using that by (metis image_eqI list.set_map)
  then have "dropWhile (\<lambda>r. ident r \<noteq> ?c) (?pre @ last page # rest) = last page # rest"
    by (subst dropWhile_append2) auto
  then show ?thesis unfolding split using \<open>?c \<noteq> []\<close> by (simp add: rows_after_def)
qed

text \<open>A stream whose pages are taken from one list of rows yields their events and ends after an empty page.\<close>

lemma fetch_stream_rows:
  assumes keyed: "keyed ident rows" and L: "0 < L"
    and append: "\<And>xs ys. events (xs @ ys) = events xs @ events ys"
    and fetch: "\<And>c. es_fetch_page S stream from' to' c net =
      (let page = take L (rows_after ident (cursor_text c) rows)
       in (Inr \<lparr>pg_events = events page, pg_cursor = last_id ident page\<rparr>, net))"
  shows "rows = pre @ rest \<Longrightarrow> rows_after ident (cursor_text c) rows = rest \<Longrightarrow> length rest < fuel \<Longrightarrow>
    fetch_stream fuel S stream from' to' c g net = Some (Inr (fold gather (events rest) g), net)"
proof (induction fuel arbitrary: pre rest c g)
  case 0
  then show ?case by simp
next
  case (Suc fuel)
  have nil: "events [] = []" using append [of "[]" "[]"] by simp
  show ?case
  proof (cases "rest = []")
    case True
    then show ?thesis using Suc.prems by (simp add: fetch Let_def last_id_def nil)
  next
    case False
    let ?page = "take L rest"
    have page: "?page \<noteq> []" using False L by simp
    have "rows = (pre @ ?page) @ drop L rest" using Suc.prems(1) by simp
    moreover have "rows_after ident (ident (last ?page)) rows = drop L rest"
      using rows_after_last [of ident pre ?page "drop L rest"] page keyed Suc.prems(1) by simp
    moreover have "length (drop L rest) < fuel" using Suc.prems(3) False L by (cases rest) auto
    ultimately have "fetch_stream fuel S stream from' to' (Some (ident (last ?page))) (fold gather (events ?page) g) net =
        Some (Inr (fold gather (events (drop L rest)) (fold gather (events ?page) g)), net)"
      by (intro Suc.IH [of "pre @ ?page" "drop L rest"]) simp_all
    moreover have "fold gather (events (drop L rest)) (fold gather (events ?page) g) = fold gather (events rest) g"
      using append [of ?page "drop L rest"] by simp
    ultimately show ?thesis
      using page Suc.prems(2) by (simp add: fetch Let_def last_id_def)
  qed
qed

lemma rows_after_subset:
  assumes "r \<in> set (rows_after ident c rows)"
  shows "r \<in> set rows"
proof (cases "c = []")
  case True
  then show ?thesis using assms by (simp add: rows_after_def)
next
  case False
  then have "r \<in> set (tl (dropWhile (\<lambda>r. ident r \<noteq> c) rows))" using assms by (simp add: rows_after_def)
  then have "r \<in> set (dropWhile (\<lambda>r. ident r \<noteq> c) rows)" by (cases "dropWhile (\<lambda>r. ident r \<noteq> c) rows") auto
  then show ?thesis by (rule set_dropWhileD)
qed

lemma post_retry_first: "post_once H read S \<lparr>gq_query = q, gq_variables = v\<rparr> net = (Inr d, net') \<Longrightarrow>
    post_retry H read S q v net = (Inr d, net')"
  by (simp add: post_retry_def retry_loop.simps)

lemma post_once_ok:
  assumes "hc_post H (sq_url S) body net = (Inr resp, net)" and "hr_status resp = 200"
    and "read (hr_json resp) = Inr \<lparr>gr_data = Some d, gr_errors = None\<rparr>"
  shows "post_once H read S body net = (Inr d, net)"
  using assms by (simp add: post_once_def)

lemma healthy_commitments:
  assumes "healthy H S coms nuls" and "list_all (\<lambda>c. map_commitment c \<noteq> None) (coms from' to')"
  shows "es_fetch_page (subsquid H S) Commitments from' to' c net =
    (let page = take (unat (sq_page_limit S)) (rows_after cm_id (cursor_text c) (coms from' to'))
     in (Inr \<lparr>pg_events = map Commitment (mapped_nodes page), pg_cursor = last_id cm_id page\<rparr>, net))"
proof -
  let ?page = "take (unat (sq_page_limit S)) (rows_after cm_id (cursor_text c) (coms from' to'))"
  have "post_once H (hc_commitments H) S \<lparr>gq_query = COMMITMENTS_QUERY, gq_variables = Some (request_vars S c from' to')\<rparr> net =
      (Inr \<lparr>cr_commitments = ?page\<rparr>, net)"
    using assms(1) unfolding healthy_def request_vars_def Let_def by (blast intro: post_once_ok)
  moreover have "list_all (\<lambda>c. map_commitment c \<noteq> None) ?page"
    using assms(2) by (auto simp: list_all_iff dest!: in_set_takeD rows_after_subset)
  ultimately show ?thesis
    by (simp add: subsquid_def subsquid_fetch_page_def Let_def st_bind_def post_retry_first map_commitments_eq)
qed

lemma healthy_nullifiers:
  assumes "healthy H S coms nuls"
  shows "es_fetch_page (subsquid H S) Nullifiers from' to' c net =
    (let page = take (unat (sq_page_limit S)) (rows_after nr_id (cursor_text c) (nuls from' to'))
     in (Inr \<lparr>pg_events = map map_nullifier page, pg_cursor = last_id nr_id page\<rparr>, net))"
proof -
  have "post_once H (hc_nullifiers H) S \<lparr>gq_query = NULLIFIERS_QUERY, gq_variables = Some (request_vars S c from' to')\<rparr> net =
      (Inr \<lparr>nr_nullifiers = take (unat (sq_page_limit S)) (rows_after nr_id (cursor_text c) (nuls from' to'))\<rparr>, net)"
    using assms(1) unfolding healthy_def request_vars_def Let_def by (blast intro: post_once_ok)
  then show ?thesis
    by (simp add: subsquid_def subsquid_fetch_page_def Let_def st_bind_def post_retry_first)
qed

text \<open>The rows of every range are keyed, short enough for the fuel, and at positions that can be normalized.\<close>

definition indexed :: "nat \<Rightarrow> (u64 \<Rightarrow> u64 \<Rightarrow> commitment_row list) \<Rightarrow> (u64 \<Rightarrow> u64 \<Rightarrow> nullifier_row list) \<Rightarrow> u64 \<Rightarrow> u64 \<Rightarrow> bool" where
  "indexed pages coms nuls from' to' \<longleftrightarrow> keyed cm_id (coms from' to') \<and> keyed nr_id (nuls from' to')
     \<and> list_all (\<lambda>c. map_commitment c \<noteq> None) (coms from' to')
     \<and> length (coms from' to') < pages \<and> length (nuls from' to') < pages"

lemma fetch_window_rows:
  assumes "healthy H S coms nuls" and "0 < sq_page_limit S" and "indexed pages coms nuls from' to'"
  shows "fetch_window pages (subsquid H S) from' to' net =
    Some (Inr (mapped_nodes (coms from' to'), mapped_nullifiers (nuls from' to')), net)"
proof -
  have L: "0 < unat (sq_page_limit S)" using assms(2) by (simp add: word_less_nat_alt)
  have "fetch_stream pages (subsquid H S) Commitments from' to' None ([], []) net =
      Some (Inr (fold gather (map Commitment (mapped_nodes (coms from' to'))) ([], [])), net)"
    by (rule fetch_stream_rows [of cm_id "coms from' to'" "unat (sq_page_limit S)" "\<lambda>rs. map Commitment (mapped_nodes rs)" _ _ _ _ _ "[]"])
      (use assms(3) L in \<open>simp_all add: indexed_def mapped_nodes_append healthy_commitments [OF assms(1)] rows_after_def\<close>)
  moreover have "fetch_stream pages (subsquid H S) Nullifiers from' to' None g net =
      Some (Inr (fold gather (map map_nullifier (nuls from' to')) g), net)" for g
    by (rule fetch_stream_rows [of nr_id "nuls from' to'" "unat (sq_page_limit S)" "map map_nullifier" _ _ _ _ _ "[]"])
      (use assms(3) L in \<open>simp_all add: indexed_def healthy_nullifiers [OF assms(1)] rows_after_def\<close>)
  ultimately show ?thesis
    by (simp add: fetch_window_def gather_commitments gather_nullifiers)
qed

section \<open>A sample indexer\<close>

type_synonym sample_json = "commitment_row list \<times> nullifier_row list"

definition sample_http :: "(u64 \<Rightarrow> u64 \<Rightarrow> commitment_row list) \<Rightarrow> (u64 \<Rightarrow> u64 \<Rightarrow> nullifier_row list) \<Rightarrow> (unit, sample_json) http_client" where
  "sample_http coms nuls = \<lparr>
     hc_post = (\<lambda>url req net. (Inr \<lparr>hr_status = 200, hr_text = None, hr_json =
       (case gq_variables req of None \<Rightarrow> ([], []) | Some v \<Rightarrow>
         (take (unat (qv_limit v)) (rows_after cm_id (qv_id_gt v) (coms (qv_block_number_gte v) (qv_block_number_lte v))),
          take (unat (qv_limit v)) (rows_after nr_id (qv_id_gt v) (nuls (qv_block_number_gte v) (qv_block_number_lte v)))))\<rparr>, net)),
     hc_commitments = (\<lambda>(cs, ns). Inr \<lparr>gr_data = Some \<lparr>cr_commitments = cs\<rparr>, gr_errors = None\<rparr>),
     hc_nullifiers = (\<lambda>(cs, ns). Inr \<lparr>gr_data = Some \<lparr>nr_nullifiers = ns\<rparr>, gr_errors = None\<rparr>),
     hc_block_number = (\<lambda>_. Inr \<lparr>gr_data = Some \<lparr>bn_transactions = []\<rparr>, gr_errors = None\<rparr>)\<rparr>"

lemma sample_http_healthy: "healthy (sample_http coms nuls) S coms nuls"
  by (simp add: healthy_def sample_http_def Let_def)

text \<open>Two rows and a page of one: the first page is a legacy row and carries no event.\<close>

definition sample_rows' :: "u64 \<Rightarrow> u64 \<Rightarrow> commitment_row list" where
  "sample_rows' from' to' =
     [\<lparr>cm_id = ''a'', cm_block_number = 5, cm_hash = 1, cm_tree_number = 0, cm_tree_position = 0, cm_kind = Legacy\<rparr>,
      \<lparr>cm_id = ''b'', cm_block_number = 5, cm_hash = 2, cm_tree_number = 0, cm_tree_position = 1,
       cm_kind = ShieldKind \<lparr>sp_npk = replicate 32 0, sp_value = 9, sp_token =
         \<lparr>ti_token_address = replicate 20 0, ti_token_type = TokenErc20\<rparr>\<rparr> (replicate 32 1) []\<rparr>]"

definition sample_source :: subsquid_source where
  "sample_source = (subsquid_new ''http'')\<lparr>sq_page_limit := 1\<rparr>"

lemma sample_indexed: "indexed 3 sample_rows' (\<lambda>_ _. []) from' to'"
proof -
  have "normalized 0 0 \<noteq> None" "normalized 0 1 \<noteq> None" by (simp_all add: normalized_eq)
  then show ?thesis
    by (auto simp: indexed_def keyed_def sample_rows'_def map_commitment_def)
qed

section \<open>Properties\<close>



text \<open>A run over a healthy indexer returns. For any target below the last block number, a window per block and
  a page per row are enough fuel, whatever the database does.\<close>

theorem subsquid_sync_returns:
  assumes "healthy H S coms nuls" and "0 < sq_page_limit S"
    and "\<And>from' to'. indexed pages coms nuls from' to'"
    and "unat target < 2 ^ 64 - 1" and "unat target + 1 \<le> windows"
  shows "sync_run windows pages E C J (syncer_new (subsquid H S) floor) target w \<noteq> None"
proof -
  have "sync_loop windows pages E C J (syncer_new (subsquid H S) floor) target from' summary w \<noteq> None" for from' summary
    by (rule sync_loop_returns) (use assms in \<open>simp_all add: syncer_new_def fetch_window_rows\<close>)
  then show ?thesis by (simp add: sync_run_def split: sum.split option.split)
qed

lemma subsquid_sync_returns_witness:
  "sync_run 100 3 mem_redb sample_merkle state_json
     (syncer_new (subsquid (sample_http sample_rows' (\<lambda>_ _. [])) sample_source) 5) 99 ((), empty_db) \<noteq> None"
  by (rule subsquid_sync_returns [OF sample_http_healthy])
    (simp_all add: sample_source_def sample_indexed)

text \<open>C29: a request is tried until it succeeds, at most one time more than the retry budget, and the result is that
  of the last attempt: the first success, or the last error once the budget is spent.\<close>

theorem post_retry_exact:
  "\<exists>k. attempts_end (post_once H read S \<lparr>gq_query = q, gq_variables = v\<rparr>) (sq_max_retries S) net k
    \<and> post_retry H read S q v net =
        post_once H read S \<lparr>gq_query = q, gq_variables = v\<rparr>
          (nth_try (post_once H read S \<lparr>gq_query = q, gq_variables = v\<rparr>) net k)"
  using retry_loop_attempts [of 0 "sq_max_retries S"] by (simp add: post_retry_def)

text \<open>C28: every commitment the mapping yields is a well-formed node: a valid position with the row's global leaf
  index, byte arrays of their types' lengths, and the row's hash and block.\<close>

theorem map_commitment_typed:
  assumes "typed_kind (cm_kind c)" and "map_commitment c = Some (Some e)"
  shows "\<exists>n. e = Commitment n \<and> wf_node n \<and> nd_hash n = cm_hash c \<and> nd_block n = cm_block_number c
    \<and> unat (tree_number (nd_position n)) * 65536 + unat (leaf_index (nd_position n)) =
        unat (cm_tree_number c) * 65536 + unat (cm_tree_position c)"
proof -
  obtain p where p: "normalized (cm_tree_number c) (cm_tree_position c) = Some p"
    using assms(2) by (auto simp: map_commitment_def bind_eq_Some_conv)
  have pos: "wf_position p" "unat (tree_number p) * 65536 + unat (leaf_index p) =
      unat (cm_tree_number c) * 65536 + unat (cm_tree_position c)"
    using normalized_position [OF p] by simp_all
  then show ?thesis
    using assms p by (cases "cm_kind c")
      (auto simp: map_commitment_def Let_def wf_node_def wf_shield_def wf_transact_def wf_ciphertext_def split: if_splits)
qed

lemma map_commitment_typed_witness:
  "\<exists>n. map_commitment (sample_rows' 5 6 ! 1) = Some (Some (Commitment n)) \<and> wf_node n \<and> nd_hash n = 2"
proof -
  have "normalized 0 1 \<noteq> None" by (simp add: normalized_eq)
  then obtain e where e: "map_commitment (sample_rows' 5 6 ! 1) = Some (Some e)"
    by (auto simp: sample_rows'_def map_commitment_def)
  have t: "typed_kind (cm_kind (sample_rows' 5 6 ! 1))" by (simp add: sample_rows'_def)
  from map_commitment_typed [OF t e] e show ?thesis by (auto simp: sample_rows'_def)
qed

end
