(* ===== verification/Field_Matrix.thy ===== *)
theory Field_Matrix
  imports Prelude Complex_Main
begin

text \<open>
  Matrices over a field as lists of rows, as \<^verbatim>\<open>poseidon-rust/src/parameters.rs\<close> has them: the products,
  the transpose and the inverse by Gaussian elimination without pivoting. The prime field of the code is
  any type of class \<open>field\<close>. The lemma the permutation needs is that a computed inverse is a right inverse;
  it is proved through the linear system the elimination keeps equivalent.
\<close>

section \<open>Definitions\<close>

type_synonym 'f matrix = "'f list list"

text \<open>The accumulator loop \<^verbatim>\<open>out += a * b\<close> over two zipped iterators.\<close>

definition dot :: "'f::field list \<Rightarrow> 'f list \<Rightarrow> 'f" where
  "dot xs ys = foldl (\<lambda>out (a, b). out + a * b) 0 (zip xs ys)"

definition mat_vec_mul :: "'f::field matrix \<Rightarrow> 'f list \<Rightarrow> 'f list" where
  "mat_vec_mul mat input = map (\<lambda>row. dot row input) mat"

definition mat_mat_mul :: "'f::field matrix \<Rightarrow> 'f matrix \<Rightarrow> 'f matrix" where
  "mat_mat_mul mat1 mat2 =
     map (\<lambda>row. map (\<lambda>col1. foldl (\<lambda>out (m1, m2). out + m1 * m2 ! col1) 0 (zip row mat2))
       [0..<length mat1]) mat1"

definition mat_transpose :: "'f matrix \<Rightarrow> 'f matrix" where
  "mat_transpose mat = map (\<lambda>col. map (\<lambda>row. row ! col) mat) [0..<length (mat ! 0)]"

text \<open>One pass of the first elimination loop: row \<open>j\<close> is subtracted from row \<open>row\<close>, in both matrices.\<close>

definition elim_step :: "nat \<Rightarrow> nat \<Rightarrow> nat \<Rightarrow> 'f::field matrix \<times> 'f matrix \<Rightarrow> 'f matrix \<times> 'f matrix" where
  "elim_step n row j = (\<lambda>(m, minv). let el = m ! row ! j in
     (m[row := map (\<lambda>col. if col < j then 0 else m ! row ! col - m ! j ! col * el) [0..<n]],
      minv[row := map (\<lambda>col. if row < col then 0 else minv ! row ! col - minv ! j ! col * el) [0..<n]]))"

text \<open>\<^verbatim>\<open>make 1 in diag\<close>; \<open>None\<close> is the \<^verbatim>\<open>unwrap\<close> of the inverse of zero.\<close>

definition scale_step :: "nat \<Rightarrow> nat \<Rightarrow> 'f::field matrix \<times> 'f matrix \<Rightarrow> ('f matrix \<times> 'f matrix) option" where
  "scale_step n row = (\<lambda>(m, minv).
     if m ! row ! row = 0 then None
     else let el_inv = inverse (m ! row ! row) in Some
       (m[row := map (\<lambda>col. if col < row then m ! row ! col
                            else if col = row then 1 else m ! row ! col * el_inv) [0..<n]],
        minv[row := map (\<lambda>col. if col \<le> row then minv ! row ! col * el_inv
                               else minv ! row ! col) [0..<n]]))"

definition forward_row :: "nat \<Rightarrow> nat \<Rightarrow> 'f::field matrix \<times> 'f matrix \<Rightarrow> ('f matrix \<times> 'f matrix) option" where
  "forward_row n row s = scale_step n row (fold (elim_step n row) [0..<row] s)"

primrec forward_rows :: "nat \<Rightarrow> nat \<Rightarrow> 'f::field matrix \<times> 'f matrix \<Rightarrow> ('f matrix \<times> 'f matrix) option" where
  "forward_rows n 0 s = Some s"
| "forward_rows n (Suc row) s = Option.bind (forward_rows n row s) (forward_row n row)"

text \<open>The second loop, as a release build has it: only the inverse is updated.\<close>

definition back_step :: "nat \<Rightarrow> 'f::field matrix \<Rightarrow> nat \<Rightarrow> nat \<Rightarrow> 'f matrix \<Rightarrow> 'f matrix" where
  "back_step n m row j minv = (let el = m ! row ! j in
     minv[row := map (\<lambda>col. minv ! row ! col - minv ! j ! col * el) [0..<n]])"

definition back_row :: "nat \<Rightarrow> 'f::field matrix \<Rightarrow> nat \<Rightarrow> 'f matrix \<Rightarrow> 'f matrix" where
  "back_row n m row minv = fold (back_step n m row) (rev [row + 1..<n]) minv"

definition identity :: "nat \<Rightarrow> 'f::field matrix" where
  "identity n = map (\<lambda>i. (replicate n 0)[i := 1]) [0..<n]"

definition mat_inverse :: "'f::field matrix \<Rightarrow> 'f matrix option" where
  "mat_inverse mat = (let n = length mat in
     Option.bind (forward_rows n n (mat, identity n)) (\<lambda>(m, minv).
       Some (fold (back_row n m) (rev [0..<n]) minv)))"

section \<open>Shapes and sums\<close>

definition square :: "nat \<Rightarrow> 'f matrix \<Rightarrow> bool" where
  "square n m \<longleftrightarrow> length m = n \<and> (\<forall>i<n. length (m ! i) = n)"

lemma foldl_add_sum:
  "foldl (\<lambda>out p. out + f p) (a :: 'f::comm_monoid_add) ps = a + sum_list (map f ps)"
  by (induction ps arbitrary: a) (simp_all add: add.assoc)

lemma dot_sum:
  assumes "length xs = n" and "length ys = n"
  shows "dot xs ys = (\<Sum>i<n. xs ! i * ys ! i)"
proof -
  have "dot xs ys = sum_list (map (\<lambda>(a, b). a * b) (zip xs ys))"
    using foldl_add_sum [of "\<lambda>(a, b). a * b" 0 "zip xs ys"]
    by (simp add: dot_def case_prod_unfold)
  also have "\<dots> = (\<Sum>i<n. xs ! i * ys ! i)"
    using assms by (simp add: sum_list_sum_nth atLeast0LessThan)
  finally show ?thesis .
qed

lemma length_mat_vec_mul [simp]: "length (mat_vec_mul m x) = length m"
  by (simp add: mat_vec_mul_def)

lemma mat_vec_mul_nth:
  "square n m \<Longrightarrow> length x = n \<Longrightarrow> i < n \<Longrightarrow> mat_vec_mul m x ! i = (\<Sum>j<n. m ! i ! j * x ! j)"
  by (simp add: mat_vec_mul_def square_def dot_sum)

lemma square_transpose: "square n m \<Longrightarrow> 0 < n \<Longrightarrow> square n (mat_transpose m)"
  by (simp add: square_def mat_transpose_def)

lemma transpose_nth:
  "square n m \<Longrightarrow> i < n \<Longrightarrow> j < n \<Longrightarrow> mat_transpose m ! i ! j = m ! j ! i"
  by (auto simp: square_def mat_transpose_def)

lemma square_mat_mat_mul: "length a = n \<Longrightarrow> square n (mat_mat_mul a b)"
  by (simp add: square_def mat_mat_mul_def)

lemma mat_mat_mul_nth:
  assumes "square n a" and "square n b" and "i < n" and "j < n"
  shows "mat_mat_mul a b ! i ! j = (\<Sum>k<n. a ! i ! k * b ! k ! j)"
proof -
  have "mat_mat_mul a b ! i ! j = sum_list (map (\<lambda>(m1, m2). m1 * m2 ! j) (zip (a ! i) b))"
    using assms foldl_add_sum [of "\<lambda>(m1, m2). m1 * m2 ! j" 0 "zip (a ! i) b"]
    by (simp add: mat_mat_mul_def square_def case_prod_unfold)
  also have "\<dots> = (\<Sum>k<n. a ! i ! k * b ! k ! j)"
    using assms by (simp add: sum_list_sum_nth square_def atLeast0LessThan)
  finally show ?thesis .
qed

section \<open>The computed inverse is a right inverse\<close>

text \<open>The value of a row at a vector.\<close>

definition row_at :: "nat \<Rightarrow> 'f::field list \<Rightarrow> 'f list \<Rightarrow> 'f" where
  "row_at n r x = (\<Sum>k<n. r ! k * x ! k)"

lemma row_at_sub:
  assumes "\<And>k. k < n \<Longrightarrow> r ! k = a ! k - b ! k * e"
  shows "row_at n r x = row_at n a x - e * row_at n b x"
proof -
  have "row_at n r x = (\<Sum>k<n. a ! k * x ! k - e * (b ! k * x ! k))"
    unfolding row_at_def by (intro sum.cong) (simp_all add: assms algebra_simps)
  then show ?thesis by (simp add: row_at_def sum_subtractf sum_distrib_left)
qed

lemma row_at_scale:
  assumes "\<And>k. k < n \<Longrightarrow> r ! k = a ! k * e"
  shows "row_at n r x = e * row_at n a x"
  using assms by (simp add: row_at_def sum_distrib_left mult_ac)

definition unit_row :: "nat \<Rightarrow> nat \<Rightarrow> 'f::field list" where
  "unit_row n i = (replicate n 0)[i := 1]"

lemma unit_row_nth: "k < n \<Longrightarrow> unit_row n i ! k = (if k = i then 1 else 0)"
  by (simp add: unit_row_def nth_list_update)

lemma length_unit_row [simp]: "length (unit_row n i) = n"
  by (simp add: unit_row_def)

lemma row_at_unit: "i < n \<Longrightarrow> row_at n (unit_row n i) y = y ! i"
proof -
  assume i: "i < n"
  have "row_at n (unit_row n i) y = (\<Sum>k<n. if k = i then y ! k else 0)"
    unfolding row_at_def by (rule sum.cong) (simp_all add: unit_row_nth)
  with i show ?thesis by (simp add: sum.delta)
qed

lemma square_identity: "square n (identity n)"
  by (simp add: square_def identity_def)

lemma identity_nth: "i < n \<Longrightarrow> identity n ! i = unit_row n i"
  by (simp add: identity_def unit_row_def)

text \<open>A processed pair of rows: unit upper triangular on the left, lower triangular on the right.\<close>

definition reduced :: "nat \<Rightarrow> 'f::field matrix \<Rightarrow> 'f matrix \<Rightarrow> nat \<Rightarrow> bool" where
  "reduced n m minv i \<longleftrightarrow> (\<forall>c<i. m ! i ! c = 0) \<and> m ! i ! i = 1 \<and> (\<forall>c. i < c \<and> c < n \<longrightarrow> minv ! i ! c = 0)"

definition row_step :: "nat \<Rightarrow> 'f::field list \<Rightarrow> 'f list \<Rightarrow> 'f \<Rightarrow> 'f list" where
  "row_step n a r el = map (\<lambda>c. a ! c - r ! c * el) [0..<n]"

lemma elim_step_row:
  assumes "square n m" and "square n minv" and "j < row" and "row < n"
    and "reduced n m minv j" and "length a = n" and "length b = n"
    and "\<forall>c<j. a ! c = 0" and "\<forall>c. row < c \<and> c < n \<longrightarrow> b ! c = 0"
  shows "elim_step n row j (m[row := a], minv[row := b]) =
    (m[row := row_step n a (m ! j) (a ! j)], minv[row := row_step n b (minv ! j) (a ! j)])"
  using assms by (auto simp: elim_step_def row_step_def reduced_def square_def Let_def
      intro!: arg_cong2 [where f = "list_update m"] arg_cong2 [where f = "list_update minv"])

lemma elim_fold:
  assumes sq: "square n m" "square n minv" and row: "row < n" and j: "j \<le> row"
    and red: "\<forall>i<row. reduced n m minv i"
    and unit: "minv ! row = unit_row n row"
  shows "\<exists>a b. fold (elim_step n row) [0..<j] (m, minv) = (m[row := a], minv[row := b])
    \<and> length a = n \<and> length b = n \<and> (\<forall>c<j. a ! c = 0) \<and> (\<forall>c. row < c \<and> c < n \<longrightarrow> b ! c = 0)
    \<and> (\<forall>x y. (\<forall>i<row. row_at n (m ! i) x = row_at n (minv ! i) y) \<longrightarrow>
         row_at n a x - row_at n b y = row_at n (m ! row) x - y ! row)"
  using j
proof (induction j)
  case 0
  have "fold (elim_step n row) [0..<0] (m, minv) = (m[row := m ! row], minv[row := minv ! row])"
    by simp
  moreover have "length (m ! row) = n" "length (minv ! row) = n" "\<forall>c<0. m ! row ! c = 0"
    "\<forall>c. row < c \<and> c < n \<longrightarrow> minv ! row ! c = 0"
    using sq row by (simp_all add: square_def unit unit_row_nth)
  ultimately show ?case
    using row_at_unit [OF row] unfolding unit by (metis (no_types, lifting))
next
  case (Suc j)
  then obtain a b where f: "fold (elim_step n row) [0..<j] (m, minv) = (m[row := a], minv[row := b])"
    and len: "length a = n" "length b = n" and za: "\<forall>c<j. a ! c = 0"
    and zb: "\<forall>c. row < c \<and> c < n \<longrightarrow> b ! c = 0"
    and eq: "\<forall>x y. (\<forall>i<row. row_at n (m ! i) x = row_at n (minv ! i) y) \<longrightarrow>
         row_at n a x - row_at n b y = row_at n (m ! row) x - y ! row"
    by auto
  let ?a = "row_step n a (m ! j) (a ! j)" and ?b = "row_step n b (minv ! j) (a ! j)"
  have jr: "j < row" using Suc.prems by simp
  have red_j: "reduced n m minv j" using red jr by simp
  have "fold (elim_step n row) [0..<Suc j] (m, minv) = (m[row := ?a], minv[row := ?b])"
    using f elim_step_row [OF sq jr row red_j len za zb] by simp
  moreover have "\<forall>c<Suc j. ?a ! c = 0"
    using za red_j jr row by (auto simp: row_step_def reduced_def less_Suc_eq)
  moreover have "\<forall>c. row < c \<and> c < n \<longrightarrow> ?b ! c = 0"
    using zb red_j jr by (auto simp: row_step_def reduced_def)
  moreover have "row_at n ?a x - row_at n ?b y = row_at n (m ! row) x - y ! row"
    if xy: "\<forall>i<row. row_at n (m ! i) x = row_at n (minv ! i) y" for x y
  proof -
    have "row_at n ?a x = row_at n a x - a ! j * row_at n (m ! j) x"
      and "row_at n ?b y = row_at n b y - a ! j * row_at n (minv ! j) y"
      by (intro row_at_sub; simp add: row_step_def)+
    with xy jr eq show ?thesis by auto
  qed
  ultimately show ?case by (intro exI [of _ ?a] exI [of _ ?b]) (simp add: row_step_def)
qed

definition forward_ok :: "nat \<Rightarrow> 'f::field matrix \<Rightarrow> nat \<Rightarrow> 'f matrix \<Rightarrow> 'f matrix \<Rightarrow> bool" where
  "forward_ok n mat r m minv \<longleftrightarrow> square n m \<and> square n minv
    \<and> (\<forall>i. r \<le> i \<and> i < n \<longrightarrow> m ! i = mat ! i \<and> minv ! i = unit_row n i)
    \<and> (\<forall>i<r. reduced n m minv i)
    \<and> (\<forall>x y. (\<forall>i<r. row_at n (m ! i) x = row_at n (minv ! i) y) \<longrightarrow> (\<forall>i<r. row_at n (mat ! i) x = y ! i))"

lemma forward_row_ok:
  assumes ok: "forward_ok n mat r m minv" and r: "r < n"
    and step: "forward_row n r (m, minv) = Some (m', minv')"
  shows "forward_ok n mat (Suc r) m' minv'"
proof -
  have sq: "square n m" "square n minv" and red: "\<forall>i<r. reduced n m minv i"
    and keep: "m ! r = mat ! r" "minv ! r = unit_row n r"
    using ok r by (auto simp: forward_ok_def)
  obtain a b where f: "fold (elim_step n r) [0..<r] (m, minv) = (m[r := a], minv[r := b])"
    and len: "length a = n" "length b = n" and za: "\<forall>c<r. a ! c = 0"
    and zb: "\<forall>c. r < c \<and> c < n \<longrightarrow> b ! c = 0"
    and eq: "\<forall>x y. (\<forall>i<r. row_at n (m ! i) x = row_at n (minv ! i) y) \<longrightarrow>
         row_at n a x - row_at n b y = row_at n (m ! r) x - y ! r"
    using elim_fold [OF sq r order.refl red keep(2)] by blast
  let ?e = "inverse (a ! r)"
  let ?a = "map (\<lambda>c. if c < r then a ! c else if c = r then 1 else a ! c * ?e) [0..<n]"
  let ?b = "map (\<lambda>c. if c \<le> r then b ! c * ?e else b ! c) [0..<n]"
  have rl: "r < length m" "r < length minv" using sq r by (simp_all add: square_def)
  from step f rl have pivot: "a ! r \<noteq> 0" and m': "m' = m[r := ?a]" and minv': "minv' = minv[r := ?b]"
    by (auto simp: forward_row_def scale_step_def Let_def cong: if_cong split: if_split_asm)
  have red': "reduced n m' minv' i" if "i < Suc r" for i
    using red za zb r rl that by (cases "i = r") (auto simp: reduced_def m' minv')
  have sys: "row_at n (mat ! i) x = y ! i"
    if xy: "\<forall>i<Suc r. row_at n (m' ! i) x = row_at n (minv' ! i) y" and i: "i < Suc r" for x y i
  proof -
    have old: "\<forall>i<r. row_at n (m ! i) x = row_at n (minv ! i) y"
    proof (intro allI impI)
      fix i assume "i < r"
      then show "row_at n (m ! i) x = row_at n (minv ! i) y"
        using xy [rule_format, of i] by (simp add: m' minv')
    qed
    have sa: "row_at n ?a x = ?e * row_at n a x"
      using za pivot by (intro row_at_scale) auto
    have sb: "row_at n ?b y = ?e * row_at n b y"
      using zb by (intro row_at_scale) auto
    have "row_at n ?a x = row_at n ?b y" using xy rl by (auto simp: m' minv')
    then have "?e * row_at n a x = ?e * row_at n b y" unfolding sa sb .
    then have "row_at n a x = row_at n b y" using pivot by simp
    moreover have "row_at n a x - row_at n b y = row_at n (m ! r) x - y ! r"
      using eq old by blast
    ultimately have "row_at n (mat ! r) x = y ! r" using keep(1) by simp
    moreover have "\<forall>i<r. row_at n (mat ! i) x = y ! i"
      using ok old unfolding forward_ok_def by blast
    ultimately show ?thesis using i by (auto simp: less_Suc_eq)
  qed
  have "square n m'" "square n minv'"
    using sq r by (auto simp: square_def m' minv' nth_list_update)
  moreover have "\<forall>i. Suc r \<le> i \<and> i < n \<longrightarrow> m' ! i = mat ! i \<and> minv' ! i = unit_row n i"
    using ok by (auto simp: forward_ok_def m' minv')
  ultimately show ?thesis
    unfolding forward_ok_def using red' sys by blast
qed

lemma forward_rows_ok:
  assumes "square n mat" and "r \<le> n" and "forward_rows n r (mat, identity n) = Some (m, minv)"
  shows "forward_ok n mat r m minv"
  using assms(2,3)
proof (induction r arbitrary: m minv)
  case 0
  with assms(1) show ?case
    by (auto simp: forward_ok_def square_identity identity_nth)
next
  case (Suc r)
  then obtain m1 minv1 where "forward_rows n r (mat, identity n) = Some (m1, minv1)"
    "forward_row n r (m1, minv1) = Some (m, minv)"
    by (auto simp: bind_eq_Some_conv)
  with Suc show ?case using forward_row_ok [of n mat r m1 minv1 m minv] by simp
qed

lemma back_steps:
  fixes m :: "'f::field matrix"
  assumes "row < length minv" and "row \<notin> set js" and "length (minv ! row) = n"
  shows "\<exists>b. fold (back_step n m row) js minv = minv[row := b] \<and> length b = n
    \<and> (\<forall>y. row_at n b y = row_at n (minv ! row) y - (\<Sum>j\<leftarrow>js. m ! row ! j * row_at n (minv ! j) y))"
  using assms(2)
proof (induction js rule: rev_induct)
  case Nil
  with assms show ?case by (intro exI [of _ "minv ! row"]) simp
next
  case (snoc j js)
  then obtain b where b: "fold (back_step n m row) js minv = minv[row := b]" "length b = n"
    "\<forall>y. row_at n b y = row_at n (minv ! row) y - (\<Sum>j\<leftarrow>js. m ! row ! j * row_at n (minv ! j) y)"
    by auto
  let ?b = "row_step n b (minv ! j) (m ! row ! j)"
  have "fold (back_step n m row) (js @ [j]) minv = minv[row := ?b]"
    using b snoc.prems assms(1) by (simp add: back_step_def row_step_def Let_def)
  moreover have "row_at n ?b y = row_at n b y - m ! row ! j * row_at n (minv ! j) y" for y
    by (intro row_at_sub) (simp add: row_step_def)
  ultimately show ?case
    using b(3) by (intro exI [of _ ?b]) (simp add: row_step_def algebra_simps)
qed

text \<open>Back substitution solves the triangular system row by row.\<close>

lemma back_rows:
  fixes m :: "'f::field matrix"
  assumes "square n minv" and "r \<le> n"
  shows "\<exists>f. fold (back_row n m) (rev [r..<n]) minv = f \<and> square n f \<and> (\<forall>i<r. f ! i = minv ! i)
    \<and> (\<forall>i y. r \<le> i \<and> i < n \<longrightarrow>
         row_at n (f ! i) y + (\<Sum>j\<leftarrow>[i + 1..<n]. m ! i ! j * row_at n (f ! j) y) = row_at n (minv ! i) y)"
  using assms(2)
proof (induction r rule: inc_induct)
  case base
  with assms(1) show ?case by simp
next
  case (step r)
  then obtain f where f: "fold (back_row n m) (rev [Suc r..<n]) minv = f" "square n f"
    "\<forall>i<Suc r. f ! i = minv ! i"
    and sol: "\<forall>i y. Suc r \<le> i \<and> i < n \<longrightarrow>
         row_at n (f ! i) y + (\<Sum>j\<leftarrow>[i + 1..<n]. m ! i ! j * row_at n (f ! j) y) = row_at n (minv ! i) y"
    by auto
  have r: "r < length f" "length (f ! r) = n" using f(2) step.hyps by (auto simp: square_def)
  obtain b where b: "back_row n m r f = f[r := b]" "length b = n"
    and eq: "\<forall>y. row_at n b y = row_at n (f ! r) y - (\<Sum>j\<leftarrow>rev [r + 1..<n]. m ! r ! j * row_at n (f ! j) y)"
    using back_steps [OF r(1) _ r(2), of "rev [r + 1..<n]" m] by (auto simp: back_row_def)
  let ?f = "f[r := b]"
  have "rev [r..<n] = rev [Suc r..<n] @ [r]" using step.hyps by (simp add: upt_conv_Cons)
  then have "fold (back_row n m) (rev [r..<n]) minv = ?f" using f(1) b(1) by simp
  moreover have "square n ?f" using f(2) b(2) r(1) by (auto simp: square_def nth_list_update)
  moreover have "row_at n (?f ! i) y + (\<Sum>j\<leftarrow>[i + 1..<n]. m ! i ! j * row_at n (?f ! j) y)
      = row_at n (minv ! i) y" if i: "r \<le> i" "i < n" for i y
  proof -
    have rest: "(\<Sum>j\<leftarrow>[i + 1..<n]. m ! i ! j * row_at n (?f ! j) y)
        = (\<Sum>j\<leftarrow>[i + 1..<n]. m ! i ! j * row_at n (f ! j) y)"
      using i by (intro arg_cong [where f = sum_list] map_cong) auto
    show ?thesis
    proof (cases "i = r")
      case True
      then show ?thesis
        using rest eq f(3) r(1) by (simp add: rev_map [symmetric] del: upt_Suc)
    next
      case False
      with rest sol i show ?thesis by simp
    qed
  qed
  ultimately show ?case using f(3) by auto
qed

lemma sum_split_at:
  fixes g :: "nat \<Rightarrow> 'f::field"
  assumes "i < n"
  shows "(\<Sum>k<n. g k) = (\<Sum>k<i. g k) + g i + (\<Sum>k\<in>{i + 1..<n}. g k)"
proof -
  have "sum g {0..<n} = sum g {0..<i} + sum g {i..<n}"
    using assms by (simp add: sum.atLeastLessThan_concat)
  also have "sum g {i..<n} = g i + sum g {Suc i..<n}"
    using assms by (rule sum.atLeast_Suc_lessThan)
  finally show ?thesis by (simp add: lessThan_atLeast0 add.assoc)
qed

lemma mat_inverse_right:
  fixes mat :: "'f::field matrix"
  assumes "square n mat" and "mat_inverse mat = Some mi" and "length y = n"
  shows "square n mi \<and> mat_vec_mul mat (mat_vec_mul mi y) = y"
proof -
  have n: "length mat = n" using assms(1) by (simp add: square_def)
  from assms(2) n obtain m minv where fw: "forward_rows n n (mat, identity n) = Some (m, minv)"
    and mi: "mi = fold (back_row n m) (rev [0..<n]) minv"
    by (auto simp: mat_inverse_def Let_def bind_eq_Some_conv)
  have ok: "forward_ok n mat n m minv" by (rule forward_rows_ok [OF assms(1) order.refl fw])
  then have sq: "square n m" "square n minv" and red: "\<forall>i<n. reduced n m minv i"
    by (auto simp: forward_ok_def)
  have sqi: "square n mi"
    and sol: "\<And>i. i < n \<Longrightarrow>
         row_at n (mi ! i) y + (\<Sum>j\<leftarrow>[i + 1..<n]. m ! i ! j * row_at n (mi ! j) y) = row_at n (minv ! i) y"
    using back_rows [OF sq(2), of 0 m] mi by auto
  let ?x = "mat_vec_mul mi y"
  have lx: "length ?x = n" using sqi by (simp add: square_def)
  have x: "?x ! i = row_at n (mi ! i) y" if "i < n" for i
    using mat_vec_mul_nth [OF sqi assms(3) that] by (simp add: row_at_def)
  have "row_at n (m ! i) ?x = row_at n (minv ! i) y" if i: "i < n" for i
  proof -
    have "row_at n (m ! i) ?x =
        (\<Sum>k<i. m ! i ! k * ?x ! k) + m ! i ! i * ?x ! i + (\<Sum>k\<in>{i + 1..<n}. m ! i ! k * ?x ! k)"
      unfolding row_at_def by (rule sum_split_at [OF i])
    also have "(\<Sum>k<i. m ! i ! k * ?x ! k) = 0"
      using red i by (intro sum.neutral) (auto simp: reduced_def)
    also have "(\<Sum>k\<in>{i + 1..<n}. m ! i ! k * ?x ! k) = (\<Sum>k\<in>{i + 1..<n}. m ! i ! k * row_at n (mi ! k) y)"
      using x by (intro sum.cong) auto
    also have "\<dots> = (\<Sum>j\<leftarrow>[i + 1..<n]. m ! i ! j * row_at n (mi ! j) y)"
      by (simp add: interv_sum_list_conv_sum_set_nat)
    finally show ?thesis using sol [OF i] red i x by (simp add: reduced_def)
  qed
  then have "\<forall>i<n. row_at n (mat ! i) ?x = y ! i"
    using ok unfolding forward_ok_def by blast
  then have "mat_vec_mul mat ?x = y"
    using assms(3) n mat_vec_mul_nth [OF assms(1) lx]
    by (intro nth_equalityI) (simp_all add: row_at_def)
  with sqi show ?thesis by simp
qed

end
