(* ===== verification/Sample_Field.thy ===== *)
theory Sample_Field
  imports Main
begin

text \<open>
  The field of three elements, as a datatype of class \<open>field\<close>: the concrete instance on which the theorems
  that hold over any field are applied.
\<close>

datatype gf3 = Zero3 | One3 | Two3

instantiation gf3 :: field
begin

definition zero_gf3 :: gf3 where "zero_gf3 = Zero3"

definition one_gf3 :: gf3 where "one_gf3 = One3"

fun plus_gf3 :: "gf3 \<Rightarrow> gf3 \<Rightarrow> gf3" where
  "plus_gf3 Zero3 y = y"
| "plus_gf3 x Zero3 = x"
| "plus_gf3 One3 One3 = Two3"
| "plus_gf3 Two3 Two3 = One3"
| "plus_gf3 One3 Two3 = Zero3"
| "plus_gf3 Two3 One3 = Zero3"

fun times_gf3 :: "gf3 \<Rightarrow> gf3 \<Rightarrow> gf3" where
  "times_gf3 Zero3 y = Zero3"
| "times_gf3 x Zero3 = Zero3"
| "times_gf3 One3 y = y"
| "times_gf3 x One3 = x"
| "times_gf3 Two3 Two3 = One3"

primrec uminus_gf3 :: "gf3 \<Rightarrow> gf3" where
  "uminus_gf3 Zero3 = Zero3"
| "uminus_gf3 One3 = Two3"
| "uminus_gf3 Two3 = One3"

definition minus_gf3 :: "gf3 \<Rightarrow> gf3 \<Rightarrow> gf3" where "minus_gf3 x y = x + - y"

definition inverse_gf3 :: "gf3 \<Rightarrow> gf3" where "inverse_gf3 x = x"

definition divide_gf3 :: "gf3 \<Rightarrow> gf3 \<Rightarrow> gf3" where "divide_gf3 x y = x * inverse y"

text \<open>A proof per element: associativity and distributivity by three case splits, the rest by one or two.\<close>

lemmas gf3_consts = zero_gf3_def one_gf3_def inverse_gf3_def

instance
proof
  fix u v w :: gf3
  have three: "u + v + w = u + (v + w) \<and> u * v * w = u * (v * w) \<and> (u + v) * w = u * w + v * w"
    by (cases u) ((cases v; cases w; simp)+)
  then show "u * v * w = u * (v * w)" "(u + v) * w = u * w + v * w" "u + v + w = u + (v + w)" by blast+
  have two: "u * v = v * u \<and> u + v = v + u" by (cases u) ((cases v; simp)+)
  then show "u * v = v * u" "u + v = v + u" by blast+
  show "- u + u = 0" "0 + u = u" "1 * u = u" by (cases u; simp add: gf3_consts)+
  show "u \<noteq> 0 \<Longrightarrow> inverse u * u = 1" by (cases u) (simp_all add: gf3_consts)
  show "(0 :: gf3) \<noteq> 1" "inverse (0 :: gf3) = 0" by (simp_all add: gf3_consts)
  show "u - v = u + - v" "u div v = u * inverse v" by (simp_all add: minus_gf3_def divide_gf3_def)
qed

end

end
