(* ===== verification/Poseidon.thy ===== *)
theory Poseidon
  imports Field_Matrix Sample_Field
begin

text \<open>
  The Poseidon permutation of \<^verbatim>\<open>poseidon-rust\<close>: \<^verbatim>\<open>PoseidonParams::new\<close> (\<^verbatim>\<open>parameters.rs\<close>) precomputes the
  sparse matrices and merged round constants of the optimised partial rounds, and
  \<^verbatim>\<open>Poseidon::permutation\<close> (\<^verbatim>\<open>poseidon.rs\<close>) runs with them. The reference is the textbook permutation:
  add the round constants, apply the power map to the whole state or to its first element, multiply by
  the MDS matrix. The main theorem says the two agree for every parameter set \<^verbatim>\<open>new\<close> accepts.
\<close>

section \<open>Definitions\<close>

datatype poseidon_error =
    InvalidParameters
  | UnsupportedInputLength nat
  | ParseString
  | OtherPoseidon string

record 'f poseidon_params =
  pp_t :: nat
  pp_d :: nat
  pp_rounds_f_beginning :: nat
  pp_rounds_p :: nat
  pp_rounds_f_end :: nat
  pp_rounds :: nat
  pp_mds :: "'f matrix"
  pp_round_constants :: "'f matrix"
  pp_opt_round_constants :: "'f matrix"
  pp_w_hat :: "'f matrix"
  pp_v :: "'f matrix"
  pp_m_i :: "'f matrix"

text \<open>One iteration of \<^verbatim>\<open>equivalent_matrices\<close>: the sparse factor \<open>(w_hat, v)\<close> of the current matrix, its
  dense factor \<open>m_i\<close>, and the next matrix.\<close>

definition equivalent_matrix_step ::
  "'f::field matrix \<Rightarrow> nat \<Rightarrow> 'f matrix \<times> 'f matrix \<times> 'f matrix \<times> 'f matrix
     \<Rightarrow> ('f matrix \<times> 'f matrix \<times> 'f matrix \<times> 'f matrix) option" where
  "equivalent_matrix_step mds_t t = (\<lambda>(w_hat, v, _, m_mul).
     let v' = map (\<lambda>col. m_mul ! 0 ! col) [1..<t];
         m_hat = map (\<lambda>row. map (\<lambda>col. m_mul ! row ! col) [1..<t]) [1..<t];
         w = map (\<lambda>row. m_mul ! row ! 0) [1..<t]
     in Option.bind (mat_inverse m_hat) (\<lambda>m_hat_inv.
       let w_hat' = mat_vec_mul m_hat_inv w;
           m_i = map (\<lambda>row. map (\<lambda>col.
             if row = 0 \<and> col = 0 then 1 else if row = 0 \<or> col = 0 then 0 else m_mul ! row ! col)
             [0..<t]) [0..<t]
       in Some (w_hat @ [w_hat'], v @ [v'], m_i, mat_mat_mul mds_t m_i)))"

primrec equivalent_matrix_rounds ::
  "'f::field matrix \<Rightarrow> nat \<Rightarrow> nat \<Rightarrow> ('f matrix \<times> 'f matrix \<times> 'f matrix \<times> 'f matrix) option" where
  "equivalent_matrix_rounds mds_t t 0 = Some ([], [], replicate t (replicate t 0), mds_t)"
| "equivalent_matrix_rounds mds_t t (Suc k) =
     Option.bind (equivalent_matrix_rounds mds_t t k) (equivalent_matrix_step mds_t t)"

text \<open>\<open>None\<close> is a panic: the transpose of an empty matrix, or a singular pivot.\<close>

definition equivalent_matrices ::
  "'f::field matrix \<Rightarrow> nat \<Rightarrow> nat \<Rightarrow> ('f matrix \<times> 'f matrix \<times> 'f matrix) option" where
  "equivalent_matrices mds t rounds_p =
     (if mds = [] then None
      else Option.bind (equivalent_matrix_rounds (mat_transpose mds) t rounds_p)
        (\<lambda>(w_hat, v, m_i, _). Some (mat_transpose m_i, v, w_hat)))"

definition constant_step ::
  "'f::field matrix \<Rightarrow> 'f matrix \<Rightarrow> nat \<Rightarrow> nat \<Rightarrow> 'f matrix \<times> 'f list \<Rightarrow> 'f matrix \<times> 'f list" where
  "constant_step mds_inv round_constants rounds_f_beginning i = (\<lambda>(opt, tmp).
     let inv_cip = mat_vec_mul mds_inv tmp;
         base = round_constants ! (rounds_f_beginning + i)
     in (opt[i + 1 := [inv_cip ! 0]],
         map (\<lambda>k. if k = 0 then base ! k else base ! k + inv_cip ! k) [0..<length base]))"

text \<open>\<open>None\<close> is a panic: no partial round, or a singular MDS matrix.\<close>

definition equivalent_round_constants ::
  "'f::field matrix \<Rightarrow> 'f matrix \<Rightarrow> nat \<Rightarrow> nat \<Rightarrow> 'f matrix option" where
  "equivalent_round_constants round_constants mds rounds_f_beginning rounds_p =
     (if rounds_p = 0 then None
      else Option.bind (mat_inverse mds) (\<lambda>mds_inv.
        let (opt, tmp) =
          fold (constant_step mds_inv round_constants rounds_f_beginning) (rev [0..<rounds_p - 1])
            (replicate rounds_p [], round_constants ! (rounds_f_beginning + rounds_p - 1))
        in Some (opt[0 := tmp])))"

definition poseidon_params_new ::
  "nat \<Rightarrow> nat \<Rightarrow> nat \<Rightarrow> nat \<Rightarrow> 'f::field matrix \<Rightarrow> 'f matrix \<Rightarrow> poseidon_error exn + 'f poseidon_params" where
  "poseidon_params_new t d rounds_f rounds_p mds round_constants =
     (if length mds \<noteq> t then Inl (Err InvalidParameters)
      else if list_ex (\<lambda>row. length row \<noteq> t) mds then Inl (Err InvalidParameters)
      else if length round_constants \<noteq> rounds_f + rounds_p then Inl (Err InvalidParameters)
      else if list_ex (\<lambda>row. length row \<noteq> t) round_constants then Inl (Err InvalidParameters)
      else if rounds_f mod 2 \<noteq> 0 then Inl (Err InvalidParameters)
      else let r = rounds_f div 2 in
        res_bind (ok_or Panic (equivalent_matrices mds t rounds_p)) (\<lambda>(m_i, v, w_hat).
        res_bind (ok_or Panic (equivalent_round_constants round_constants mds r rounds_p)) (\<lambda>opt.
        Inr \<lparr>pp_t = t, pp_d = d, pp_rounds_f_beginning = r, pp_rounds_p = rounds_p,
             pp_rounds_f_end = r, pp_rounds = rounds_f + rounds_p, pp_mds = mds,
             pp_round_constants = round_constants, pp_opt_round_constants = opt,
             pp_w_hat = w_hat, pp_v = v, pp_m_i = m_i\<rparr>)))"

definition sbox_p :: "'f::field poseidon_params \<Rightarrow> 'f \<Rightarrow> 'f" where
  "sbox_p p input =
     (if pp_d p = 3 then (let input2 = input * input in input2 * input)
      else if pp_d p = 5 then (let input2 = input * input; out = input2 * input2 in out * input)
      else if pp_d p = 7 then
        (let input2 = input * input; out = input2 * input2; out = out * input2 in out * input)
      else input ^ pp_d p)"

definition sbox :: "'f::field poseidon_params \<Rightarrow> 'f list \<Rightarrow> 'f list" where
  "sbox p input = map (sbox_p p) input"

definition add_rc :: "'f::field list \<Rightarrow> 'f list \<Rightarrow> 'f list" where
  "add_rc input rc = map (\<lambda>(a, b). a + b) (zip input rc)"

definition cheap_matmul :: "'f::field poseidon_params \<Rightarrow> 'f list \<Rightarrow> nat \<Rightarrow> 'f list" where
  "cheap_matmul p input r =
     foldl (\<lambda>out (inp, w). out + w * inp) (pp_mds p ! 0 ! 0 * input ! 0) (zip (drop 1 input) (pp_w_hat p ! r))
     # map (\<lambda>(inp, v). input ! 0 * v + inp) (zip (drop 1 input) (pp_v p ! r))"

definition full_round :: "'f::field poseidon_params \<Rightarrow> 'f list \<Rightarrow> nat \<Rightarrow> 'f list" where
  "full_round p s r = mat_vec_mul (pp_mds p) (sbox p (add_rc s (pp_round_constants p ! r)))"

definition partial_round :: "'f::field poseidon_params \<Rightarrow> nat \<Rightarrow> 'f list \<Rightarrow> nat \<Rightarrow> 'f list" where
  "partial_round p p_end s r =
     (let s = s[0 := sbox_p p (s ! 0)];
          s = (if r < p_end - 1
               then s[0 := s ! 0 + pp_opt_round_constants p ! (r + 1 - pp_rounds_f_beginning p) ! 0]
               else s)
      in cheap_matmul p s (p_end - r - 1))"

definition permutation :: "'f::field poseidon_params \<Rightarrow> 'f list \<Rightarrow> poseidon_error + 'f list" where
  "permutation p input =
     (if length input \<noteq> pp_t p then Inl InvalidParameters
      else let
        s = foldl (full_round p) input [0..<pp_rounds_f_beginning p];
        p_end = pp_rounds_f_beginning p + pp_rounds_p p;
        s = add_rc s (pp_opt_round_constants p ! 0);
        s = mat_vec_mul (pp_m_i p) s;
        s = foldl (partial_round p p_end) s [pp_rounds_f_beginning p..<p_end];
        s = foldl (full_round p) s [p_end..<pp_rounds p]
      in Inr s)"

section \<open>The reference permutation\<close>

definition reference_round :: "nat \<Rightarrow> nat \<Rightarrow> nat \<Rightarrow> 'f::field matrix \<Rightarrow> 'f matrix \<Rightarrow> 'f list \<Rightarrow> nat \<Rightarrow> 'f list" where
  "reference_round d rounds_f rounds_p mds rc s r =
     (let x = map2 (+) s (rc ! r) in
      mat_vec_mul mds
        (if rounds_f div 2 \<le> r \<and> r < rounds_f div 2 + rounds_p then x[0 := x ! 0 ^ d]
         else map (\<lambda>e. e ^ d) x))"

definition reference_permutation ::
  "nat \<Rightarrow> nat \<Rightarrow> nat \<Rightarrow> 'f::field matrix \<Rightarrow> 'f matrix \<Rightarrow> 'f list \<Rightarrow> 'f list" where
  "reference_permutation d rounds_f rounds_p mds rc s =
     foldl (reference_round d rounds_f rounds_p mds rc) s [0..<rounds_f + rounds_p]"

section \<open>The sparse factorisation\<close>

text \<open>A matrix applied from its transpose, as the factors are computed.\<close>

definition apply_t :: "nat \<Rightarrow> 'f::field matrix \<Rightarrow> 'f list \<Rightarrow> 'f list" where
  "apply_t t X x = map (\<lambda>i. \<Sum>j<t. X ! j ! i * x ! j) [0..<t]"

definition sparse :: "nat \<Rightarrow> 'f::field \<Rightarrow> 'f list \<Rightarrow> 'f list \<Rightarrow> 'f list \<Rightarrow> 'f list" where
  "sparse t a w v y =
     (a * y ! 0 + (\<Sum>i<t - 1. w ! i * y ! Suc i)) # map (\<lambda>i. y ! 0 * v ! i + y ! Suc i) [0..<t - 1]"

definition bordered :: "nat \<Rightarrow> 'f::field matrix \<Rightarrow> bool" where
  "bordered t D \<longleftrightarrow> square t D \<and> (\<forall>i<t. D ! i ! 0 = (if i = 0 then 1 else 0) \<and> D ! 0 ! i = (if i = 0 then 1 else 0))"

lemma length_apply_t [simp]: "length (apply_t t X x) = t"
  by (simp add: apply_t_def)

lemma apply_t_nth: "i < t \<Longrightarrow> apply_t t X x ! i = (\<Sum>j<t. X ! j ! i * x ! j)"
  by (simp add: apply_t_def)

lemma mat_vec_mul_transpose:
  assumes "square t X" and "0 < t" and "length x = t"
  shows "mat_vec_mul (mat_transpose X) x = apply_t t X x"
proof (rule nth_equalityI)
  show "length (mat_vec_mul (mat_transpose X) x) = length (apply_t t X x)"
    using square_transpose [OF assms(1,2)] by (simp add: square_def)
next
  fix i assume "i < length (mat_vec_mul (mat_transpose X) x)"
  then have "i < t" using square_transpose [OF assms(1,2)] by (simp add: square_def)
  then show "mat_vec_mul (mat_transpose X) x ! i = apply_t t X x ! i"
    using mat_vec_mul_nth [OF square_transpose [OF assms(1,2)] assms(3)] transpose_nth [OF assms(1)]
    by (simp add: apply_t_nth)
qed

lemma apply_t_transpose:
  assumes "square t m" and "0 < t" and "length x = t"
  shows "apply_t t (mat_transpose m) x = mat_vec_mul m x"
  using assms mat_vec_mul_nth [OF assms(1,3)] transpose_nth [OF assms(1)]
  by (intro nth_equalityI) (simp_all add: apply_t_nth square_def)

lemma apply_t_mult:
  assumes "square t P" and "square t Q"
  shows "apply_t t (mat_mat_mul P Q) x = apply_t t Q (apply_t t P x)"
proof (rule nth_equalityI)
  fix i assume "i < length (apply_t t (mat_mat_mul P Q) x)"
  then have i: "i < t" by simp
  have "apply_t t (mat_mat_mul P Q) x ! i = (\<Sum>j<t. \<Sum>k<t. P ! j ! k * Q ! k ! i * x ! j)"
    using i mat_mat_mul_nth [OF assms] by (simp add: apply_t_nth sum_distrib_right)
  also have "\<dots> = (\<Sum>k<t. \<Sum>j<t. P ! j ! k * Q ! k ! i * x ! j)" by (rule sum.swap)
  also have "\<dots> = apply_t t Q (apply_t t P x) ! i"
    using i by (simp add: apply_t_nth sum_distrib_left mult_ac)
  finally show "apply_t t (mat_mat_mul P Q) x ! i = apply_t t Q (apply_t t P x) ! i" .
qed simp

lemma apply_t_bordered_head: "bordered t D \<Longrightarrow> 0 < t \<Longrightarrow> apply_t t D x ! 0 = x ! 0"
  by (simp add: apply_t_nth bordered_def if_distrib [of "\<lambda>c. c * _"] sum.delta cong: if_cong)

text \<open>A bordered matrix commutes with any update of the first element.\<close>

lemma apply_t_bordered_update:
  assumes "bordered t D" and "0 < t" and "length x = t"
  shows "apply_t t D (x[0 := e]) = (apply_t t D x)[0 := e]"
proof (rule nth_equalityI)
  fix i assume "i < length (apply_t t D (x[0 := e]))"
  then have i: "i < t" by simp
  show "apply_t t D (x[0 := e]) ! i = (apply_t t D x)[0 := e] ! i"
  proof (cases "i = 0")
    case True
    then show ?thesis using apply_t_bordered_head [OF assms(1,2)] assms by simp
  next
    case False
    have "(\<Sum>j<t. D ! j ! i * x[0 := e] ! j) = (\<Sum>j<t. D ! j ! i * x ! j)"
      using assms i False by (intro sum.cong) (auto simp: bordered_def nth_list_update)
    with False i show ?thesis by (simp add: apply_t_nth)
  qed
qed simp

lemma sparse_factor:
  assumes sq: "square (Suc u) X"
    and D: "D = map (\<lambda>row. map (\<lambda>col. if row = 0 \<and> col = 0 then 1
             else if row = 0 \<or> col = 0 then 0 else X ! row ! col) [0..<Suc u]) [0..<Suc u]"
    and w: "\<And>i. i < u \<Longrightarrow> (\<Sum>j<u. X ! Suc i ! Suc j * w ! j) = X ! Suc i ! 0"
    and v: "\<And>i. i < u \<Longrightarrow> v ! i = X ! 0 ! Suc i"
    and x: "length x = Suc u"
  shows "apply_t (Suc u) X x = sparse (Suc u) (X ! 0 ! 0) w v (apply_t (Suc u) D x)"
proof (rule nth_equalityI)
  show "length (apply_t (Suc u) X x) = length (sparse (Suc u) (X ! 0 ! 0) w v (apply_t (Suc u) D x))"
    by (simp add: sparse_def)
next
  have "bordered (Suc u) D" by (auto simp: bordered_def square_def D simp del: upt_Suc)
  then have D0: "apply_t (Suc u) D x ! 0 = x ! 0" by (simp add: apply_t_bordered_head)
  have DS: "apply_t (Suc u) D x ! Suc i = (\<Sum>j<u. X ! Suc j ! Suc i * x ! Suc j)" if i: "i < u" for i
  proof -
    have Dn: "D ! j ! Suc i = (if j = 0 then 0 else X ! j ! Suc i)" if "j < Suc u" for j
      using that i by (auto simp: D simp del: upt_Suc)
    have "apply_t (Suc u) D x ! Suc i = (\<Sum>j<Suc u. (if j = 0 then 0 else X ! j ! Suc i) * x ! j)"
      using i Dn by (simp add: apply_t_nth del: sum.lessThan_Suc)
    then show ?thesis by (simp add: sum.lessThan_Suc_shift del: sum.lessThan_Suc)
  qed
  fix i assume "i < length (apply_t (Suc u) X x)"
  then have i: "i < Suc u" by simp
  show "apply_t (Suc u) X x ! i = sparse (Suc u) (X ! 0 ! 0) w v (apply_t (Suc u) D x) ! i"
  proof (cases i)
    case 0
    have "(\<Sum>k<u. w ! k * (\<Sum>j<u. X ! Suc j ! Suc k * x ! Suc j))
        = (\<Sum>k<u. \<Sum>j<u. w ! k * X ! Suc j ! Suc k * x ! Suc j)"
      by (simp add: sum_distrib_left mult_ac)
    also have "\<dots> = (\<Sum>j<u. \<Sum>k<u. w ! k * X ! Suc j ! Suc k * x ! Suc j)" by (rule sum.swap)
    also have "\<dots> = (\<Sum>j<u. (\<Sum>k<u. X ! Suc j ! Suc k * w ! k) * x ! Suc j)"
      by (simp add: sum_distrib_left sum_distrib_right mult_ac)
    also have "\<dots> = (\<Sum>j<u. X ! Suc j ! 0 * x ! Suc j)" using w by simp
    finally show ?thesis
      using 0 by (simp add: sparse_def apply_t_nth [of 0] sum.lessThan_Suc_shift D0 DS del: sum.lessThan_Suc)
  next
    case (Suc k)
    with i show ?thesis
      by (simp add: sparse_def apply_t_nth [of "Suc k" "Suc u" X] sum.lessThan_Suc_shift D0 DS v mult.commute del: sum.lessThan_Suc)
  qed
qed

text \<open>What one iteration establishes of the matrix \<open>X\<close> it starts from.\<close>

definition factors :: "nat \<Rightarrow> 'f::field \<Rightarrow> 'f matrix \<Rightarrow> 'f matrix \<Rightarrow> 'f list \<Rightarrow> 'f list \<Rightarrow> bool" where
  "factors t a X D w v \<longleftrightarrow> bordered t D \<and> length w = t - 1 \<and> length v = t - 1
    \<and> (\<forall>x. length x = t \<longrightarrow> apply_t t X x = sparse t a w v (apply_t t D x))"

lemma equivalent_matrix_step_factors:
  assumes t: "0 < t" and sq: "square t X" "square t mds_t" and a: "X ! 0 ! 0 = mds_t ! 0 ! 0"
    and step: "equivalent_matrix_step mds_t t (ws, vs, D0, X) = Some (ws', vs', D, X')"
  shows "\<exists>w v. ws' = ws @ [w] \<and> vs' = vs @ [v] \<and> factors t (mds_t ! 0 ! 0) X D w v
    \<and> X' = mat_mat_mul mds_t D \<and> square t X' \<and> X' ! 0 ! 0 = mds_t ! 0 ! 0"
proof -
  obtain u where u: "t = Suc u" using t by (cases t) auto
  let ?hat = "map (\<lambda>row. map (\<lambda>col. X ! row ! col) [1..<t]) [1..<t]"
  let ?w = "map (\<lambda>row. X ! row ! 0) [1..<t]" and ?v = "map (\<lambda>col. X ! 0 ! col) [1..<t]"
  from step obtain hat_inv where hat_inv: "mat_inverse ?hat = Some hat_inv"
    and ws': "ws' = ws @ [mat_vec_mul hat_inv ?w]" and vs': "vs' = vs @ [?v]"
    and D: "D = map (\<lambda>row. map (\<lambda>col. if row = 0 \<and> col = 0 then 1
             else if row = 0 \<or> col = 0 then 0 else X ! row ! col) [0..<t]) [0..<t]"
    and X': "X' = mat_mat_mul mds_t D"
    by (auto simp: equivalent_matrix_step_def Let_def bind_eq_Some_conv)
  have hat: "square u ?hat" and lw: "length ?w = u" by (simp_all add: square_def u del: upt_Suc)
  have inv: "square u hat_inv" "mat_vec_mul ?hat (mat_vec_mul hat_inv ?w) = ?w"
    using mat_inverse_right [OF hat hat_inv lw] by auto
  let ?wh = "mat_vec_mul hat_inv ?w"
  have lwh: "length ?wh = u" using inv(1) by (simp add: square_def)
  have wh: "(\<Sum>j<u. X ! Suc i ! Suc j * ?wh ! j) = X ! Suc i ! 0" if i: "i < u" for i
  proof -
    have "mat_vec_mul ?hat ?wh ! i = (\<Sum>j<u. X ! Suc i ! Suc j * ?wh ! j)"
      using mat_vec_mul_nth [OF hat lwh i] i by (simp add: u del: upt_Suc)
    with inv(2) i show ?thesis by (simp add: u del: upt_Suc)
  qed
  have bd: "bordered t D" by (auto simp: bordered_def square_def D u simp del: upt_Suc)
  have "apply_t t X x = sparse t (X ! 0 ! 0) ?wh ?v (apply_t t D x)" if "length x = t" for x
    using sparse_factor [of u X D ?wh ?v x] sq(1) D wh that unfolding u by (simp del: upt_Suc)
  then have "factors t (mds_t ! 0 ! 0) X D ?wh ?v"
    using bd lwh a by (simp add: factors_def u del: upt_Suc)
  moreover have "square t X'" unfolding X' by (rule square_mat_mat_mul) (use sq(2) in \<open>simp add: square_def\<close>)
  moreover have "X' ! 0 ! 0 = mds_t ! 0 ! 0"
  proof -
    have "X' ! 0 ! 0 = (\<Sum>k<t. mds_t ! 0 ! k * D ! k ! 0)"
      unfolding X' using mat_mat_mul_nth [OF sq(2) _ t t] bd by (simp add: bordered_def)
    also have "\<dots> = (\<Sum>k<t. if k = 0 then mds_t ! 0 ! k else 0)"
      using bd by (intro sum.cong) (auto simp: bordered_def)
    finally show ?thesis using t by (simp add: sum.delta)
  qed
  ultimately show ?thesis using ws' vs' X' by blast
qed

lemma equivalent_matrix_rounds_factors:
  assumes t: "0 < t" and sq: "square t mds_t"
    and "equivalent_matrix_rounds mds_t t k = Some (ws, vs, D, X)"
  shows "length ws = k \<and> length vs = k \<and> square t X \<and> X ! 0 ! 0 = mds_t ! 0 ! 0
    \<and> (\<exists>Xs Ds. Xs 0 = mds_t \<and> Xs k = X \<and> (0 < k \<longrightarrow> Ds (k - 1) = D)
         \<and> (\<forall>j<k. Xs (Suc j) = mat_mat_mul mds_t (Ds j) \<and> factors t (mds_t ! 0 ! 0) (Xs j) (Ds j) (ws ! j) (vs ! j)))"
  using assms(3)
proof (induction k arbitrary: ws vs D X)
  case 0
  with sq show ?case by (intro conjI exI [of _ "\<lambda>_. mds_t"]) auto
next
  case (Suc k)
  then obtain ws0 vs0 D0 X0 where old: "equivalent_matrix_rounds mds_t t k = Some (ws0, vs0, D0, X0)"
    and step: "equivalent_matrix_step mds_t t (ws0, vs0, D0, X0) = Some (ws, vs, D, X)"
    by (auto simp: bind_eq_Some_conv)
  from Suc.IH [OF old] obtain Xs Ds where len: "length ws0 = k" "length vs0 = k"
    and X0: "square t X0" "X0 ! 0 ! 0 = mds_t ! 0 ! 0"
    and Xs: "Xs 0 = mds_t" "Xs k = X0"
    and fac: "\<forall>j<k. Xs (Suc j) = mat_mat_mul mds_t (Ds j)
      \<and> factors t (mds_t ! 0 ! 0) (Xs j) (Ds j) (ws0 ! j) (vs0 ! j)"
    by blast
  from equivalent_matrix_step_factors [OF t X0(1) sq X0(2) step] obtain w v where
    wv: "ws = ws0 @ [w]" "vs = vs0 @ [v]" "factors t (mds_t ! 0 ! 0) X0 D w v"
    and X: "X = mat_mat_mul mds_t D" "square t X" "X ! 0 ! 0 = mds_t ! 0 ! 0"
    by blast
  have "(Xs(Suc k := X)) (Suc j) = mat_mat_mul mds_t ((Ds(k := D)) j)
      \<and> factors t (mds_t ! 0 ! 0) ((Xs(Suc k := X)) j) ((Ds(k := D)) j) (ws ! j) (vs ! j)"
    if "j < Suc k" for j
    using fac that wv X(1) Xs(2) len by (cases "j = k") (auto simp: nth_append)
  then show ?case
    using len wv(1,2) X(2,3) Xs(1)
    by (intro conjI exI [of _ "Xs(Suc k := X)"] exI [of _ "Ds(k := D)"]) auto
qed

lemma cheap_matmul_sparse:
  assumes "length s = t" and "0 < t" and "length (pp_w_hat p ! r) = t - 1" and "length (pp_v p ! r) = t - 1"
  shows "cheap_matmul p s r = sparse t (pp_mds p ! 0 ! 0) (pp_w_hat p ! r) (pp_v p ! r) s"
proof -
  obtain e s' where s: "s = e # s'" "length s' = t - 1" using assms(1,2) by (cases s) auto
  have "foldl (\<lambda>out (inp, w). out + w * inp) a (zip s' (pp_w_hat p ! r))
      = a + (\<Sum>i<t - 1. pp_w_hat p ! r ! i * s' ! i)" for a
    using foldl_add_sum [of "\<lambda>(inp, w). w * inp" a "zip s' (pp_w_hat p ! r)"] s(2) assms(3)
    by (simp add: case_prod_unfold sum_list_sum_nth atLeast0LessThan)
  moreover have "map (\<lambda>(inp, v). e * v + inp) (zip s' (pp_v p ! r))
      = map (\<lambda>i. e * pp_v p ! r ! i + s' ! i) [0..<t - 1]"
    using s(2) assms(4) by (intro nth_equalityI) simp_all
  ultimately show ?thesis by (simp add: cheap_matmul_def sparse_def s(1))
qed

section \<open>The merged round constants\<close>

definition vec_add :: "'f::field list \<Rightarrow> 'f list \<Rightarrow> 'f list" where
  "vec_add x y = map2 (+) x y"

lemma length_vec_add [simp]: "length (vec_add x y) = min (length x) (length y)"
  by (simp add: vec_add_def)

lemma vec_add_nth [simp]: "i < length x \<Longrightarrow> i < length y \<Longrightarrow> vec_add x y ! i = x ! i + y ! i"
  by (simp add: vec_add_def)

lemma add_rc_vec_add: "add_rc x y = vec_add x y"
  by (simp add: add_rc_def vec_add_def)

lemma mat_vec_mul_add:
  assumes "square t m" and "length x = t" and "length y = t"
  shows "mat_vec_mul m (vec_add x y) = vec_add (mat_vec_mul m x) (mat_vec_mul m y)"
proof (rule nth_equalityI)
  fix i assume "i < length (mat_vec_mul m (vec_add x y))"
  then have i: "i < t" using assms(1) by (simp add: square_def)
  have m: "length m = t" using assms(1) by (simp add: square_def)
  have "mat_vec_mul m (vec_add x y) ! i = (\<Sum>j<t. m ! i ! j * x ! j + m ! i ! j * y ! j)"
    using mat_vec_mul_nth [OF assms(1) _ i, of "vec_add x y"] assms
    by (simp add: distrib_left)
  also have "\<dots> = mat_vec_mul m x ! i + mat_vec_mul m y ! i"
    using mat_vec_mul_nth [OF assms(1,2) i] mat_vec_mul_nth [OF assms(1,3) i] by (simp add: sum.distrib)
  finally show "mat_vec_mul m (vec_add x y) ! i = vec_add (mat_vec_mul m x) (mat_vec_mul m y) ! i"
    using i m by simp
qed simp

text \<open>\<open>merged k\<close> is the vector of constants of round \<open>fin - k\<close> after the later rounds' constants were moved
  in front of it; \<open>moved k\<close> is what stays behind on the first element of the round after.\<close>

primrec merged :: "'f::field matrix \<Rightarrow> (nat \<Rightarrow> 'f list) \<Rightarrow> nat \<Rightarrow> nat \<Rightarrow> 'f list" where
  "merged N c fin 0 = c fin"
| "merged N c fin (Suc k) =
     (let base = c (fin - Suc k); y = mat_vec_mul N (merged N c fin k)
      in map (\<lambda>k. if k = 0 then base ! k else base ! k + y ! k) [0..<length base])"

definition moved :: "'f::field matrix \<Rightarrow> (nat \<Rightarrow> 'f list) \<Rightarrow> nat \<Rightarrow> nat \<Rightarrow> 'f" where
  "moved N c fin j = (if j < fin then mat_vec_mul N (merged N c fin (fin - Suc j)) ! 0 else 0)"

lemma merged_step:
  "j < fin \<Longrightarrow> merged N c fin (fin - j) =
     (let base = c j; y = mat_vec_mul N (merged N c fin (fin - Suc j))
      in map (\<lambda>k. if k = 0 then base ! k else base ! k + y ! k) [0..<length base])"
  using merged.simps(2) [of N c fin "fin - Suc j"] by (simp add: Suc_diff_Suc del: merged.simps)

lemma length_merged: "(\<And>j. j \<le> fin \<Longrightarrow> length (c j) = t) \<Longrightarrow> length (merged N c fin k) = t"
  by (cases k) (simp_all add: Let_def)

lemma constant_fold:
  assumes "i \<le> fin"
  shows "\<exists>opt. fold (constant_step N rc r) (rev [i..<fin]) (replicate (Suc fin) [], rc ! (r + fin))
      = (opt, merged N (\<lambda>j. rc ! (r + j)) fin (fin - i))
    \<and> length opt = Suc fin
    \<and> (\<forall>j. i \<le> j \<and> j < fin \<longrightarrow> opt ! Suc j = [moved N (\<lambda>j. rc ! (r + j)) fin j])"
  using assms
proof (induction i rule: inc_induct)
  case base
  then show ?case by simp
next
  case (step i)
  let ?c = "\<lambda>j. rc ! (r + j)"
  from step obtain opt where IH:
    "fold (constant_step N rc r) (rev [Suc i..<fin]) (replicate (Suc fin) [], rc ! (r + fin))
      = (opt, merged N ?c fin (fin - Suc i))"
    "length opt = Suc fin" "\<forall>j. Suc i \<le> j \<and> j < fin \<longrightarrow> opt ! Suc j = [moved N ?c fin j]"
    by blast
  have rev: "rev [i..<fin] = rev [Suc i..<fin] @ [i]" using step.hyps by (simp add: upt_conv_Cons)
  have "fold (constant_step N rc r) (rev [i..<fin]) (replicate (Suc fin) [], rc ! (r + fin))
      = (opt[i + 1 := [moved N ?c fin i]], merged N ?c fin (fin - i))"
    unfolding rev using IH(1) step.hyps
    by (simp add: constant_step_def Let_def moved_def merged_step)
  then show ?case
    using IH(2,3) step.hyps by (auto simp: nth_list_update)
qed

definition plain_partial :: "nat \<Rightarrow> 'f::field matrix \<Rightarrow> 'f list \<Rightarrow> 'f list \<Rightarrow> 'f list" where
  "plain_partial d mds c s = (let x = vec_add s c in mat_vec_mul mds (x[0 := x ! 0 ^ d]))"

definition first_power :: "nat \<Rightarrow> 'f::field \<Rightarrow> 'f list \<Rightarrow> 'f list" where
  "first_power d k s = s[0 := s ! 0 ^ d + k]"

lemma length_first_power [simp]: "length (first_power d k s) = length s"
  by (simp add: first_power_def)

lemma merged_rounds:
  assumes mds: "square t mds" and t: "0 < t" and N: "square t N"
    and inv: "\<And>y. length y = t \<Longrightarrow> mat_vec_mul mds (mat_vec_mul N y) = y"
    and c: "\<And>j. j \<le> fin \<Longrightarrow> length (c j) = t"
    and "i \<le> fin" and "length s = t"
  shows "foldl (\<lambda>s j. plain_partial d mds (c j) s) s [i..<Suc fin]
    = foldl (\<lambda>s j. mat_vec_mul mds (first_power d (moved N c fin j) s))
        (vec_add s (merged N c fin (fin - i))) [i..<Suc fin]"
  using assms(6,7)
proof (induction i arbitrary: s rule: inc_induct)
  case base
  then show ?case by (simp add: plain_partial_def first_power_def moved_def Let_def)
next
  case (step i)
  let ?s1 = "plain_partial d mds (c i) s"
  let ?tmp = "merged N c fin (fin - Suc i)"
  let ?x = "vec_add s (c i)"
  have ltmp: "length ?tmp = t" using length_merged [of fin c t] c by blast
  have ly: "length (mat_vec_mul N ?tmp) = t" using N by (simp add: square_def)
  have lc: "length (c i) = t" using c step.hyps by simp
  have l1: "length ?s1 = t" using mds by (simp add: plain_partial_def Let_def square_def)
  have "vec_add ?s1 ?tmp = mat_vec_mul mds (vec_add (?x[0 := ?x ! 0 ^ d]) (mat_vec_mul N ?tmp))"
    using mat_vec_mul_add [OF mds, of "?x[0 := ?x ! 0 ^ d]" "mat_vec_mul N ?tmp"] inv [OF ltmp] ly lc step.prems
    by (simp add: plain_partial_def Let_def)
  also have "vec_add (?x[0 := ?x ! 0 ^ d]) (mat_vec_mul N ?tmp)
      = first_power d (moved N c fin i) (vec_add s (merged N c fin (fin - i)))"
    using step.hyps step.prems lc ly t
    by (intro nth_equalityI) (auto simp: first_power_def moved_def merged_step Let_def nth_list_update)
  finally have "vec_add ?s1 ?tmp
      = mat_vec_mul mds (first_power d (moved N c fin i) (vec_add s (merged N c fin (fin - i))))" .
  moreover have "[i..<Suc fin] = i # [Suc i..<Suc fin]" using step.hyps by (simp add: upt_conv_Cons del: upt_Suc)
  ultimately show ?case using step.IH [OF l1] by (simp del: upt_Suc)
qed

section \<open>The optimised partial rounds\<close>

lemma sparse_rounds:
  assumes t: "0 < t" and mds: "square t mds" and X0: "Xs 0 = mat_transpose mds"
    and fac: "\<forall>j<Suc fin. Xs (Suc j) = mat_mat_mul (mat_transpose mds) (Ds j)
      \<and> factors t a (Xs j) (Ds j) (ws ! j) (vs ! j)"
    and s: "length s = t" and n: "n \<le> fin"
  shows "foldl (\<lambda>s j. sparse t a (ws ! (fin - j)) (vs ! (fin - j)) (first_power d (k j) s))
      (apply_t t (Ds fin) s) [0..<n]
    = apply_t t (Ds (fin - n)) (foldl (\<lambda>s j. mat_vec_mul mds (first_power d (k j) s)) s [0..<n])"
    (is "?opt n = apply_t t (Ds (fin - n)) (?ref n)")
  using n
proof (induction n)
  case 0
  then show ?case by simp
next
  case (Suc n)
  have lref: "length (?ref n) = t" for n
    using s mds by (cases n) (simp_all add: square_def)
  have bd: "bordered t (Ds (fin - n))" using fac by (simp add: factors_def)
  have "?opt (Suc n) = sparse t a (ws ! (fin - n)) (vs ! (fin - n))
      (first_power d (k n) (apply_t t (Ds (fin - n)) (?ref n)))"
    using Suc by simp
  also have "first_power d (k n) (apply_t t (Ds (fin - n)) (?ref n))
      = apply_t t (Ds (fin - n)) (first_power d (k n) (?ref n))"
    using apply_t_bordered_update [OF bd t lref] apply_t_bordered_head [OF bd t]
    by (simp add: first_power_def)
  also have "sparse t a (ws ! (fin - n)) (vs ! (fin - n)) \<dots> = apply_t t (Xs (fin - n)) (first_power d (k n) (?ref n))"
    using fac lref by (simp add: factors_def)
  also have "Xs (fin - n) = mat_mat_mul (mat_transpose mds) (Ds (fin - Suc n))"
    using fac Suc.prems by (metis Suc_diff_Suc Suc_le_lessD diff_less_Suc less_SucI)
  also have "apply_t t \<dots> (first_power d (k n) (?ref n))
      = apply_t t (Ds (fin - Suc n)) (mat_vec_mul mds (first_power d (k n) (?ref n)))"
    using apply_t_mult [OF square_transpose [OF mds t], of "Ds (fin - Suc n)"] fac lref
      apply_t_transpose [OF mds t] by (simp add: factors_def bordered_def)
  finally show ?case by simp
qed

lemma sparse_rounds_all:
  assumes t: "0 < t" and mds: "square t mds" and X0: "Xs 0 = mat_transpose mds"
    and fac: "\<forall>j<Suc fin. Xs (Suc j) = mat_mat_mul (mat_transpose mds) (Ds j)
      \<and> factors t a (Xs j) (Ds j) (ws ! j) (vs ! j)"
    and s: "length s = t"
  shows "foldl (\<lambda>s j. sparse t a (ws ! (fin - j)) (vs ! (fin - j)) (first_power d (k j) s))
      (apply_t t (Ds fin) s) [0..<Suc fin]
    = foldl (\<lambda>s j. mat_vec_mul mds (first_power d (k j) s)) s [0..<Suc fin]"
proof -
  let ?ref = "foldl (\<lambda>s j. mat_vec_mul mds (first_power d (k j) s)) s [0..<fin]"
  have lref: "length ?ref = t" using s mds by (cases fin) (simp_all add: square_def)
  have bd: "bordered t (Ds 0)" using fac by (simp add: factors_def)
  have "first_power d (k fin) (apply_t t (Ds 0) ?ref) = apply_t t (Ds 0) (first_power d (k fin) ?ref)"
    using apply_t_bordered_update [OF bd t lref] apply_t_bordered_head [OF bd t]
    by (simp add: first_power_def)
  moreover have "sparse t a (ws ! 0) (vs ! 0) (apply_t t (Ds 0) (first_power d (k fin) ?ref))
      = mat_vec_mul mds (first_power d (k fin) ?ref)"
  proof -
    have "factors t a (Xs 0) (Ds 0) (ws ! 0) (vs ! 0)" using fac by blast
    then show ?thesis using lref apply_t_transpose [OF mds t] X0 by (simp add: factors_def)
  qed
  ultimately show ?thesis
    using sparse_rounds [OF assms order.refl, of d k] by simp
qed

section \<open>The permutation\<close>

lemma sbox_p_power: "sbox_p p = (\<lambda>x. x ^ pp_d p)"
  by (rule ext) (simp add: sbox_p_def Let_def power_numeral_reduce mult_ac)

lemma full_round_reference:
  assumes "pp_mds p = mds" and "pp_d p = d" and "pp_round_constants p = rc"
    and "\<not> (rf div 2 \<le> r \<and> r < rf div 2 + rp)"
  shows "full_round p s r = reference_round d rf rp mds rc s r"
  using assms by (auto simp: full_round_def reference_round_def sbox_def sbox_p_power add_rc_def Let_def)

lemma partial_round_reference:
  "rf div 2 \<le> r \<Longrightarrow> r < rf div 2 + rp \<Longrightarrow>
     reference_round d rf rp mds rc s r = plain_partial d mds (rc ! r) s"
  by (simp add: reference_round_def plain_partial_def vec_add_def Let_def)

lemma foldl_shift: "foldl f s [r..<r + n] = foldl (\<lambda>s j. f s (r + j)) s [0..<n]"
  by (induction n) simp_all

lemma foldl_cong_upt:
  "(\<And>s j. a \<le> j \<Longrightarrow> j < b \<Longrightarrow> f s j = g s j) \<Longrightarrow> foldl f s [a..<b] = foldl g s [a..<b]"
  by (rule foldl_cong) auto

lemma foldl_cong_length:
  assumes "length s = t" and "\<And>s j. length s = t \<Longrightarrow> a \<le> j \<Longrightarrow> j < b \<Longrightarrow> f s j = g s j \<and> length (g s j) = t"
  shows "foldl f s [a..<b] = foldl g s [a..<b] \<and> length (foldl g s [a..<b]) = t"
proof -
  have "foldl f s xs = foldl g s xs \<and> length (foldl g s xs) = t" if "set xs \<subseteq> {a..<b}" for xs
    using that assms(1)
  proof (induction xs arbitrary: s)
    case (Cons x xs)
    then show ?case using assms(2) [of s x] by simp
  qed simp
  then show ?thesis by simp
qed

lemma poseidon_params_new_Inr:
  assumes "poseidon_params_new t d rf rp mds rc = Inr p"
  obtains w_hat v D X N opt tmp where
    "square t mds" and "0 < t" and "0 < rp" and "length rc = rf + rp" and "\<forall>r<rf + rp. length (rc ! r) = t"
    and "rf mod 2 = 0"
    and "equivalent_matrix_rounds (mat_transpose mds) t rp = Some (w_hat, v, D, X)"
    and "mat_inverse mds = Some N"
    and "fold (constant_step N rc (rf div 2)) (rev [0..<rp - 1])
           (replicate rp [], rc ! (rf div 2 + rp - 1)) = (opt, tmp)"
    and "p = \<lparr>pp_t = t, pp_d = d, pp_rounds_f_beginning = rf div 2, pp_rounds_p = rp,
             pp_rounds_f_end = rf div 2, pp_rounds = rf + rp, pp_mds = mds,
             pp_round_constants = rc, pp_opt_round_constants = opt[0 := tmp],
             pp_w_hat = w_hat, pp_v = v, pp_m_i = mat_transpose D\<rparr>"
proof -
  from assms have shape: "length mds = t" "\<not> list_ex (\<lambda>row. length row \<noteq> t) mds" "length rc = rf + rp"
    "\<not> list_ex (\<lambda>row. length row \<noteq> t) rc" "rf mod 2 = 0"
    by (auto simp: poseidon_params_new_def split: if_splits)
  from assms shape obtain m_i v w_hat opt where mat: "equivalent_matrices mds t rp = Some (m_i, v, w_hat)"
    and const: "equivalent_round_constants rc mds (rf div 2) rp = Some opt"
    and p: "p = \<lparr>pp_t = t, pp_d = d, pp_rounds_f_beginning = rf div 2, pp_rounds_p = rp,
             pp_rounds_f_end = rf div 2, pp_rounds = rf + rp, pp_mds = mds,
             pp_round_constants = rc, pp_opt_round_constants = opt,
             pp_w_hat = w_hat, pp_v = v, pp_m_i = m_i\<rparr>"
    by (auto simp: poseidon_params_new_def Let_def)
  from mat shape(1) obtain D X where D: "0 < t" "m_i = mat_transpose D"
    "equivalent_matrix_rounds (mat_transpose mds) t rp = Some (w_hat, v, D, X)"
    by (auto simp: equivalent_matrices_def bind_eq_Some_conv split: if_splits)
  from const obtain N where N: "0 < rp" "mat_inverse mds = Some N"
    by (auto simp: equivalent_round_constants_def bind_eq_Some_conv split: if_splits)
  obtain opt' tmp where fold: "fold (constant_step N rc (rf div 2)) (rev [0..<rp - 1])
           (replicate rp [], rc ! (rf div 2 + rp - 1)) = (opt', tmp)"
    by (cases "fold (constant_step N rc (rf div 2)) (rev [0..<rp - 1])
           (replicate rp [], rc ! (rf div 2 + rp - 1))")
  have opt: "opt = opt'[0 := tmp]"
    using const N fold by (simp add: equivalent_round_constants_def)
  have sq: "square t mds" "\<forall>r<rf + rp. length (rc ! r) = t"
    using shape by (auto simp: square_def list_ex_iff)
  show ?thesis
    by (rule that [OF sq(1) D(1) N(1) shape(3) sq(2) shape(5) D(3) N(2) fold]) (simp add: p opt D(2))
qed

lemma partial_round_sparse:
  assumes p: "pp_d p = d" "pp_mds p = mds" "pp_w_hat p = ws" "pp_v p = vs" "pp_rounds_f_beginning p = r"
    and opt: "j < fin \<Longrightarrow> pp_opt_round_constants p ! Suc j = [k j]" and k: "j = fin \<Longrightarrow> k j = 0"
    and len: "length (ws ! (fin - j)) = t - 1" "length (vs ! (fin - j)) = t - 1"
    and s: "length s = t" "0 < t" and j: "j \<le> fin"
  shows "partial_round p (r + Suc fin) s (r + j)
    = sparse t (mds ! 0 ! 0) (ws ! (fin - j)) (vs ! (fin - j)) (first_power d (k j) s)"
proof -
  have "partial_round p (r + Suc fin) s (r + j) = cheap_matmul p (first_power d (k j) s) (fin - j)"
    using opt k j s by (auto simp: partial_round_def first_power_def sbox_p_power p Let_def)
  then show ?thesis
    using cheap_matmul_sparse [of "first_power d (k j) s" t p "fin - j"] len s by (simp add: p)
qed

lemma partial_rounds_reference:
  assumes new: "poseidon_params_new t d rf rp mds rc = Inr p" and s: "length s = t"
  shows "foldl (partial_round p (rf div 2 + rp))
      (mat_vec_mul (pp_m_i p) (add_rc s (pp_opt_round_constants p ! 0))) [rf div 2..<rf div 2 + rp]
    = foldl (reference_round d rf rp mds rc) s [rf div 2..<rf div 2 + rp]"
proof -
  let ?r = "rf div 2"
  from new obtain w_hat v D X N opt tmp where sq: "square t mds" and t: "0 < t" and rp: "0 < rp"
    and rc: "\<forall>r<rf + rp. length (rc ! r) = t"
    and mats: "equivalent_matrix_rounds (mat_transpose mds) t rp = Some (w_hat, v, D, X)"
    and N: "mat_inverse mds = Some N"
    and fold: "fold (constant_step N rc ?r) (rev [0..<rp - 1])
           (replicate rp [], rc ! (?r + rp - 1)) = (opt, tmp)"
    and p: "p = \<lparr>pp_t = t, pp_d = d, pp_rounds_f_beginning = ?r, pp_rounds_p = rp,
             pp_rounds_f_end = ?r, pp_rounds = rf + rp, pp_mds = mds,
             pp_round_constants = rc, pp_opt_round_constants = opt[0 := tmp],
             pp_w_hat = w_hat, pp_v = v, pp_m_i = mat_transpose D\<rparr>"
    by (rule poseidon_params_new_Inr)
  obtain fin where fin: "rp = Suc fin" using rp by (cases rp) auto
  let ?c = "\<lambda>j. rc ! (?r + j)"
  have c: "length (?c j) = t" if "j \<le> fin" for j using rc that fin by auto
  from constant_fold [of 0 fin N rc ?r] fold fin have tmp: "tmp = merged N ?c fin fin"
    and opt: "length opt = Suc fin" "\<forall>j<fin. opt ! Suc j = [moved N ?c fin j]"
    by auto
  from equivalent_matrix_rounds_factors [OF t square_transpose [OF sq t] mats] fin
  obtain Xs Ds where ws: "length w_hat = rp" "length v = rp" and Xs: "Xs 0 = mat_transpose mds"
    and D: "Ds fin = D"
    and fac: "\<forall>j<Suc fin. Xs (Suc j) = mat_mat_mul (mat_transpose mds) (Ds j)
      \<and> factors t (mat_transpose mds ! 0 ! 0) (Xs j) (Ds j) (w_hat ! j) (v ! j)"
    by auto
  have a: "mat_transpose mds ! 0 ! 0 = mds ! 0 ! 0" using transpose_nth [OF sq t t] .
  have right: "mat_vec_mul mds (mat_vec_mul N y) = y" if "length y = t" for y
    using mat_inverse_right [OF sq N that] by simp
  have sqN: "square t N" using mat_inverse_right [OF sq N, of "replicate t 0"] by simp
  have bd: "square t D" using fac D by (auto simp: factors_def bordered_def)
  let ?s = "vec_add s tmp"
  have ls: "length ?s = t" using s length_merged [of fin ?c t N fin] c tmp by simp
  have start: "mat_vec_mul (pp_m_i p) (add_rc s (pp_opt_round_constants p ! 0)) = apply_t t (Ds fin) ?s"
    using mat_vec_mul_transpose [OF bd t ls] opt(1) D by (simp add: p add_rc_vec_add)
  let ?sp = "\<lambda>s j. sparse t (mds ! 0 ! 0) (w_hat ! (fin - j)) (v ! (fin - j)) (first_power d (moved N ?c fin j) s)"
  have step: "partial_round p (?r + rp) x (?r + j) = ?sp x j \<and> length (?sp x j) = t"
    if "length x = t" "0 \<le> j" "j < rp" for x j
  proof -
    have "factors t (mat_transpose mds ! 0 ! 0) (Xs (fin - j)) (Ds (fin - j)) (w_hat ! (fin - j)) (v ! (fin - j))"
      using fac by simp
    then have len: "length (w_hat ! (fin - j)) = t - 1" "length (v ! (fin - j)) = t - 1"
      by (simp_all add: factors_def)
    have "j < fin \<Longrightarrow> pp_opt_round_constants p ! Suc j = [moved N ?c fin j]"
      and "j = fin \<Longrightarrow> moved N ?c fin j = 0"
      using opt by (simp_all add: p moved_def)
    then have "partial_round p (?r + Suc fin) x (?r + j) = ?sp x j"
      by (intro partial_round_sparse) (use that len t fin in \<open>simp_all add: p\<close>)
    then show ?thesis using t fin by (simp add: sparse_def)
  qed
  have "foldl (partial_round p (?r + rp)) (apply_t t (Ds fin) ?s) [?r..<?r + rp]
      = foldl ?sp (apply_t t (Ds fin) ?s) [0..<rp]"
    unfolding foldl_shift
    using foldl_cong_length [of "apply_t t (Ds fin) ?s" t 0 rp "\<lambda>s j. partial_round p (?r + rp) s (?r + j)" ?sp] step
    by simp
  also have "\<dots> = foldl (\<lambda>s j. mat_vec_mul mds (first_power d (moved N ?c fin j) s)) ?s [0..<rp]"
    using sparse_rounds_all [OF t sq Xs fac ls] unfolding a fin by simp
  also have "\<dots> = foldl (\<lambda>s j. plain_partial d mds (?c j) s) s [0..<rp]"
    using merged_rounds [OF sq t sqN right, of fin ?c 0 s d] c s unfolding tmp fin by simp
  also have "\<dots> = foldl (reference_round d rf rp mds rc) s [?r..<?r + rp]"
    unfolding foldl_shift by (rule foldl_cong_upt) (simp add: partial_round_reference)
  finally show ?thesis unfolding start .
qed

lemma permutation_reference:
  assumes new: "poseidon_params_new t d rf rp mds rc = Inr p"
  shows "permutation p input =
    (if length input \<noteq> t then Inl InvalidParameters
     else Inr (reference_permutation d rf rp mds rc input))"
proof -
  let ?r = "rf div 2"
  from new have p: "pp_t p = t" "pp_rounds_f_beginning p = ?r" "pp_rounds_p p = rp" "pp_rounds p = rf + rp"
    "pp_mds p = mds" "pp_d p = d" "pp_round_constants p = rc" and sq: "square t mds"
    by (auto elim: poseidon_params_new_Inr)
  have full: "foldl (full_round p) s [a..<b] = foldl (reference_round d rf rp mds rc) s [a..<b]"
    if "b \<le> ?r \<or> ?r + rp \<le> a" for s a b
    using that by (intro foldl_cong_upt full_round_reference p) auto
  have split: "[0..<rf + rp] = [0..<?r] @ [?r..<?r + rp] @ [?r + rp..<rf + rp]"
    using upt_add_eq_append [of 0 ?r "rf + rp - ?r"] upt_add_eq_append [of ?r "?r + rp" "rf - ?r"]
    by (simp add: add.commute)
  show ?thesis
  proof (cases "length input = t")
    case False
    then show ?thesis by (simp add: permutation_def p)
  next
    case True
    let ?s = "foldl (full_round p) input [0..<?r]"
    have "length ?s = t"
      using True sq by (cases ?r) (simp_all add: full_round_def p square_def)
    from partial_rounds_reference [OF new this] True show ?thesis
      by (simp add: permutation_def reference_permutation_def p full split Let_def)
  qed
qed

text \<open>When \<^verbatim>\<open>new\<close> accepts: a fixed point of the matrix iteration is enough.\<close>

lemma equivalent_matrix_step_append:
  "equivalent_matrix_step mds_t t (ws, vs, D, X) =
     map_option (\<lambda>(w, v, D', X'). (ws @ w, vs @ v, D', X')) (equivalent_matrix_step mds_t t ([], [], [], X))"
  by (auto simp: equivalent_matrix_step_def Let_def split: Option.bind_splits)

lemma equivalent_matrix_rounds_fixed:
  assumes "equivalent_matrix_step mds_t t ([], [], [], mds_t) = Some (w, v, D, mds_t)"
  shows "\<exists>ws vs D. equivalent_matrix_rounds mds_t t k = Some (ws, vs, D, mds_t)"
proof (induction k)
  case (Suc k)
  then obtain ws vs D' where "equivalent_matrix_rounds mds_t t k = Some (ws, vs, D', mds_t)" by blast
  then show ?case
    using assms equivalent_matrix_step_append [of mds_t t ws vs D' mds_t] by simp
qed simp

lemma poseidon_params_new_accepts:
  assumes "square t mds" and "0 < t" and "length rc = rf + rp" and "list_all (\<lambda>row. length row = t) rc"
    and "even rf" and "0 < rp" and "mat_inverse mds \<noteq> None"
    and "equivalent_matrix_step (mat_transpose mds) t ([], [], [], mat_transpose mds)
      = Some (w, v, D, mat_transpose mds)"
  shows "\<exists>p. poseidon_params_new t d rf rp mds rc = Inr p"
proof -
  obtain ws vs D where "equivalent_matrix_rounds (mat_transpose mds) t rp = Some (ws, vs, D, mat_transpose mds)"
    using equivalent_matrix_rounds_fixed [OF assms(8)] by blast
  then have mats: "equivalent_matrices mds t rp = Some (mat_transpose D, vs, ws)"
    using assms(1,2) by (auto simp: equivalent_matrices_def square_def)
  have "equivalent_round_constants rc mds (rf div 2) rp \<noteq> None"
    using assms(6,7) by (auto simp: equivalent_round_constants_def split: prod.splits)
  then obtain opt where "equivalent_round_constants rc mds (rf div 2) rp = Some opt" by blast
  moreover have "\<not> list_ex (\<lambda>row. length row \<noteq> t) mds" "length mds = t"
    using assms(1) unfolding square_def list_ex_iff by (metis in_set_conv_nth, blast)
  ultimately show ?thesis
    using assms(3-5) mats by (auto simp: poseidon_params_new_def list_ex_iff list_all_iff Let_def)
qed

section \<open>Properties\<close>

text \<open>C39: the optimised permutation is the textbook Poseidon permutation. For every parameter set that
  \<^verbatim>\<open>PoseidonParams::new\<close> accepts, over any field, the run with precomputed sparse matrices and merged round
  constants returns what adding every round constant, powering the whole state or its first element
  and multiplying by the MDS matrix returns; an input of the wrong width is rejected.\<close>

theorem permutation_correct:
  assumes "poseidon_params_new t d rf rp mds rc = Inr p"
  shows "permutation p input =
    (if length input \<noteq> t then Inl InvalidParameters
     else Inr (reference_permutation d rf rp mds rc input))"
  by (rule permutation_reference [OF assms])

definition sample_mds :: "gf3 matrix" where
  "sample_mds = [[Two3, One3], [One3, One3]]"

definition sample_rc :: "gf3 matrix" where
  "sample_rc = [[One3, Two3], [Zero3, One3], [Two3, Two3], [One3, Zero3]]"

lemma sample_params_accepted: "\<not> isl (poseidon_params_new 2 3 2 2 sample_mds sample_rc)"
  by code_simp

lemma permutation_correct_witness:
  "\<exists>p. poseidon_params_new 2 3 2 2 sample_mds sample_rc = Inr p
    \<and> permutation p [One3, Two3] = Inr (reference_permutation 3 2 2 sample_mds sample_rc [One3, Two3])"
proof -
  obtain p where p: "poseidon_params_new 2 3 2 2 sample_mds sample_rc = Inr p"
    using sample_params_accepted by (cases "poseidon_params_new 2 3 2 2 sample_mds sample_rc") auto
  with permutation_correct [OF p, of "[One3, Two3]"] show ?thesis by simp
qed

text \<open>\<^verbatim>\<open>PoseidonParams::new\<close> reports an error exactly for a malformed shape: an MDS matrix or a round
  constant of the wrong width, a wrong number of round constants, or an odd number of full rounds. What it
  then still can do besides succeeding is panic.\<close>

theorem poseidon_params_new_error:
  "poseidon_params_new t d rf rp mds rc = Inl (Err e) \<longleftrightarrow> e = InvalidParameters
     \<and> \<not> (square t mds \<and> length rc = rf + rp \<and> list_all (\<lambda>row. length row = t) rc \<and> even rf)"
proof -
  have sq: "square t mds \<longleftrightarrow> length mds = t \<and> \<not> list_ex (\<lambda>row. length row \<noteq> t) mds"
    unfolding square_def list_ex_iff by (metis in_set_conv_nth)
  show ?thesis
    unfolding sq
    by (auto simp: poseidon_params_new_def list_ex_iff list_all_iff Let_def even_iff_mod_2_eq_zero res_bind_def
        ok_or_def split: option.splits)
qed

end
