(* ===== verification/Poseidon_Hash.thy ===== *)
theory Poseidon_Hash
  imports Poseidon Domain
begin

text \<open>
  From the permutation to the protocol's hash: the thirteen parameter sets of \<^verbatim>\<open>poseidon-rust/src/bn254\<close>,
  \<^verbatim>\<open>poseidon_hash\<close> of its \<^verbatim>\<open>lib.rs\<close>, the typed front end of \<^verbatim>\<open>crypto/src/poseidon.rs\<close> and the commitment
  formulas of \<^verbatim>\<open>crypto/src/commitment.rs\<close>. The scalar field's library (\<^verbatim>\<open>ark_bn254::Fr\<close>) is a record of the
  three conversions the code uses, and the constants the build embeds (\<^verbatim>\<open>params/*.bin\<close>) are arguments.
\<close>

section \<open>Parameter sets (bn254)\<close>

text \<open>\<^verbatim>\<open>Fr::from_be_bytes_mod_order\<close>, \<^verbatim>\<open>into_bigint().into()\<close> and \<^verbatim>\<open>deserialize_compressed\<close> (\<open>None\<close> its error).\<close>

record 'f field_lib =
  fl_from_be_mod :: "bytes \<Rightarrow> 'f"
  fl_to_u256 :: "'f \<Rightarrow> u256"
  fl_deserialize :: "bytes \<Rightarrow> 'f option"

text \<open>\<^verbatim>\<open>slice::chunks_exact\<close> drops a short last chunk, \<^verbatim>\<open>slice::chunks\<close> keeps it; the sizes are positive.\<close>

fun chunks :: "nat \<Rightarrow> 'a list \<Rightarrow> 'a list list" where
  "chunks n xs = (if xs = [] \<or> n = 0 then [] else take n xs # chunks n (drop n xs))"

declare chunks.simps [simp del]

definition chunks_exact :: "nat \<Rightarrow> 'a list \<Rightarrow> 'a list list" where
  "chunks_exact n xs = filter (\<lambda>c. length c = n) (chunks n xs)"

primrec all_some :: "'a option list \<Rightarrow> 'a list option" where
  "all_some [] = Some []"
| "all_some (x # xs) = Option.bind x (\<lambda>y. map_option ((#) y) (all_some xs))"

definition read_rows :: "'f field_lib \<Rightarrow> nat \<Rightarrow> bytes \<Rightarrow> 'f matrix option" where
  "read_rows L t bin = map_option (chunks t) (all_some (map (fl_deserialize L) (chunks_exact 32 bin)))"

definition unwrap_params :: "poseidon_error exn + 'f poseidon_params \<Rightarrow> 'f poseidon_params option" where
  "unwrap_params r = (case r of Inl _ \<Rightarrow> None | Inr p \<Rightarrow> Some p)"

text \<open>\<open>None\<close> is a panic of one of the \<^verbatim>\<open>unwrap\<close>s. The cell that builds each set once is not modelled.\<close>

definition get_t2_params :: "'f::field field_lib \<Rightarrow> bytes \<Rightarrow> bytes \<Rightarrow> 'f poseidon_params option" where
  "get_t2_params L MDS_BIN RC_BIN =
     Option.bind (read_rows L 2 MDS_BIN) (\<lambda>mds.
     Option.bind (read_rows L 2 RC_BIN) (\<lambda>rc.
       unwrap_params (poseidon_params_new 2 5 8 56 mds rc)))"

definition get_t3_params :: "'f::field field_lib \<Rightarrow> bytes \<Rightarrow> bytes \<Rightarrow> 'f poseidon_params option" where
  "get_t3_params L MDS_BIN RC_BIN =
     Option.bind (read_rows L 3 MDS_BIN) (\<lambda>mds.
     Option.bind (read_rows L 3 RC_BIN) (\<lambda>rc.
       unwrap_params (poseidon_params_new 3 5 8 57 mds rc)))"

definition get_t4_params :: "'f::field field_lib \<Rightarrow> bytes \<Rightarrow> bytes \<Rightarrow> 'f poseidon_params option" where
  "get_t4_params L MDS_BIN RC_BIN =
     Option.bind (read_rows L 4 MDS_BIN) (\<lambda>mds.
     Option.bind (read_rows L 4 RC_BIN) (\<lambda>rc.
       unwrap_params (poseidon_params_new 4 5 8 56 mds rc)))"

definition get_t5_params :: "'f::field field_lib \<Rightarrow> bytes \<Rightarrow> bytes \<Rightarrow> 'f poseidon_params option" where
  "get_t5_params L MDS_BIN RC_BIN =
     Option.bind (read_rows L 5 MDS_BIN) (\<lambda>mds.
     Option.bind (read_rows L 5 RC_BIN) (\<lambda>rc.
       unwrap_params (poseidon_params_new 5 5 8 60 mds rc)))"

definition get_t6_params :: "'f::field field_lib \<Rightarrow> bytes \<Rightarrow> bytes \<Rightarrow> 'f poseidon_params option" where
  "get_t6_params L MDS_BIN RC_BIN =
     Option.bind (read_rows L 6 MDS_BIN) (\<lambda>mds.
     Option.bind (read_rows L 6 RC_BIN) (\<lambda>rc.
       unwrap_params (poseidon_params_new 6 5 8 60 mds rc)))"

definition get_t7_params :: "'f::field field_lib \<Rightarrow> bytes \<Rightarrow> bytes \<Rightarrow> 'f poseidon_params option" where
  "get_t7_params L MDS_BIN RC_BIN =
     Option.bind (read_rows L 7 MDS_BIN) (\<lambda>mds.
     Option.bind (read_rows L 7 RC_BIN) (\<lambda>rc.
       unwrap_params (poseidon_params_new 7 5 8 63 mds rc)))"

definition get_t8_params :: "'f::field field_lib \<Rightarrow> bytes \<Rightarrow> bytes \<Rightarrow> 'f poseidon_params option" where
  "get_t8_params L MDS_BIN RC_BIN =
     Option.bind (read_rows L 8 MDS_BIN) (\<lambda>mds.
     Option.bind (read_rows L 8 RC_BIN) (\<lambda>rc.
       unwrap_params (poseidon_params_new 8 5 8 64 mds rc)))"

definition get_t9_params :: "'f::field field_lib \<Rightarrow> bytes \<Rightarrow> bytes \<Rightarrow> 'f poseidon_params option" where
  "get_t9_params L MDS_BIN RC_BIN =
     Option.bind (read_rows L 9 MDS_BIN) (\<lambda>mds.
     Option.bind (read_rows L 9 RC_BIN) (\<lambda>rc.
       unwrap_params (poseidon_params_new 9 5 8 63 mds rc)))"

definition get_t10_params :: "'f::field field_lib \<Rightarrow> bytes \<Rightarrow> bytes \<Rightarrow> 'f poseidon_params option" where
  "get_t10_params L MDS_BIN RC_BIN =
     Option.bind (read_rows L 10 MDS_BIN) (\<lambda>mds.
     Option.bind (read_rows L 10 RC_BIN) (\<lambda>rc.
       unwrap_params (poseidon_params_new 10 5 8 60 mds rc)))"

definition get_t11_params :: "'f::field field_lib \<Rightarrow> bytes \<Rightarrow> bytes \<Rightarrow> 'f poseidon_params option" where
  "get_t11_params L MDS_BIN RC_BIN =
     Option.bind (read_rows L 11 MDS_BIN) (\<lambda>mds.
     Option.bind (read_rows L 11 RC_BIN) (\<lambda>rc.
       unwrap_params (poseidon_params_new 11 5 8 66 mds rc)))"

definition get_t12_params :: "'f::field field_lib \<Rightarrow> bytes \<Rightarrow> bytes \<Rightarrow> 'f poseidon_params option" where
  "get_t12_params L MDS_BIN RC_BIN =
     Option.bind (read_rows L 12 MDS_BIN) (\<lambda>mds.
     Option.bind (read_rows L 12 RC_BIN) (\<lambda>rc.
       unwrap_params (poseidon_params_new 12 5 8 60 mds rc)))"

definition get_t13_params :: "'f::field field_lib \<Rightarrow> bytes \<Rightarrow> bytes \<Rightarrow> 'f poseidon_params option" where
  "get_t13_params L MDS_BIN RC_BIN =
     Option.bind (read_rows L 13 MDS_BIN) (\<lambda>mds.
     Option.bind (read_rows L 13 RC_BIN) (\<lambda>rc.
       unwrap_params (poseidon_params_new 13 5 8 65 mds rc)))"

definition get_t14_params :: "'f::field field_lib \<Rightarrow> bytes \<Rightarrow> bytes \<Rightarrow> 'f poseidon_params option" where
  "get_t14_params L MDS_BIN RC_BIN =
     Option.bind (read_rows L 14 MDS_BIN) (\<lambda>mds.
     Option.bind (read_rows L 14 RC_BIN) (\<lambda>rc.
       unwrap_params (poseidon_params_new 14 5 8 70 mds rc)))"

section \<open>The hash (lib.rs)\<close>

definition poseidon_hash ::
  "'f::field field_lib \<Rightarrow> (nat \<Rightarrow> bytes) \<Rightarrow> (nat \<Rightarrow> bytes) \<Rightarrow> 'f list \<Rightarrow> poseidon_error exn + 'f" where
  "poseidon_hash L mds_bin rc_bin inputs =
    (let state = 0 # inputs;
         run = (\<lambda>params. case params of
           None \<Rightarrow> Inl Panic
         | Some p \<Rightarrow> res_bind (map_err Err (permutation p state)) (\<lambda>out. Inr (out ! 0)))
     in if length state = 2 then run (get_t2_params L (mds_bin 2) (rc_bin 2))
     else if length state = 3 then run (get_t3_params L (mds_bin 3) (rc_bin 3))
     else if length state = 4 then run (get_t4_params L (mds_bin 4) (rc_bin 4))
     else if length state = 5 then run (get_t5_params L (mds_bin 5) (rc_bin 5))
     else if length state = 6 then run (get_t6_params L (mds_bin 6) (rc_bin 6))
     else if length state = 7 then run (get_t7_params L (mds_bin 7) (rc_bin 7))
     else if length state = 8 then run (get_t8_params L (mds_bin 8) (rc_bin 8))
     else if length state = 9 then run (get_t9_params L (mds_bin 9) (rc_bin 9))
     else if length state = 10 then run (get_t10_params L (mds_bin 10) (rc_bin 10))
     else if length state = 11 then run (get_t11_params L (mds_bin 11) (rc_bin 11))
     else if length state = 12 then run (get_t12_params L (mds_bin 12) (rc_bin 12))
     else if length state = 13 then run (get_t13_params L (mds_bin 13) (rc_bin 13))
     else if length state = 14 then run (get_t14_params L (mds_bin 14) (rc_bin 14))
     else Inl (Err (UnsupportedInputLength (length state))))"

section \<open>Typed inputs (crypto/src/poseidon.rs)\<close>

datatype crypto_error =
    PoseidonErr poseidon_error
  | Bip39Err string
  | InvalidSeedHex
  | HexErr string
  | TypeErr type_error
  | AesErr
  | PointDecompression
  | MalformedCommitment
  | CommitmentMismatch

definition MAX_POSEIDON_INPUTS :: nat where
  "MAX_POSEIDON_INPUTS = 13"

text \<open>A constructor for each implementation of the trait \<^verbatim>\<open>PoseidonInput\<close>.\<close>

datatype poseidon_input =
    InU256 u256
  | InFieldScalar field_scalar
  | InPoseidonHash poseidon_hash
  | InViewingKey key32
  | InPoint babyjubjub_point
  | InSlice "poseidon_input list"
  | InTuple "poseidon_input list"

fun append_poseidon_inputs :: "poseidon_input \<Rightarrow> u256 list \<Rightarrow> u256 list" where
  "append_poseidon_inputs (InU256 x) buffer = buffer @ [x]"
| "append_poseidon_inputs (InFieldScalar x) buffer = buffer @ [x]"
| "append_poseidon_inputs (InPoseidonHash x) buffer = buffer @ [x]"
| "append_poseidon_inputs (InViewingKey k) buffer = buffer @ [from_be_bytes k]"
| "append_poseidon_inputs (InPoint p) buffer = buffer @ [pt_x p, pt_y p]"
| "append_poseidon_inputs (InSlice items) buffer = fold append_poseidon_inputs items buffer"
| "append_poseidon_inputs (InTuple items) buffer = fold append_poseidon_inputs items buffer"

text \<open>The engine with its constants.\<close>

record 'f poseidon_engine =
  pe_field :: "'f field_lib"
  pe_mds_bin :: "nat \<Rightarrow> bytes"
  pe_rc_bin :: "nat \<Rightarrow> bytes"

definition hash_field_inputs :: "'f::field poseidon_engine \<Rightarrow> u256 list \<Rightarrow> crypto_error exn + poseidon_hash" where
  "hash_field_inputs P inputs =
     (if MAX_POSEIDON_INPUTS < length inputs
      then Inl (Err (PoseidonErr (UnsupportedInputLength (length inputs + 1))))
      else
        let field_inputs = map (\<lambda>input. fl_from_be_mod (pe_field P) (to_be_bytes input)) inputs
        in res_bind (map_err (map_exn PoseidonErr)
             (poseidon_hash (pe_field P) (pe_mds_bin P) (pe_rc_bin P) field_inputs)) (\<lambda>hash.
           Inr (fl_to_u256 (pe_field P) hash)))"

definition input_hash :: "'f::field poseidon_engine \<Rightarrow> poseidon_input \<Rightarrow> crypto_error exn + poseidon_hash" where
  "input_hash P v = hash_field_inputs P (append_poseidon_inputs v [])"

section \<open>Commitments (crypto/src/commitment.rs)\<close>

definition master_public_key ::
  "'f::field poseidon_engine \<Rightarrow> babyjubjub_point \<Rightarrow> poseidon_hash \<Rightarrow> crypto_error exn + poseidon_hash" where
  "master_public_key P spend nullifying = input_hash P (InTuple [InPoint spend, InPoseidonHash nullifying])"

definition note_public_key ::
  "'f::field poseidon_engine \<Rightarrow> poseidon_hash \<Rightarrow> bytes \<Rightarrow> crypto_error exn + u256" where
  "note_public_key P master random =
     input_hash P (InTuple [InPoseidonHash master, InU256 (from_be_bytes random)])"

definition note_hash ::
  "'f::field poseidon_engine \<Rightarrow> u256 \<Rightarrow> asset_id \<Rightarrow> u128 \<Rightarrow> crypto_error exn + commitment_hash" where
  "note_hash P npk asset v =
     input_hash P (InTuple [InU256 npk, InU256 (token_hash asset), InU256 (note_value_as_u256 v)])"

definition note_nullifier ::
  "'f::field poseidon_engine \<Rightarrow> poseidon_hash \<Rightarrow> u32 \<Rightarrow> crypto_error exn + nullifier" where
  "note_nullifier P nullifying leaf =
     res_bind (input_hash P (InTuple [InPoseidonHash nullifying, InU256 (ucast leaf)])) (\<lambda>hash.
     Inr (to_be_bytes hash))"

definition blinded_commitment ::
  "'f::field poseidon_engine \<Rightarrow> commitment_hash \<Rightarrow> u256 \<Rightarrow> u32 \<Rightarrow> u32 \<Rightarrow> crypto_error exn + u256" where
  "blinded_commitment P hash npk tree leaf =
     (let position = (ucast ((ucast tree :: u128) * 65536 + ucast leaf) :: u256)
      in input_hash P (InTuple [InU256 hash, InU256 npk, InU256 position]))"

section \<open>Dispatch\<close>

text \<open>The number of partial rounds of each width.\<close>

definition circom_rounds_p :: "nat \<Rightarrow> nat" where
  "circom_rounds_p t = [56, 57, 56, 60, 60, 63, 64, 63, 60, 66, 60, 65, 70] ! (t - 2)"

definition load_params :: "'f::field field_lib \<Rightarrow> nat \<Rightarrow> bytes \<Rightarrow> bytes \<Rightarrow> 'f poseidon_params option" where
  "load_params L t mds_bin rc_bin =
     Option.bind (read_rows L t mds_bin) (\<lambda>mds.
     Option.bind (read_rows L t rc_bin) (\<lambda>rc.
       unwrap_params (poseidon_params_new t 5 8 (circom_rounds_p t) mds rc)))"

lemma unwrap_params_eq_Some [simp]: "unwrap_params r = Some p \<longleftrightarrow> r = Inr p"
  by (cases r) (simp_all add: unwrap_params_def)

lemmas get_params_defs = get_t2_params_def get_t3_params_def get_t4_params_def get_t5_params_def
  get_t6_params_def get_t7_params_def get_t8_params_def get_t9_params_def get_t10_params_def
  get_t11_params_def get_t12_params_def get_t13_params_def get_t14_params_def

lemma poseidon_hash_dispatch:
  assumes "1 \<le> length inputs" and "length inputs \<le> 13"
  shows "poseidon_hash L mds_bin rc_bin inputs =
    (case load_params L (length inputs + 1) (mds_bin (length inputs + 1)) (rc_bin (length inputs + 1)) of
       None \<Rightarrow> Inl Panic
     | Some p \<Rightarrow> res_bind (map_err Err (permutation p (0 # inputs))) (\<lambda>out. Inr (out ! 0)))"
proof -
  have "length inputs \<in> set [1..<14]" using assms by simp
  then consider "length inputs = 1" | "length inputs = 2" | "length inputs = 3" | "length inputs = 4"
    | "length inputs = 5" | "length inputs = 6" | "length inputs = 7" | "length inputs = 8"
    | "length inputs = 9" | "length inputs = 10" | "length inputs = 11" | "length inputs = 12"
    | "length inputs = 13"
    by (simp add: upt_conv_Cons eval_nat_numeral) blast
  then show ?thesis
    by cases (simp_all add: poseidon_hash_def load_params_def circom_rounds_p_def get_params_defs Let_def
        numeral_2_eq_2 [symmetric])
qed

lemma poseidon_hash_arity:
  "inputs = [] \<or> 13 < length inputs \<Longrightarrow>
     poseidon_hash L mds_bin rc_bin inputs = Inl (Err (UnsupportedInputLength (length inputs + 1)))"
  by (auto simp: poseidon_hash_def Let_def)

lemma load_params_permutation:
  assumes "load_params L t mds_bin rc_bin = Some p" and "length s = t"
  shows "\<exists>out. permutation p s = Inr out"
proof -
  obtain mds rc where "poseidon_params_new t 5 8 (circom_rounds_p t) mds rc = Inr p"
    using assms(1) by (auto simp: load_params_def bind_eq_Some_conv)
  from permutation_reference [OF this, of s] assms(2) show ?thesis by simp
qed

lemma hash_field_inputs_error:
  "hash_field_inputs P inputs = Inl (Err e) \<longleftrightarrow>
     (inputs = [] \<or> 13 < length inputs) \<and> e = PoseidonErr (UnsupportedInputLength (length inputs + 1))"
proof (cases "inputs = [] \<or> 13 < length inputs")
  case True
  then show ?thesis
    by (auto simp: hash_field_inputs_def MAX_POSEIDON_INPUTS_def poseidon_hash_arity Let_def)
next
  case False
  then have len: "1 \<le> length inputs" "length inputs \<le> 13" by (cases inputs; simp)+
  let ?f = "map (\<lambda>input. fl_from_be_mod (pe_field P) (to_be_bytes input)) inputs"
  have "hash_field_inputs P inputs \<noteq> Inl (Err e)"
  proof (cases "load_params (pe_field P) (length inputs + 1) (pe_mds_bin P (length inputs + 1)) (pe_rc_bin P (length inputs + 1))")
    case None
    then show ?thesis
      using len poseidon_hash_dispatch [of ?f "pe_field P" "pe_mds_bin P" "pe_rc_bin P"]
      by (simp add: hash_field_inputs_def MAX_POSEIDON_INPUTS_def Let_def)
  next
    case (Some p)
    from load_params_permutation [OF Some, of "0 # ?f"] show ?thesis
      using Some len poseidon_hash_dispatch [of ?f "pe_field P" "pe_mds_bin P" "pe_rc_bin P"]
      by (auto simp: hash_field_inputs_def MAX_POSEIDON_INPUTS_def Let_def)
  qed
  with False show ?thesis by auto
qed

lemma hash_field_inputs_total:
  assumes "1 \<le> length inputs" and "length inputs \<le> 13"
    and "load_params (pe_field P) (length inputs + 1) (pe_mds_bin P (length inputs + 1))
      (pe_rc_bin P (length inputs + 1)) = Some p"
  shows "\<exists>h. hash_field_inputs P inputs = Inr h"
proof -
  let ?f = "map (\<lambda>input. fl_from_be_mod (pe_field P) (to_be_bytes input)) inputs"
  from load_params_permutation [OF assms(3), of "0 # ?f"] show ?thesis
    using assms poseidon_hash_dispatch [of ?f "pe_field P" "pe_mds_bin P" "pe_rc_bin P"]
    by (auto simp: hash_field_inputs_def MAX_POSEIDON_INPUTS_def Let_def)
qed

text \<open>The field elements each commitment formula hashes.\<close>

named_theorems commitment_inputs \<open>the input sequence of a commitment formula\<close>

lemma master_public_key_inputs [commitment_inputs]:
  "master_public_key P spend nk = hash_field_inputs P [pt_x spend, pt_y spend, nk]"
  by (simp add: master_public_key_def input_hash_def)

lemma note_public_key_inputs [commitment_inputs]:
  "note_public_key P master random = hash_field_inputs P [master, from_be_bytes random]"
  by (simp add: note_public_key_def input_hash_def)

lemma note_hash_inputs [commitment_inputs]:
  "note_hash P npk asset v = hash_field_inputs P [npk, token_hash asset, ucast v]"
  by (simp add: note_hash_def input_hash_def note_value_as_u256_def)

lemma note_nullifier_inputs [commitment_inputs]:
  "note_nullifier P nk leaf =
     res_bind (hash_field_inputs P [nk, ucast leaf]) (\<lambda>hash. Inr (to_be_bytes hash))"
  by (simp add: note_nullifier_def input_hash_def)

lemma blinded_commitment_inputs [commitment_inputs]:
  "blinded_commitment P hash npk tree leaf =
     hash_field_inputs P [hash, npk, of_nat (unat tree * 65536 + unat leaf)]"
proof -
  have t: "unat tree < 2 ^ 32" and l: "unat leaf < 2 ^ 32"
    using unsigned_less [of tree, where 'a = nat] unsigned_less [of leaf, where 'a = nat] by simp_all
  let ?p = "(ucast tree :: u128) * 65536 + ucast leaf"
  have "unat ?p = unat tree * 65536 + unat leaf"
    using t l by (simp add: unat_word_ariths unat_ucast_small)
  then have "(ucast ?p :: u256) = of_nat (unat tree * 65536 + unat leaf)"
    by (metis of_nat_unat)
  then show ?thesis by (simp add: blinded_commitment_def input_hash_def Let_def)
qed

section \<open>Properties\<close>

text \<open>C40: hashing one to thirteen field elements is the textbook Poseidon sponge of that width: the inputs
  reduced into the field, a zero capacity element in front, the reference permutation with eight full rounds,
  the power five and the width's number of partial rounds, and the first element of the result.\<close>

theorem hash_is_reference_sponge:
  assumes "1 \<le> length inputs" and "length inputs \<le> 13"
    and "read_rows (pe_field P) (length inputs + 1) (pe_mds_bin P (length inputs + 1)) = Some mds"
    and "read_rows (pe_field P) (length inputs + 1) (pe_rc_bin P (length inputs + 1)) = Some rc"
    and "poseidon_params_new (length inputs + 1) 5 8 (circom_rounds_p (length inputs + 1)) mds rc = Inr p"
  shows "hash_field_inputs P inputs = Inr (fl_to_u256 (pe_field P)
    (reference_permutation 5 8 (circom_rounds_p (length inputs + 1)) mds rc
       (0 # map (\<lambda>input. fl_from_be_mod (pe_field P) (to_be_bytes input)) inputs) ! 0))"
proof -
  let ?f = "map (\<lambda>input. fl_from_be_mod (pe_field P) (to_be_bytes input)) inputs"
  have "load_params (pe_field P) (length inputs + 1) (pe_mds_bin P (length inputs + 1))
      (pe_rc_bin P (length inputs + 1)) = Some p"
    using assms(3-5) by (simp add: load_params_def)
  then show ?thesis
    using assms(1,2) poseidon_hash_dispatch [of ?f "pe_field P" "pe_mds_bin P" "pe_rc_bin P"]
      permutation_reference [OF assms(5), of "0 # ?f"]
    by (simp add: hash_field_inputs_def MAX_POSEIDON_INPUTS_def Let_def)
qed

definition gf3_of_nat :: "nat \<Rightarrow> gf3" where
  "gf3_of_nat n = (if n mod 3 = 0 then Zero3 else if n mod 3 = 1 then One3 else Two3)"

primrec gf3_to_u256 :: "gf3 \<Rightarrow> u256" where
  "gf3_to_u256 Zero3 = 0"
| "gf3_to_u256 One3 = 1"
| "gf3_to_u256 Two3 = 2"

primrec gf3_byte :: "gf3 \<Rightarrow> byte" where
  "gf3_byte Zero3 = 0"
| "gf3_byte One3 = 1"
| "gf3_byte Two3 = 2"

definition gf3_scalar :: "gf3 \<Rightarrow> bytes" where
  "gf3_scalar e = replicate 31 0 @ [gf3_byte e]"

text \<open>An engine with the widths the commitment formulas use.\<close>

definition sample_matrix :: "nat \<Rightarrow> gf3 matrix" where
  "sample_matrix t =
     (if t = 2 then [[Two3, One3], [One3, One3]]
      else if t = 3 then [[One3, One3, Zero3], [Zero3, One3, Zero3], [One3, Zero3, One3]]
      else [[One3, One3, Zero3, Zero3], [Zero3, One3, Zero3, Zero3], [Zero3, Zero3, One3, Zero3],
            [One3, Zero3, Zero3, One3]])"

definition sample_engine :: "gf3 poseidon_engine" where
  "sample_engine = \<lparr>pe_field = \<lparr>fl_from_be_mod = \<lambda>bs. gf3_of_nat (be_nat bs), fl_to_u256 = gf3_to_u256,
       fl_deserialize = \<lambda>bs. Some (gf3_of_nat (unat (bs ! 31)))\<rparr>,
     pe_mds_bin = \<lambda>t. concat (map gf3_scalar (concat (sample_matrix t))),
     pe_rc_bin = \<lambda>t. concat (map gf3_scalar
       (concat (replicate (8 + circom_rounds_p t) (replicate t Zero3))))\<rparr>"

lemma sample_engine_field [simp]:
  "fl_from_be_mod (pe_field sample_engine) bs = gf3_of_nat (be_nat bs)"
  "fl_to_u256 (pe_field sample_engine) = gf3_to_u256"
  "pe_mds_bin sample_engine t = concat (map gf3_scalar (concat (sample_matrix t)))"
  "pe_rc_bin sample_engine t =
     concat (map gf3_scalar (concat (replicate (8 + circom_rounds_p t) (replicate t Zero3))))"
  by (simp_all add: sample_engine_def)

lemma chunks_concat:
  "0 < n \<Longrightarrow> list_all (\<lambda>x. length x = n) xss \<Longrightarrow> chunks n (concat xss) = xss"
proof (induction xss)
  case Nil
  then show ?case by (simp add: chunks.simps [of n "[]"])
next
  case (Cons x xss)
  then have "x \<noteq> []" by auto
  with Cons show ?case by (simp add: chunks.simps [of n "x @ concat xss"])
qed

lemma all_some_map: "all_some (map (\<lambda>x. Some (f x)) xs) = Some (map f xs)"
  by (induction xs) simp_all

text \<open>Rows written as 32-byte scalars are read back.\<close>

lemma read_rows_written:
  assumes "0 < t" and "list_all (\<lambda>row. length row = t) m" and "\<And>e. length (enc e) = 32"
    and "\<And>e. fl_deserialize L (enc e) = Some e"
  shows "read_rows L t (concat (map enc (concat m))) = Some m"
proof -
  have "chunks 32 (concat (map enc (concat m))) = map enc (concat m)"
    by (rule chunks_concat) (simp_all add: assms(3) list_all_iff)
  then have "chunks_exact 32 (concat (map enc (concat m))) = map enc (concat m)"
    by (simp add: chunks_exact_def assms(3) list_all_iff)
  moreover have "all_some (map (fl_deserialize L) (map enc xs)) = Some xs" for xs
    using all_some_map [of "\<lambda>x. x" xs] by (simp add: assms(4) comp_def)
  ultimately show ?thesis using chunks_concat [OF assms(1,2)] by (simp add: read_rows_def)
qed

lemma gf3_scalar_read: "fl_deserialize (pe_field sample_engine) (gf3_scalar e) = Some e"
  by (cases e) (simp_all add: sample_engine_def gf3_scalar_def nth_append gf3_of_nat_def)

lemma sample_rows:
  assumes "t \<in> {2, 3, 4}"
  shows "read_rows (pe_field sample_engine) t (pe_mds_bin sample_engine t) = Some (sample_matrix t)"
    and "read_rows (pe_field sample_engine) t (pe_rc_bin sample_engine t)
      = Some (replicate (8 + circom_rounds_p t) (replicate t Zero3))"
proof -
  have t: "0 < t" using assms by auto
  have len: "length (gf3_scalar e) = 32" for e by (simp add: gf3_scalar_def)
  have "list_all (\<lambda>row. length row = t) (sample_matrix t)"
    using assms by (auto simp: sample_matrix_def)
  then show "read_rows (pe_field sample_engine) t (pe_mds_bin sample_engine t) = Some (sample_matrix t)"
    using t len gf3_scalar_read by (simp add: read_rows_written)
  have "list_all (\<lambda>row. length row = t) (replicate (8 + circom_rounds_p t) (replicate t Zero3))"
    by (simp add: list_all_iff)
  then show "read_rows (pe_field sample_engine) t (pe_rc_bin sample_engine t)
      = Some (replicate (8 + circom_rounds_p t) (replicate t Zero3))"
    using t len gf3_scalar_read by (simp add: read_rows_written del: concat_replicate_trivial)
qed

text \<open>The elimination of the widest sample, row by row.\<close>

lemma sample_elimination:
  "forward_row 4 0 (sample_matrix 4, identity 4) = Some (sample_matrix 4, identity 4)"
  "forward_row 4 1 (sample_matrix 4, identity 4) = Some (sample_matrix 4, identity 4)"
  "forward_row 4 2 (sample_matrix 4, identity 4) = Some (sample_matrix 4, identity 4)"
  "forward_row 4 3 (sample_matrix 4, identity 4) \<noteq> None"
  by code_simp+

lemma sample_matrix_ok:
  "mat_inverse (sample_matrix 2) \<noteq> None" "mat_inverse (sample_matrix 3) \<noteq> None"
  "mat_inverse (sample_matrix 4) \<noteq> None"
proof -
  show "mat_inverse (sample_matrix 2) \<noteq> None" "mat_inverse (sample_matrix 3) \<noteq> None"
    by code_simp+
  have "length (sample_matrix 4) = 4" by (simp add: sample_matrix_def)
  moreover have "forward_rows 4 4 (sample_matrix 4, identity 4) \<noteq> None"
    using sample_elimination by (simp add: eval_nat_numeral)
  ultimately show "mat_inverse (sample_matrix 4) \<noteq> None"
    by (auto simp: mat_inverse_def Let_def)
qed

definition fixed_step :: "nat \<Rightarrow> bool" where
  "fixed_step t = (let X = mat_transpose (sample_matrix t) in
     case equivalent_matrix_step X t ([], [], [], X) of None \<Rightarrow> False | Some (_, _, _, X') \<Rightarrow> X' = X)"

lemma sample_fixed: "fixed_step 2" "fixed_step 3" "fixed_step 4"
  by code_simp+

lemma fixed_stepD:
  "fixed_step t \<Longrightarrow> \<exists>w v D. equivalent_matrix_step (mat_transpose (sample_matrix t)) t
     ([], [], [], mat_transpose (sample_matrix t)) = Some (w, v, D, mat_transpose (sample_matrix t))"
  by (auto simp: fixed_step_def Let_def split: option.splits)

lemma sample_params:
  assumes "t \<in> {2, 3, 4}"
  shows "\<exists>p. poseidon_params_new t 5 8 (circom_rounds_p t) (sample_matrix t)
    (replicate (8 + circom_rounds_p t) (replicate t Zero3)) = Inr p"
proof -
  have "fixed_step t" "mat_inverse (sample_matrix t) \<noteq> None" "0 < circom_rounds_p t" "square t (sample_matrix t)"
    using assms sample_fixed sample_matrix_ok
    by (auto simp: circom_rounds_p_def square_def sample_matrix_def less_Suc_eq numeral_eq_Suc)
  then show ?thesis
    using fixed_stepD [of t] assms
    by (auto intro!: poseidon_params_new_accepts simp: list_all_iff)
qed

lemma sample_load:
  assumes "t \<in> {2, 3, 4}"
  shows "\<exists>p. load_params (pe_field sample_engine) t (pe_mds_bin sample_engine t) (pe_rc_bin sample_engine t) = Some p"
  using sample_rows [OF assms] sample_params [OF assms] by (auto simp: load_params_def)

lemma hash_is_reference_sponge_witness:
  "hash_field_inputs sample_engine [7, 8] = Inr (gf3_to_u256
    (reference_permutation 5 8 57 (sample_matrix 3) (replicate 65 (replicate 3 Zero3)) [Zero3, One3, Two3] ! 0))"
proof -
  have rounds: "circom_rounds_p 3 = 57" by (simp add: circom_rounds_p_def)
  obtain p where p: "poseidon_params_new 3 5 8 57 (sample_matrix 3) (replicate 65 (replicate 3 Zero3)) = Inr p"
    using sample_params [of 3] rounds by auto
  have len: "length [7 :: u256, 8] + 1 = 3" by simp
  have "be_nat (to_be_bytes (7 :: u256)) = 7" "be_nat (to_be_bytes (8 :: u256)) = 8"
    by (simp_all add: be_nat_to_be_bytes)
  with hash_is_reference_sponge [of "[7, 8]" sample_engine "sample_matrix 3"
      "replicate 65 (replicate 3 Zero3)" p, unfolded len] sample_rows [of 3] p rounds
  show ?thesis by (simp add: gf3_of_nat_def zero_gf3_def)
qed

text \<open>The only error hashing can return is the arity error, and it returns it exactly for no input or more
  than thirteen, with one more than the number of inputs as the length.\<close>

theorem hash_arity_error:
  "hash_field_inputs P inputs = Inl (Err e) \<longleftrightarrow>
     (inputs = [] \<or> 13 < length inputs) \<and> e = PoseidonErr (UnsupportedInputLength (length inputs + 1))"
  by (rule hash_field_inputs_error)

end
