(* ===== verification/Note.thy ===== *)
theory Note
  imports Poseidon_Hash
begin

text \<open>
  Opening a commitment node (\<^verbatim>\<open>crypto/src/viewing.rs\<close>, \<^verbatim>\<open>aes.rs\<close>, \<^verbatim>\<open>note.rs\<close>): the ECDH shared key, the
  block framing around AES-GCM, and the checks that turn a decrypted plaintext into a \<open>decrypted_note\<close>.
  The primitives (SHA-2, the curve25519 group, Ed25519, AES-GCM) are third-party and form the record
  \<open>crypto_lib\<close>; the Poseidon engine is the modelled one.
\<close>

section \<open>Third-party primitives\<close>

text \<open>\<open>cl_gcm_decrypt key nonce message\<close> is AES-256-GCM with a 16-byte nonce on ciphertext and tag, \<open>None\<close>
  when authentication fails; \<open>cl_decompress\<close> is \<open>None\<close> off the curve.\<close>

record ('pt, 'sc) crypto_lib =
  cl_sha512 :: "bytes \<Rightarrow> bytes"
  cl_sha256 :: "bytes \<Rightarrow> bytes"
  cl_ed_public :: "bytes \<Rightarrow> bytes"
  cl_decompress :: "bytes \<Rightarrow> 'pt option"
  cl_compress :: "'pt \<Rightarrow> bytes"
  cl_scalar :: "bytes \<Rightarrow> 'sc"
  cl_mul :: "'pt \<Rightarrow> 'sc \<Rightarrow> 'pt"
  cl_gcm_decrypt :: "bytes \<Rightarrow> bytes \<Rightarrow> bytes \<Rightarrow> bytes option"

section \<open>Viewing keys (viewing.rs)\<close>

definition viewing_public_key :: "('pt, 'sc) crypto_lib \<Rightarrow> key32 \<Rightarrow> key32" where
  "viewing_public_key L k = cl_ed_public L k"

definition nullifying_key :: "'f::field poseidon_engine \<Rightarrow> key32 \<Rightarrow> crypto_error exn + poseidon_hash" where
  "nullifying_key P k = input_hash P (InViewingKey k)"

definition to_curve25519_scalar :: "('pt, 'sc) crypto_lib \<Rightarrow> key32 \<Rightarrow> 'sc" where
  "to_curve25519_scalar L viewing_key =
     (let hash = cl_sha512 L viewing_key;
          head = take 32 hash;
          head = head[0 := head ! 0 AND 248];
          head = head[31 := head ! 31 AND 63];
          head = head[31 := head ! 31 OR 64]
      in cl_scalar L head)"

definition decompress :: "('pt, 'sc) crypto_lib \<Rightarrow> bytes \<Rightarrow> crypto_error + 'pt" where
  "decompress L bs = ok_or PointDecompression (cl_decompress L bs)"

definition shared_key :: "('pt, 'sc) crypto_lib \<Rightarrow> key32 \<Rightarrow> 'pt \<Rightarrow> key32" where
  "shared_key L viewing_key their_point =
     (let scalar = to_curve25519_scalar L viewing_key;
          shared = cl_mul L their_point scalar
      in cl_sha256 L (cl_compress L shared))"

definition derive_shared_key :: "('pt, 'sc) crypto_lib \<Rightarrow> key32 \<Rightarrow> key32 \<Rightarrow> crypto_error + key32" where
  "derive_shared_key L viewing_key their_public =
     res_bind (decompress L their_public) (\<lambda>point. Inr (shared_key L viewing_key point))"

definition derive_shared_key_blinded :: "('pt, 'sc) crypto_lib \<Rightarrow> key32 \<Rightarrow> key32 \<Rightarrow> crypto_error + key32" where
  "derive_shared_key_blinded L viewing_key blinded =
     res_bind (decompress L blinded) (\<lambda>point. Inr (shared_key L viewing_key point))"

section \<open>AES framing (aes.rs)\<close>

text \<open>\<^verbatim>\<open>usize::checked_add\<close> on a 64-bit target.\<close>

definition usize_checked_add :: "nat \<Rightarrow> nat \<Rightarrow> nat option" where
  "usize_checked_add a b = (if a + b < 2 ^ 64 then Some (a + b) else None)"

primrec sum_lengths :: "bytes list \<Rightarrow> nat \<Rightarrow> crypto_error + nat" where
  "sum_lengths [] data_len = Inr data_len"
| "sum_lengths (block # blocks) data_len =
     res_bind (ok_or MalformedCommitment (usize_checked_add data_len (length block))) (sum_lengths blocks)"

primrec split_blocks :: "bytes list \<Rightarrow> bytes \<Rightarrow> nat \<Rightarrow> crypto_error + bytes list" where
  "split_blocks [] decrypted offset = Inr []"
| "split_blocks (block # blocks) decrypted offset =
     (let len = length block in
      res_bind (ok_or MalformedCommitment (usize_checked_add offset len)) (\<lambda>end'.
      if end' \<le> length decrypted
      then res_bind (split_blocks blocks decrypted end') (\<lambda>data.
        Inr (take len (drop offset decrypted) # data))
      else Inl MalformedCommitment))"

definition decrypt_gcm :: "('pt, 'sc) crypto_lib \<Rightarrow> ciphertext \<Rightarrow> key32 \<Rightarrow> crypto_error + bytes list" where
  "decrypt_gcm L c key =
     res_bind (sum_lengths (ct_data c) 0) (\<lambda>data_len.
     res_bind (ok_or MalformedCommitment (usize_checked_add data_len (length (ct_tag c)))) (\<lambda>_.
     let combined = concat (ct_data c) @ ct_tag c in
     res_bind (ok_or AesErr (cl_gcm_decrypt L key (ct_iv c) combined)) (\<lambda>decrypted.
       split_blocks (ct_data c) decrypted 0)))"

definition decrypt_with_shared_key :: "('pt, 'sc) crypto_lib \<Rightarrow> ciphertext \<Rightarrow> key32 \<Rightarrow> crypto_error + bytes list" where
  "decrypt_with_shared_key L c key = decrypt_gcm L c key"

section \<open>Lossy text\<close>

text \<open>\<^verbatim>\<open>String::from_utf8_lossy\<close>: well-formed sequences are decoded, each maximal ill-formed prefix becomes one
  replacement character.\<close>

definition utf8_tail :: "byte \<Rightarrow> bool" where
  "utf8_tail b \<longleftrightarrow> 0x80 \<le> unat b \<and> unat b \<le> 0xbf"

text \<open>The bytes that may follow the first byte of a sequence of three or four.\<close>

definition utf8_second :: "byte \<Rightarrow> byte \<Rightarrow> bool" where
  "utf8_second a b \<longleftrightarrow>
     (if a = 0xe0 then 0xa0 \<le> unat b \<and> unat b \<le> 0xbf
      else if a = 0xed then 0x80 \<le> unat b \<and> unat b \<le> 0x9f
      else if a = 0xf0 then 0x90 \<le> unat b \<and> unat b \<le> 0xbf
      else if a = 0xf4 then 0x80 \<le> unat b \<and> unat b \<le> 0x8f
      else utf8_tail b)"

definition utf8_width :: "byte \<Rightarrow> nat" where
  "utf8_width b =
     (if unat b < 0x80 then 1
      else if 0xc2 \<le> unat b \<and> unat b \<le> 0xdf then 2
      else if 0xe0 \<le> unat b \<and> unat b \<le> 0xef then 3
      else if 0xf0 \<le> unat b \<and> unat b \<le> 0xf4 then 4
      else 0)"

text \<open>One character (or replacement) and the number of bytes it takes.\<close>

definition utf8_step :: "byte \<Rightarrow> bytes \<Rightarrow> rust_char \<times> nat" where
  "utf8_step a bs =
     (let w = utf8_width a in
      if w = 1 then (unat a, 1)
      else if w = 2 then
        (case bs of b # _ \<Rightarrow> if utf8_tail b then ((unat a - 0xc0) * 64 + (unat b - 0x80), 2) else (0xfffd, 1)
                  | [] \<Rightarrow> (0xfffd, 1))
      else if w = 3 then
        (case bs of b # cs \<Rightarrow> if utf8_second a b then
             (case cs of c # _ \<Rightarrow> if utf8_tail c
                  then ((unat a - 0xe0) * 4096 + (unat b - 0x80) * 64 + (unat c - 0x80), 3) else (0xfffd, 2)
              | [] \<Rightarrow> (0xfffd, 2))
           else (0xfffd, 1)
         | [] \<Rightarrow> (0xfffd, 1))
      else if w = 4 then
        (case bs of b # cs \<Rightarrow> if utf8_second a b then
             (case cs of c # ds \<Rightarrow> if utf8_tail c then
                (case ds of d # _ \<Rightarrow> if utf8_tail d
                     then ((unat a - 0xf0) * 262144 + (unat b - 0x80) * 4096 + (unat c - 0x80) * 64
                             + (unat d - 0x80), 4) else (0xfffd, 3)
                 | [] \<Rightarrow> (0xfffd, 3))
              else (0xfffd, 2)
              | [] \<Rightarrow> (0xfffd, 2))
           else (0xfffd, 1)
         | [] \<Rightarrow> (0xfffd, 1))
      else (0xfffd, 1))"

fun from_utf8_lossy :: "bytes \<Rightarrow> rust_char list" where
  "from_utf8_lossy [] = []"
| "from_utf8_lossy (a # bs) =
     (case utf8_step a bs of (c, n) \<Rightarrow> c # from_utf8_lossy (drop (n - 1) bs))"

section \<open>Notes (note.rs)\<close>

record decrypted_note =
  dn_position :: node_position
  dn_value :: u128
  dn_asset :: asset_id
  dn_random :: bytes
  dn_memo :: "rust_char list"
  dn_commitment_hash :: commitment_hash
  dn_note_public_key :: u256
  dn_nullifier :: nullifier
  dn_blinded_commitment :: u256
  dn_commitment_type :: blinded_commitment_type

record note_decryptor =
  nd_viewing_key :: key32
  nd_spending_public_key :: babyjubjub_point
  nd_nullifying_key :: poseidon_hash

definition copy_exact :: "nat \<Rightarrow> bytes \<Rightarrow> crypto_error + bytes" where
  "copy_exact n bs = (if length bs \<noteq> n then Inl MalformedCommitment else Inr bs)"

definition with_memo :: "ciphertext \<Rightarrow> bytes \<Rightarrow> ciphertext" where
  "with_memo c memo = \<lparr>ct_iv = ct_iv c, ct_tag = ct_tag c, ct_data = ct_data c @ [memo]\<rparr>"

definition shield_ciphertext :: "bytes list \<Rightarrow> crypto_error + ciphertext" where
  "shield_ciphertext bundle =
     (if length bundle < 2 then Inl MalformedCommitment
      else res_bind (copy_exact 16 (take 16 (bundle ! 0))) (\<lambda>iv.
           res_bind (copy_exact 16 (drop 16 (bundle ! 0))) (\<lambda>tag.
           Inr \<lparr>ct_iv = iv, ct_tag = tag, ct_data = [take 16 (bundle ! 1)]\<rparr>)))"

definition decryptor_master :: "'f::field poseidon_engine \<Rightarrow> note_decryptor \<Rightarrow> crypto_error exn + poseidon_hash" where
  "decryptor_master P D = master_public_key P (nd_spending_public_key D) (nd_nullifying_key D)"

definition assemble ::
  "'f::field poseidon_engine \<Rightarrow> note_decryptor \<Rightarrow> poseidon_hash \<Rightarrow> node_position \<Rightarrow> asset_id \<Rightarrow> u128 \<Rightarrow> bytes
     \<Rightarrow> rust_char list \<Rightarrow> blinded_commitment_type \<Rightarrow> crypto_error exn + decrypted_note" where
  "assemble P D master position asset v random memo commitment_type =
     res_bind (note_public_key P master random) (\<lambda>npk.
     res_bind (note_hash P npk asset v) (\<lambda>hash.
     res_bind (note_nullifier P (nd_nullifying_key D) (leaf_index position)) (\<lambda>nf.
     res_bind (blinded_commitment P hash npk (tree_number position) (leaf_index position)) (\<lambda>blinded.
     Inr \<lparr>dn_position = position, dn_value = v, dn_asset = asset, dn_random = random, dn_memo = memo,
          dn_commitment_hash = hash, dn_note_public_key = npk, dn_nullifier = nf,
          dn_blinded_commitment = blinded, dn_commitment_type = commitment_type\<rparr>))))"

definition decrypt_transact ::
  "('pt, 'sc) crypto_lib \<Rightarrow> 'f::field poseidon_engine \<Rightarrow> note_decryptor \<Rightarrow> node_position \<Rightarrow> commitment_hash
     \<Rightarrow> transact_body \<Rightarrow> crypto_error exn + decrypted_note" where
  "decrypt_transact L P D position hash body =
     res_bind (map_err Err (derive_shared_key_blinded L (nd_viewing_key D) (tr_blinded_sender_key body))) (\<lambda>shared.
     let c = with_memo (tr_ciphertext body) (tr_memo body) in
     res_bind (map_err Err (decrypt_with_shared_key L c shared)) (\<lambda>bundle.
     if \<not> (length bundle = 3 \<or> length bundle = 4) then Inl (Err MalformedCommitment)
     else
       res_bind (map_err Err (copy_exact 32 (bundle ! 0))) (\<lambda>master_bytes.
       let decrypted_master = (from_be_bytes master_bytes :: u256) in
       res_bind (decryptor_master P D) (\<lambda>master.
       if decrypted_master \<noteq> master then Inl (Err CommitmentMismatch)
       else
         res_bind (map_err Err (copy_exact 32 (bundle ! 1))) (\<lambda>hash_bytes.
         res_bind (map_err (Err \<circ> TypeErr) (from_token_hash hash_bytes)) (\<lambda>asset.
         res_bind (map_err Err (copy_exact 32 (bundle ! 2))) (\<lambda>random_value.
         let random = take 16 random_value;
             v = (from_be_bytes (take 16 (drop 16 random_value)) :: u128);
             memo = (if 3 < length bundle then from_utf8_lossy (bundle ! 3) else [])
         in
         res_bind (assemble P D master position asset v random memo TransactCommitment) (\<lambda>note.
         if dn_commitment_hash note \<noteq> hash then Inl (Err CommitmentMismatch) else Inr note))))))))"

definition decrypt_shield ::
  "('pt, 'sc) crypto_lib \<Rightarrow> 'f::field poseidon_engine \<Rightarrow> note_decryptor \<Rightarrow> node_position \<Rightarrow> shield_body
     \<Rightarrow> crypto_error exn + decrypted_note" where
  "decrypt_shield L P D position body =
     res_bind (map_err Err (shield_ciphertext (sh_encrypted_bundle body))) (\<lambda>c.
     res_bind (map_err Err (derive_shared_key L (nd_viewing_key D) (sh_shield_key body))) (\<lambda>shared.
     res_bind (map_err Err (decrypt_with_shared_key L c shared)) (\<lambda>decrypted.
     if length decrypted \<noteq> 1 then Inl (Err MalformedCommitment)
     else
       res_bind (map_err Err (copy_exact 16 (decrypted ! 0))) (\<lambda>random.
       res_bind (map_err (Err \<circ> TypeErr) (note_value_try_from_u256 (sh_value body))) (\<lambda>v.
       res_bind (decryptor_master P D) (\<lambda>master.
       res_bind (assemble P D master position (sh_token body) v random [] ShieldCommitment) (\<lambda>note.
       if dn_note_public_key note \<noteq> sh_npk body then Inl (Err CommitmentMismatch) else Inr note)))))))"

definition decrypt_node ::
  "('pt, 'sc) crypto_lib \<Rightarrow> 'f::field poseidon_engine \<Rightarrow> note_decryptor \<Rightarrow> node \<Rightarrow> crypto_error exn + decrypted_note" where
  "decrypt_node L P D n =
     (case nd_body n of
        Transact body \<Rightarrow> decrypt_transact L P D (nd_position n) (nd_hash n) body
      | Shield body \<Rightarrow> decrypt_shield L P D (nd_position n) body)"

section \<open>Block framing\<close>

text \<open>Cutting a byte string by lengths.\<close>

primrec cut :: "nat list \<Rightarrow> bytes \<Rightarrow> bytes list" where
  "cut [] bs = []"
| "cut (n # ns) bs = take n bs # cut ns (drop n bs)"

lemma cut_eq:
  "sum_list ns \<le> length bs \<Longrightarrow> cut ns bs = xs \<longleftrightarrow> map length xs = ns \<and> concat xs = take (sum_list ns) bs"
proof (induction ns arbitrary: bs xs)
  case Nil
  then show ?case by auto
next
  case (Cons n ns)
  show ?case
  proof (cases xs)
    case Nil
    then show ?thesis by auto
  next
    case x: (Cons x xs')
    have "take (n + sum_list ns) bs = take n bs @ take (sum_list ns) (drop n bs)"
      by (rule take_add)
    then have "length x = n \<and> concat (x # xs') = take (n + sum_list ns) bs \<longleftrightarrow>
        length x = n \<and> x = take n bs \<and> concat xs' = take (sum_list ns) (drop n bs)"
      using Cons.prems by auto
    moreover have "sum_list ns \<le> length (drop n bs)" using Cons.prems by simp
    ultimately show ?thesis
      using Cons.IH [of "drop n bs" xs'] Cons.prems unfolding x by auto
  qed
qed

lemma sum_lengths_eq:
  "a + sum_list (map length blocks) < 2 ^ 64 \<Longrightarrow> sum_lengths blocks a = Inr (a + sum_list (map length blocks))"
  by (induction blocks arbitrary: a) (simp_all add: usize_checked_add_def)

lemma split_blocks_eq:
  "offset + sum_list (map length blocks) < 2 ^ 64 \<Longrightarrow> split_blocks blocks d offset =
     (if blocks = [] \<or> offset + sum_list (map length blocks) \<le> length d
      then Inr (cut (map length blocks) (drop offset d)) else Inl MalformedCommitment)"
proof (induction blocks arbitrary: offset)
  case (Cons b blocks)
  then show ?case
    by (auto simp: usize_checked_add_def Let_def add.commute add.left_commute res_bind_def split: sum.splits)
qed simp

lemma decrypt_gcm_eq:
  assumes "length (concat (ct_data c)) + length (ct_tag c) < 2 ^ 64"
  shows "decrypt_gcm L c key =
    (case cl_gcm_decrypt L key (ct_iv c) (concat (ct_data c) @ ct_tag c) of
       None \<Rightarrow> Inl AesErr
     | Some d \<Rightarrow> if length (concat (ct_data c)) \<le> length d
                 then Inr (cut (map length (ct_data c)) d) else Inl MalformedCommitment)"
proof -
  let ?n = "sum_list (map length (ct_data c))"
  have n: "length (concat (ct_data c)) = ?n" by (rule length_concat)
  have lt: "?n + length (ct_tag c) < 2 ^ 64" using assms unfolding n .
  then have "sum_lengths (ct_data c) 0 = Inr ?n" using sum_lengths_eq [of 0 "ct_data c"] by simp
  moreover have "usize_checked_add ?n (length (ct_tag c)) = Some (?n + length (ct_tag c))"
    using lt by (simp add: usize_checked_add_def)
  moreover have "split_blocks (ct_data c) d 0 =
      (if ?n \<le> length d then Inr (cut (map length (ct_data c)) d) else Inl MalformedCommitment)" for d
    using split_blocks_eq [of 0 "ct_data c" d] lt by (cases "ct_data c") simp_all
  ultimately show ?thesis
    by (simp add: decrypt_gcm_def n Let_def split: option.split)
qed

section \<open>Consistency of an opened note\<close>

text \<open>The hash, keys and nullifier a note carries are the ones its other fields determine.\<close>

definition note_consistent :: "'f::field poseidon_engine \<Rightarrow> note_decryptor \<Rightarrow> decrypted_note \<Rightarrow> bool" where
  "note_consistent P D note \<longleftrightarrow>
     (\<exists>master. decryptor_master P D = Inr master
       \<and> note_public_key P master (dn_random note) = Inr (dn_note_public_key note))
     \<and> note_hash P (dn_note_public_key note) (dn_asset note) (dn_value note) = Inr (dn_commitment_hash note)
     \<and> note_nullifier P (nd_nullifying_key D) (leaf_index (dn_position note)) = Inr (dn_nullifier note)
     \<and> blinded_commitment P (dn_commitment_hash note) (dn_note_public_key note)
         (tree_number (dn_position note)) (leaf_index (dn_position note)) = Inr (dn_blinded_commitment note)"

lemma assemble_Inr:
  "assemble P D master position asset v random memo ty = Inr note \<Longrightarrow>
     dn_position note = position \<and> dn_value note = v \<and> dn_asset note = asset \<and> dn_random note = random
     \<and> dn_memo note = memo \<and> dn_commitment_type note = ty
     \<and> note_public_key P master random = Inr (dn_note_public_key note)
     \<and> note_hash P (dn_note_public_key note) asset v = Inr (dn_commitment_hash note)
     \<and> note_nullifier P (nd_nullifying_key D) (leaf_index position) = Inr (dn_nullifier note)
     \<and> blinded_commitment P (dn_commitment_hash note) (dn_note_public_key note)
         (tree_number position) (leaf_index position) = Inr (dn_blinded_commitment note)"
  by (auto simp: assemble_def)

lemma assemble_consistent:
  "assemble P D master position asset v random memo ty = Inr note \<Longrightarrow> decryptor_master P D = Inr master \<Longrightarrow>
     note_consistent P D note"
  by (drule assemble_Inr) (auto simp: note_consistent_def)

lemma decrypt_transact_Inr:
  assumes "decrypt_transact L P D position hash body = Inr note"
  obtains shared blocks master asset random v memo where
    "derive_shared_key_blinded L (nd_viewing_key D) (tr_blinded_sender_key body) = Inr shared"
    "decrypt_with_shared_key L (with_memo (tr_ciphertext body) (tr_memo body)) shared = Inr blocks"
    "decryptor_master P D = Inr master" "from_token_hash (blocks ! 1) = Inr asset"
    "assemble P D master position asset v random memo TransactCommitment = Inr note"
    "dn_commitment_hash note = hash"
  using assms
  by (auto simp: decrypt_transact_def copy_exact_def Let_def map_err_def split: if_splits sum.splits)

lemma decrypt_shield_Inr:
  assumes "decrypt_shield L P D position body = Inr note"
  obtains master random v where
    "decryptor_master P D = Inr master" "note_value_try_from_u256 (sh_value body) = Inr v"
    "assemble P D master position (sh_token body) v random [] ShieldCommitment = Inr note"
    "dn_note_public_key note = sh_npk body"
  using assms
  by (auto simp: decrypt_shield_def copy_exact_def Let_def map_err_def split: if_splits sum.splits)

lemma shield_ignores_hash:
  "decrypt_node L P D \<lparr>nd_position = p, nd_hash = h, nd_block = b, nd_body = Shield s\<rparr> =
   decrypt_node L P D \<lparr>nd_position = p, nd_hash = h', nd_block = b, nd_body = Shield s\<rparr>"
  by (simp add: decrypt_node_def)

text \<open>The facts a Diffie-Hellman exchange rests on: a public key is the base point times the clamped scalar,
  compression loses nothing, and scalars act commutatively on points.\<close>

definition ecdh_laws :: "('pt, 'sc) crypto_lib \<Rightarrow> 'pt \<Rightarrow> bool" where
  "ecdh_laws L base \<longleftrightarrow>
     (\<forall>k. length k = 32 \<longrightarrow> cl_ed_public L k = cl_compress L (cl_mul L base (to_curve25519_scalar L k)))
     \<and> (\<forall>p. cl_decompress L (cl_compress L p) = Some p)
     \<and> (\<forall>p s t. cl_mul L (cl_mul L p s) t = cl_mul L (cl_mul L p t) s)"

lemma derive_shared_key_public:
  "ecdh_laws L base \<Longrightarrow> length k' = 32 \<Longrightarrow>
     derive_shared_key L k (viewing_public_key L k') =
       Inr (cl_sha256 L (cl_compress L (cl_mul L (cl_mul L base (to_curve25519_scalar L k')) (to_curve25519_scalar L k))))"
  by (simp add: derive_shared_key_def viewing_public_key_def decompress_def shared_key_def ecdh_laws_def Let_def)

text \<open>A toy library over the natural numbers; its cipher is the identity with an unchecked tag.\<close>

definition toy_lib :: "(nat, nat) crypto_lib" where
  "toy_lib = \<lparr>cl_sha512 = \<lambda>k. k @ k, cl_sha256 = \<lambda>b. b, cl_ed_public = \<lambda>k. replicate (2 * unat (k ! 1)) 0,
     cl_decompress = \<lambda>b. Some (length b), cl_compress = \<lambda>p. replicate p 0, cl_scalar = \<lambda>b. unat (b ! 1),
     cl_mul = (*), cl_gcm_decrypt = \<lambda>key nonce message. Some (take (length message - 16) message)\<rparr>"

lemma toy_laws: "ecdh_laws toy_lib 2"
  by (auto simp: ecdh_laws_def toy_lib_def to_curve25519_scalar_def Let_def nth_append)

definition toy_decryptor :: note_decryptor where
  "toy_decryptor = \<lparr>nd_viewing_key = replicate 32 0, nd_spending_public_key = \<lparr>pt_x = 1, pt_y = 2\<rparr>,
     nd_nullifying_key = 4\<rparr>"

lemma sample_hash:
  "\<exists>h. hash_field_inputs sample_engine [a, b] = Inr h" "\<exists>h. hash_field_inputs sample_engine [a, b, c] = Inr h"
  using sample_load [of 3] sample_load [of 4]
    hash_field_inputs_total [of "[a, b]" sample_engine] hash_field_inputs_total [of "[a, b, c]" sample_engine]
  by (auto simp: numeral_eq_Suc)

text \<open>On the sample engine every formula of a note has a result.\<close>

lemma sample_note:
  obtains master npk h nf b where
    "decryptor_master sample_engine toy_decryptor = Inr master"
    "note_public_key sample_engine master random = Inr npk" "note_hash sample_engine npk asset v = Inr h"
    "note_nullifier sample_engine (nd_nullifying_key toy_decryptor) 3 = Inr nf"
    "blinded_commitment sample_engine h npk 0 3 = Inr b"
proof -
  obtain master where m: "decryptor_master sample_engine toy_decryptor = Inr master"
    unfolding decryptor_master_def commitment_inputs using sample_hash(2) by blast
  obtain npk where k: "note_public_key sample_engine master random = Inr npk"
    unfolding commitment_inputs using sample_hash(1) by blast
  obtain h where h: "note_hash sample_engine npk asset v = Inr h"
    unfolding commitment_inputs using sample_hash(2) by blast
  obtain n where "hash_field_inputs sample_engine [nd_nullifying_key toy_decryptor, ucast (3 :: u32)] = Inr n"
    using sample_hash(1) by blast
  then have nf: "note_nullifier sample_engine (nd_nullifying_key toy_decryptor) 3 = Inr (to_be_bytes n)"
    by (simp add: commitment_inputs)
  obtain b where "blinded_commitment sample_engine h npk 0 3 = Inr b"
    unfolding commitment_inputs using sample_hash(2) by blast
  with m k h nf show ?thesis by (rule that)
qed

text \<open>A shield node addressed to the toy wallet.\<close>

definition toy_node :: "u256 \<Rightarrow> commitment_hash \<Rightarrow> node" where
  "toy_node npk h = \<lparr>nd_position = \<lparr>tree_number = 0, leaf_index = 3\<rparr>, nd_hash = h, nd_block = 0,
     nd_body = Shield \<lparr>sh_npk = npk, sh_token = Erc20 (replicate 20 0), sh_value = 5,
       sh_encrypted_bundle = [replicate 32 0, replicate 32 0], sh_shield_key = replicate 32 1\<rparr>\<rparr>"

lemma toy_node_opens:
  obtains npk h opened where "decrypt_node toy_lib sample_engine toy_decryptor (toy_node npk h) = Inr opened"
    "dn_value opened = 5"
proof -
  let ?random = "replicate 16 (0 :: byte)" and ?asset = "Erc20 (replicate 20 0)"
    obtain master npk h nf b where m: "decryptor_master sample_engine toy_decryptor = Inr master"
    and k: "note_public_key sample_engine master ?random = Inr npk" and h: "note_hash sample_engine npk ?asset 5 = Inr h"
    and nf: "note_nullifier sample_engine (nd_nullifying_key toy_decryptor) 3 = Inr nf"
    and b: "blinded_commitment sample_engine h npk 0 3 = Inr b"
    by (rule sample_note)
  have ct: "shield_ciphertext [replicate 32 0, replicate 32 0] =
      Inr \<lparr>ct_iv = replicate 16 0, ct_tag = replicate 16 0, ct_data = [?random]\<rparr>"
    by (simp add: shield_ciphertext_def copy_exact_def)
  have v: "note_value_try_from_u256 5 = Inr 5"
    by (simp add: note_value_try_from_u256_eq)
  have "\<exists>opened. decrypt_node toy_lib sample_engine toy_decryptor (toy_node npk h) = Inr opened \<and> dn_value opened = 5"
    by (simp add: toy_node_def decrypt_node_def decrypt_shield_def ct v m k h nf b assemble_def
        derive_shared_key_def decompress_def decrypt_with_shared_key_def decrypt_gcm_eq toy_lib_def copy_exact_def)
  then show ?thesis using that by blast
qed

section \<open>Properties\<close>

text \<open>Decrypting a ciphertext returns blocks exactly when GCM authenticates ciphertext and tag and the
  plaintext, cut off where the ciphertext blocks end, consists of blocks with the lengths of the ciphertext
  blocks; it reports the AES error (the leaf is not ours) exactly when GCM does not authenticate.\<close>

theorem decrypt_gcm_exact:
  assumes "length (concat (ct_data c)) + length (ct_tag c) < 2 ^ 64"
  shows "(decrypt_gcm L c key = Inr blocks \<longleftrightarrow>
      (\<exists>d. cl_gcm_decrypt L key (ct_iv c) (concat (ct_data c) @ ct_tag c) = Some d
        \<and> length (concat (ct_data c)) \<le> length d \<and> map length blocks = map length (ct_data c)
        \<and> concat blocks = take (length (concat (ct_data c))) d))
    \<and> (decrypt_gcm L c key = Inl AesErr \<longleftrightarrow>
        cl_gcm_decrypt L key (ct_iv c) (concat (ct_data c) @ ct_tag c) = None)"
proof (cases "cl_gcm_decrypt L key (ct_iv c) (concat (ct_data c) @ ct_tag c)")
  case None
  then show ?thesis by (simp add: decrypt_gcm_eq [OF assms])
next
  case (Some d)
  then show ?thesis
    using cut_eq [of "map length (ct_data c)" d blocks]
    by (auto simp: decrypt_gcm_eq [OF assms] length_concat)
qed

lemma decrypt_gcm_exact_witness:
  "decrypt_gcm toy_lib \<lparr>ct_iv = [], ct_tag = replicate 16 7, ct_data = [[1, 2], [3]]\<rparr> (replicate 32 4) = Inr [[1, 2], [3]]"
  by (simp add: decrypt_gcm_exact toy_lib_def)

text \<open>Two viewing keys derive the same note key from each other's public keys.\<close>

theorem ecdh_agreement:
  assumes "ecdh_laws L base" and "length k1 = 32" and "length k2 = 32"
  shows "derive_shared_key L k1 (viewing_public_key L k2) = derive_shared_key L k2 (viewing_public_key L k1)
    \<and> (\<exists>key. derive_shared_key L k1 (viewing_public_key L k2) = Inr key)"
proof -
  have "cl_mul L (cl_mul L base s) t = cl_mul L (cl_mul L base t) s" for s t
    using assms(1) unfolding ecdh_laws_def by blast
  then show ?thesis using assms derive_shared_key_public by metis
qed

lemma ecdh_agreement_witness:
  "derive_shared_key toy_lib (replicate 32 3) (viewing_public_key toy_lib (replicate 32 5)) =
   derive_shared_key toy_lib (replicate 32 5) (viewing_public_key toy_lib (replicate 32 3))"
  using ecdh_agreement [OF toy_laws, of "replicate 32 3" "replicate 32 5"] by simp


text \<open>C16: a transact node whose ciphertext opens to the wallet's master public key, an asset, sixteen random
  bytes, a value and a memo, and whose stored hash is the commitment to them, is returned as that note.\<close>

theorem transact_opens:
  assumes "nd_body n = Transact body" and "map length (ct_data (tr_ciphertext body)) = [32, 32, 32]"
    and "96 + length memo + length (ct_tag (tr_ciphertext body)) < 2 ^ 64"
    and "wf_asset asset" and "length random = 16" and "length memo = length (tr_memo body)"
    and "cl_decompress L (tr_blinded_sender_key body) = Some point"
    and "cl_gcm_decrypt L (shared_key L (nd_viewing_key D) point) (ct_iv (tr_ciphertext body))
        (concat (ct_data (tr_ciphertext body)) @ tr_memo body @ ct_tag (tr_ciphertext body)) =
      Some (to_be_bytes master @ to_be_bytes (token_hash asset) @ random @ to_be_bytes v @ memo)"
    and "decryptor_master P D = Inr master"
    and "note_public_key P master random = Inr npk" and "note_hash P npk asset v = Inr (nd_hash n)"
    and "note_nullifier P (nd_nullifying_key D) (leaf_index (nd_position n)) = Inr nf"
    and "blinded_commitment P (nd_hash n) npk (tree_number (nd_position n)) (leaf_index (nd_position n)) = Inr blinded"
  shows "decrypt_node L P D n =
    Inr \<lparr>dn_position = nd_position n, dn_value = v, dn_asset = asset, dn_random = random,
      dn_memo = from_utf8_lossy memo, dn_commitment_hash = nd_hash n, dn_note_public_key = npk, dn_nullifier = nf,
      dn_blinded_commitment = blinded, dn_commitment_type = TransactCommitment\<rparr>"
proof -
  let ?c = "with_memo (tr_ciphertext body) (tr_memo body)"
  let ?blocks = "[to_be_bytes master, to_be_bytes (token_hash asset), random @ to_be_bytes v, memo]"
  have lens: "map length (ct_data ?c) = [32, 32, 32, length memo]"
    using assms(2,6) by (simp add: with_memo_def)
  then have total: "length (concat (ct_data ?c)) = 96 + length memo"
    by (simp add: length_concat)
  have small: "length (concat (ct_data ?c)) + length (ct_tag ?c) < 2 ^ 64"
    using assms(3) total by (simp add: with_memo_def)
  have gcm: "cl_gcm_decrypt L (shared_key L (nd_viewing_key D) point) (ct_iv ?c) (concat (ct_data ?c) @ ct_tag ?c) =
      Some (concat ?blocks)"
    using assms(8) by (simp add: with_memo_def)
  have "cut [32, 32, 32, length memo] (concat ?blocks) = ?blocks"
    using assms(5) by (subst cut_eq) simp_all
  then have opened: "decrypt_with_shared_key L ?c (shared_key L (nd_viewing_key D) point) = Inr ?blocks"
    using assms(5) by (simp add: decrypt_with_shared_key_def decrypt_gcm_eq [OF small] gcm lens total)
  have "derive_shared_key_blinded L (nd_viewing_key D) (tr_blinded_sender_key body) =
      Inr (shared_key L (nd_viewing_key D) point)"
    using assms(7) by (simp add: derive_shared_key_blinded_def decompress_def)
  with opened show ?thesis
    using assms(1,4,5,9-13)
    by (simp add: decrypt_node_def decrypt_transact_def Let_def copy_exact_def from_token_hash_token_hash
        assemble_def)
qed

lemma transact_opens_witness:
  "\<exists>n opened. decrypt_node toy_lib sample_engine toy_decryptor n = Inr opened \<and> nd_hash n = dn_commitment_hash opened
     \<and> dn_value opened = 5 \<and> dn_memo opened = [104, 105]"
proof -
  let ?random = "replicate 16 (9 :: byte)" and ?asset = "Erc20 (replicate 20 0)"
  let ?pos = "\<lparr>tree_number = 0, leaf_index = 3\<rparr>"
  obtain master npk h nf b where m: "decryptor_master sample_engine toy_decryptor = Inr master"
    and k: "note_public_key sample_engine master ?random = Inr npk" and h: "note_hash sample_engine npk ?asset 5 = Inr h"
    and nf: "note_nullifier sample_engine (nd_nullifying_key toy_decryptor) 3 = Inr nf"
    and b: "blinded_commitment sample_engine h npk 0 3 = Inr b"
    by (rule sample_note)
  let ?ct = "\<lparr>ct_iv = replicate 16 0, ct_tag = replicate 16 0,
    ct_data = [to_be_bytes master, to_be_bytes (token_hash ?asset), ?random @ to_be_bytes (5 :: u128)]\<rparr>"
  let ?body = "\<lparr>tr_ciphertext = ?ct, tr_memo = [104, 105], tr_blinded_sender_key = replicate 32 1,
    tr_blinded_receiver_key = replicate 32 1, tr_annotation = []\<rparr>"
  let ?n = "\<lparr>nd_position = ?pos, nd_hash = h, nd_block = 0, nd_body = Transact ?body\<rparr>"
  have utf8: "from_utf8_lossy [104, 105] = [104, 105]" by code_simp
  have gcm: "cl_gcm_decrypt toy_lib key iv (concat (ct_data ?ct) @ [104, 105] @ ct_tag ?ct) =
      Some (to_be_bytes master @ to_be_bytes (token_hash ?asset) @ ?random @ to_be_bytes (5 :: u128) @ [104, 105])" for key iv
    by (simp add: toy_lib_def)
  have "cl_decompress toy_lib (replicate 32 1) = Some 32" by (simp add: toy_lib_def)
  with transact_opens [of ?n ?body "[104, 105]" ?asset ?random toy_lib 32 toy_decryptor master 5 sample_engine npk nf b]
    gcm m k h nf b utf8
  show ?thesis by (intro exI [of _ ?n]) simp
qed


end
