(* ===== verification/Decoder.thy ===== *)
theory Decoder
  imports Note Forest_Properties "HOL-Library.AList" "HOL-Library.Multiset"
begin

text \<open>
  \<^verbatim>\<open>decoder/src\<close>: the scan of the forest with a wallet's decryptor and the balances of the notes it finds.
  A \<^verbatim>\<open>HashMap\<close> is an association list with distinct keys; nothing proved here depends on its order.
\<close>

section \<open>The scan (decode.rs)\<close>

datatype decode_error = DecodeDatabase database_error

record decoder =
  dc_decryptor :: note_decryptor

definition db_failed :: "db_err \<Rightarrow> decode_error exn" where
  "db_failed = map_exn DecodeDatabase"

text \<open>The loop over the nodes of a tree: a node that does not open is skipped, whatever the error.\<close>

fun decode_nodes ::
  "(node \<Rightarrow> crypto_error exn + decrypted_note) \<Rightarrow> (db_err + node) list \<Rightarrow> decrypted_note list
     \<Rightarrow> decode_error exn + decrypted_note list" where
  "decode_nodes decrypt_with [] found = Inr found"
| "decode_nodes decrypt_with (entry # rest) found =
     res_bind (map_err db_failed entry) (\<lambda>n.
       (case decrypt_with n of
          Inr opened \<Rightarrow> decode_nodes decrypt_with rest (found @ [opened])
        | Inl (Err _) \<Rightarrow> decode_nodes decrypt_with rest found
        | Inl Panic \<Rightarrow> Inl Panic))"

definition decode_tree ::
  "('pt, 'sc) crypto_lib \<Rightarrow> 'f::field poseidon_engine \<Rightarrow> decoder \<Rightarrow> ('s, 'z) reader_scheme \<Rightarrow> 's \<Rightarrow> u32
     \<Rightarrow> decode_error exn + decrypted_note list" where
  "decode_tree L P W R s tree =
     res_bind (map_err db_failed (nodes R s tree)) (\<lambda>entries.
       decode_nodes (decrypt_node L P (dc_decryptor W)) entries [])"

fun decode_trees :: "(u32 \<Rightarrow> decode_error exn + decrypted_note list) \<Rightarrow> u32 list \<Rightarrow> decrypted_note list
     \<Rightarrow> decode_error exn + decrypted_note list" where
  "decode_trees decode [] found = Inr found"
| "decode_trees decode (tree # trees) found =
     res_bind (decode tree) (\<lambda>more. decode_trees decode trees (found @ more))"

definition decode_all ::
  "('pt, 'sc) crypto_lib \<Rightarrow> 'f::field poseidon_engine \<Rightarrow> decoder \<Rightarrow> ('s, 'z) reader_scheme \<Rightarrow> 's
     \<Rightarrow> decode_error exn + decrypted_note list" where
  "decode_all L P W R s =
     res_bind (map_err db_failed (tree_count R s)) (\<lambda>count.
       decode_trees (decode_tree L P W R s) (map of_nat [0..<unat count]) [])"

section \<open>Decoded notes and balances (notes.rs)\<close>

record balance =
  bal_value :: u256
  unspent_utxos :: "decrypted_note list"

record decoded_notes =
  by_asset :: "(asset_id \<times> decrypted_note list) list"

text \<open>\<^verbatim>\<open>entry(k).or_default().push(x)\<close>\<close>

primrec entry_push :: "'k \<Rightarrow> 'v \<Rightarrow> ('k \<times> 'v list) list \<Rightarrow> ('k \<times> 'v list) list" where
  "entry_push k x [] = [(k, [x])]"
| "entry_push k x (e # es) = (if fst e = k then (k, snd e @ [x]) # es else e # entry_push k x es)"

definition from_notes :: "decrypted_note list \<Rightarrow> decoded_notes" where
  "from_notes ns = \<lparr>by_asset = fold (\<lambda>n. entry_push (dn_asset n) n) ns []\<rparr>"

definition assets :: "decoded_notes \<Rightarrow> asset_id list" where
  "assets d = map fst (by_asset d)"

definition utxos :: "decoded_notes \<Rightarrow> asset_id \<Rightarrow> decrypted_note list" where
  "utxos d asset = (case map_of (by_asset d) asset of None \<Rightarrow> [] | Some ns \<Rightarrow> ns)"

definition to_notes :: "decoded_notes \<Rightarrow> decrypted_note list" where
  "to_notes d = concat (map snd (by_asset d))"

definition u256_saturating_add :: "u256 \<Rightarrow> u256 \<Rightarrow> u256" where
  "u256_saturating_add a b = (if unat a + unat b < 2 ^ 256 then a + b else - 1)"

fun unspent_loop ::
  "('s, 'z) reader_scheme \<Rightarrow> 's \<Rightarrow> decrypted_note list \<Rightarrow> u256 \<Rightarrow> decrypted_note list
     \<Rightarrow> decode_error exn + u256 \<times> decrypted_note list" where
  "unspent_loop R s [] v unspent = Inr (v, unspent)"
| "unspent_loop R s (n # ns) v unspent =
     res_bind (map_err db_failed (is_nullified R s (tree_number (dn_position n)) (dn_nullifier n))) (\<lambda>spent.
       if spent then unspent_loop R s ns v unspent
       else unspent_loop R s ns (u256_saturating_add v (note_value_as_u256 (dn_value n))) (unspent @ [n]))"

fun balance_loop ::
  "('s, 'z) reader_scheme \<Rightarrow> 's \<Rightarrow> (asset_id \<times> decrypted_note list) list \<Rightarrow> (asset_id \<times> balance) list
     \<Rightarrow> decode_error exn + (asset_id \<times> balance) list" where
  "balance_loop R s [] balances = Inr balances"
| "balance_loop R s ((asset, ns) # rest) balances =
     res_bind (unspent_loop R s ns 0 []) (\<lambda>(v, unspent).
       balance_loop R s rest
         (if unspent \<noteq> [] then AList.update asset \<lparr>bal_value = v, unspent_utxos = unspent\<rparr> balances
          else balances))"

definition balances ::
  "('s, 'z) reader_scheme \<Rightarrow> 's \<Rightarrow> decoded_notes \<Rightarrow> decode_error exn + (asset_id \<times> balance) list" where
  "balances R s d = balance_loop R s (by_asset d) []"

section \<open>Grouping\<close>

lemma entry_push_facts:
  "map_of (entry_push k x m) =
     (map_of m)(k \<mapsto> (case map_of m k of None \<Rightarrow> [x] | Some xs \<Rightarrow> xs @ [x]))"
  "set (map fst (entry_push k x m)) = insert k (set (map fst m))"
  "distinct (map fst m) \<Longrightarrow> distinct (map fst (entry_push k x m))"
  "mset (concat (map snd (entry_push k x m))) = add_mset x (mset (concat (map snd m)))"
  by (induction m) (auto simp: fun_eq_iff)

definition grouped :: "decrypted_note list \<Rightarrow> (asset_id \<times> decrypted_note list) list \<Rightarrow> bool" where
  "grouped ns m \<longleftrightarrow> distinct (map fst m) \<and> mset (concat (map snd m)) = mset ns
     \<and> (\<forall>a. map_of m a = (let xs = filter (\<lambda>n. dn_asset n = a) ns in if xs = [] then None else Some xs))"

lemma from_notes_grouped: "grouped ns (by_asset (from_notes ns))"
proof (induction ns rule: rev_induct)
  case Nil
  then show ?case by (simp add: grouped_def from_notes_def)
next
  case (snoc n ns)
  then show ?case
    by (simp add: grouped_def from_notes_def entry_push_facts Let_def)
qed

section \<open>Sums\<close>

lemma saturating_fold:
  "fold (\<lambda>n v. u256_saturating_add v (note_value_as_u256 (dn_value n))) ns v =
     of_nat (min (2 ^ 256 - 1) (unat v + (\<Sum>n \<leftarrow> ns. unat (dn_value n))))"
proof (induction ns arbitrary: v)
  case Nil
  have "unat v \<le> 2 ^ 256 - 1" using unsigned_less [of v, where 'a = nat] by simp
  then show ?case by (simp add: min_absorb2)
next
  case (Cons n ns)
  have n: "unat (note_value_as_u256 (dn_value n)) = unat (dn_value n)"
    using unsigned_less [of "dn_value n", where 'a = nat]
    by (simp add: note_value_as_u256_def unat_ucast_small)
  have "unat (u256_saturating_add v (note_value_as_u256 (dn_value n))) = min (2 ^ 256 - 1) (unat v + unat (dn_value n))"
    by (auto simp: u256_saturating_add_def n unat_word_ariths unat_minus_one)
  then show ?case by (simp add: Cons.IH min_def)
qed

section \<open>What a scan returns\<close>

definition opened :: "(node \<Rightarrow> crypto_error exn + decrypted_note) \<Rightarrow> node list \<Rightarrow> decrypted_note list" where
  "opened decrypt_with = List.map_filter (\<lambda>n. case decrypt_with n of Inl _ \<Rightarrow> None | Inr x \<Rightarrow> Some x)"

lemma opened_simps [simp]:
  "opened f [] = []"
  "opened f (n # ns) = (case f n of Inl _ \<Rightarrow> opened f ns | Inr x \<Rightarrow> x # opened f ns)"
  "opened f (ns @ ns') = opened f ns @ opened f ns'"
  by (simp_all add: opened_def List.map_filter_def split: sum.split)

lemma opened_concat: "opened f (concat nss) = concat (map (opened f) nss)"
  by (induction nss) simp_all

lemma set_opened: "set (opened f ns) = {x. \<exists>n \<in> set ns. f n = Inr x}"
  by (induction ns) (auto split: sum.splits)

lemma decode_nodes_eq:
  "list_all (\<lambda>n. f n \<noteq> Inl Panic) ns \<Longrightarrow> decode_nodes f (map Inr ns) found = Inr (found @ opened f ns)"
  by (induction ns arbitrary: found) (auto split: sum.split exn.split)

lemma decode_trees_eq:
  "list_all (\<lambda>t. decode t = Inr (f t)) trees \<Longrightarrow> decode_trees decode trees found = Inr (found @ concat (map f trees))"
  by (induction trees arbitrary: found) simp_all

text \<open>The order of the forest: by tree, then by leaf.\<close>

definition forest_less :: "node \<Rightarrow> node \<Rightarrow> bool" where
  "forest_less n n' \<longleftrightarrow> tree_number (nd_position n) < tree_number (nd_position n')
     \<or> tree_number (nd_position n) = tree_number (nd_position n')
        \<and> leaf_index (nd_position n) < leaf_index (nd_position n')"

definition all_leaves :: "tables \<Rightarrow> node list \<Rightarrow> bool" where
  "all_leaves m ns \<longleftrightarrow> sorted_wrt forest_less ns \<and> set ns = {n. \<exists>t p. leaf_at m t p = Some n}"

lemma sorted_wrt_concat:
  assumes "list_all (sorted_wrt r) xss" and "sorted_wrt (\<lambda>xs ys. \<forall>x \<in> set xs. \<forall>y \<in> set ys. r x y) xss"
  shows "sorted_wrt r (concat xss)"
  using assms by (induction xss) (auto simp: sorted_wrt_append)

text \<open>The notes of a list that the forest does not nullify, and the balance they make.\<close>

definition unspent :: "tables \<Rightarrow> decrypted_note list \<Rightarrow> decrypted_note list" where
  "unspent m = filter (\<lambda>n. \<not> nullified_in m (tree_number (dn_position n)) (dn_nullifier n))"

definition balance_of :: "tables \<Rightarrow> decrypted_note list \<Rightarrow> balance option" where
  "balance_of m ns =
     (let fresh = unspent m ns
      in if fresh = [] then None
         else Some \<lparr>bal_value = of_nat (min (2 ^ 256 - 1) (\<Sum>n \<leftarrow> fresh. unat (dn_value n))), unspent_utxos = fresh\<rparr>)"

context reader_contract
begin

lemma decode_tree_law:
  assumes "ready s" and ok: "forest_ok (contents s)"
    and total: "\<And>p n. leaf_at (contents s) t p = Some n \<Longrightarrow> decrypt_node L P (dc_decryptor W) n \<noteq> Inl Panic"
  shows "\<exists>ns. decode_tree L P W R s t = Inr (opened (decrypt_node L P (dc_decryptor W)) ns)
    \<and> sorted_wrt forest_less ns \<and> set ns = {n. \<exists>p. leaf_at (contents s) t p = Some n}"
proof -
  obtain pns where e: "nodes R s t = Inr (map (Inr \<circ> snd) pns)" "bt_ok pns" "map_of pns = leaf_at (contents s) t"
    using nodes_law [OF assms(1,2)] by blast
  have leaf: "(p, n) \<in> set pns \<longleftrightarrow> leaf_at (contents s) t p = Some n" for p n
    using e(2,3) by (metis bt_ok_map_of map_of_SomeD)
  have set: "set (map snd pns) = {n. \<exists>p. leaf_at (contents s) t p = Some n}"
    using leaf by force
  then have "list_all (\<lambda>n. decrypt_node L P (dc_decryptor W) n \<noteq> Inl Panic) (map snd pns)"
    using total by (auto simp: list_all_iff simp del: set_map)
  from decode_nodes_eq [OF this, of "[]"] have "decode_tree L P W R s t =
      Inr (opened (decrypt_node L P (dc_decryptor W)) (map snd pns))"
    by (simp add: decode_tree_def e(1))
  moreover have "sorted_wrt forest_less (map snd pns)"
  proof -
    have at: "node_at t p n" if "(p, n) \<in> set pns" for p n
      using leaf_at_storable(2) [OF ok] leaf that by blast
    have "sorted_wrt (\<lambda>x y. fst x < fst y) pns" using e(2) by (simp add: bt_ok_def sorted_wrt_map)
    then have "sorted_wrt (\<lambda>x y. forest_less (snd x) (snd y)) pns"
      by (rule sorted_wrt_mono_rel [rotated]) (auto simp: forest_less_def node_at_def dest!: at)
    then show ?thesis by (simp add: sorted_wrt_map)
  qed
  ultimately show ?thesis using set by blast
qed

lemma decode_all_law:
  assumes "ready s" and ok: "forest_ok (contents s)"
    and total: "\<And>t p n. leaf_at (contents s) t p = Some n \<Longrightarrow> decrypt_node L P (dc_decryptor W) n \<noteq> Inl Panic"
  shows "\<exists>ns. decode_all L P W R s = Inr (opened (decrypt_node L P (dc_decryptor W)) ns)
    \<and> all_leaves (contents s) ns"
proof -
  let ?f = "decrypt_node L P (dc_decryptor W)" and ?m = "contents s"
  have "\<exists>ns. decode_tree L P W R s t = Inr (opened ?f ns)
      \<and> sorted_wrt forest_less ns \<and> set ns = {n. \<exists>p. leaf_at ?m t p = Some n}" for t
    using decode_tree_law [OF assms(1,2)] total by blast
  then obtain g where g: "\<And>t. decode_tree L P W R s t = Inr (opened ?f (g t))"
    "\<And>t. sorted_wrt forest_less (g t)" "\<And>t. set (g t) = {n. \<exists>p. leaf_at ?m t p = Some n}"
    by metis
  obtain count where count: "tree_count R s = Inr count" "unat count = forest_span ?m"
    by (rule tree_count_law [OF assms(1,2)])
  let ?trees = "map (of_nat :: nat \<Rightarrow> u32) [0..<unat count]"
  let ?ns = "concat (map g ?trees)"
  have small: "forest_span ?m < 2 ^ 32" using unsigned_less [of count, where 'a = nat] count(2) by simp
  have "decode_all L P W R s = Inr (opened ?f ?ns)"
    using decode_trees_eq [of "decode_tree L P W R s" "\<lambda>t. opened ?f (g t)" ?trees "[]"]
    by (simp add: decode_all_def count(1) g(1) opened_concat list_all_iff comp_def)
  moreover have "sorted_wrt forest_less ?ns"
  proof (rule sorted_wrt_concat)
    show "list_all (sorted_wrt forest_less) (map g ?trees)" by (simp add: list_all_iff g(2))
    have at: "tree_number (nd_position n) = t" if "n \<in> set (g t)" for n t
      using that leaf_at_storable(2) [OF ok] by (auto simp: g(3) node_at_def)
    have "sorted_wrt (<) ?trees"
      unfolding sorted_wrt_map
      by (rule sorted_wrt_mono_rel [OF _ sorted_wrt_upt])
        (use small count in \<open>auto simp: word_less_nat_alt unat_of_nat_small\<close>)
    then show "sorted_wrt (\<lambda>xs ys. \<forall>x \<in> set xs. \<forall>y \<in> set ys. forest_less x y) (map g ?trees)"
      unfolding sorted_wrt_map [of _ g]
      by (rule sorted_wrt_mono_rel [rotated]) (auto simp: forest_less_def dest!: at)
  qed
  moreover have "set ?ns = {n. \<exists>t p. leaf_at ?m t p = Some n}"
  proof -
    have "t \<in> set ?trees" if "leaf_at ?m t p = Some n" for t p n
    proof -
      have "unat t < unat count"
        using has_leaf_in_span [of ?m t p] has_leaf_iff [OF ok] that count(2) by simp
      then show ?thesis by (auto intro!: image_eqI [of _ _ "unat t"])
    qed
    then have "t \<in> of_nat ` {0..<unat count}" if "leaf_at ?m t p = Some n" for t p n
      using that by fastforce
    then show ?thesis by (fastforce simp: g(3))
  qed
  ultimately show ?thesis unfolding all_leaves_def by blast
qed

lemma unspent_loop_law:
  assumes "ready s"
  shows "unspent_loop R s ns v found =
    (let fresh = filter (\<lambda>n. \<not> nullified_in (contents s) (tree_number (dn_position n)) (dn_nullifier n)) ns
     in Inr (fold (\<lambda>n v. u256_saturating_add v (note_value_as_u256 (dn_value n))) fresh v, found @ fresh))"
  by (induction ns arbitrary: v found) (simp_all add: is_nullified_law [OF assms] Let_def)

lemma balance_loop_law:
  assumes "ready s" and "distinct (map fst groups)"
  shows "\<exists>bs. balance_loop R s groups bal = Inr bs \<and> (\<forall>a. map_of bs a =
    (case map_of groups a of None \<Rightarrow> map_of bal a
     | Some ns \<Rightarrow> (case balance_of (contents s) ns of None \<Rightarrow> map_of bal a | Some b \<Rightarrow> Some b)))"
  using assms(2)
proof (induction groups arbitrary: bal)
  case Nil
  then show ?case by simp
next
  case (Cons g groups)
  obtain a ns where g: "g = (a, ns)" by (cases g)
  let ?bal = "case balance_of (contents s) ns of None \<Rightarrow> bal | Some b \<Rightarrow> AList.update a b bal"
  have step: "balance_loop R s (g # groups) bal = balance_loop R s groups ?bal"
    using saturating_fold [of "unspent (contents s) ns" 0]
    by (simp add: g unspent_loop_law [OF assms(1)] Let_def balance_of_def unspent_def)
  obtain bs where bs: "balance_loop R s groups ?bal = Inr bs"
    "\<And>a. map_of bs a = (case map_of groups a of None \<Rightarrow> map_of ?bal a
     | Some ns \<Rightarrow> (case balance_of (contents s) ns of None \<Rightarrow> map_of ?bal a | Some b \<Rightarrow> Some b))"
    using Cons.IH [of ?bal] Cons.prems by auto
  have none: "map_of groups a = None" using Cons.prems by (simp add: g map_of_eq_None_iff)
  have bal: "map_of ?bal x = (if x = a then (case balance_of (contents s) ns of None \<Rightarrow> map_of bal x | Some b \<Rightarrow> Some b)
      else map_of bal x)" for x
    by (simp add: update_conv' split: option.split)
  have "map_of bs x = (case map_of (g # groups) x of None \<Rightarrow> map_of bal x
     | Some ns \<Rightarrow> (case balance_of (contents s) ns of None \<Rightarrow> map_of bal x | Some b \<Rightarrow> Some b))" for x
    using none unfolding bs(2) bal by (simp add: g)
  with step bs(1) show ?case by auto
qed

lemma balances_law:
  assumes "ready s" and "grouped ns (by_asset d)"
  shows "\<exists>bs. balances R s d = Inr bs
    \<and> map_of bs = (\<lambda>a. balance_of (contents s) (filter (\<lambda>n. dn_asset n = a) ns))"
proof -
  have d: "distinct (map fst (by_asset d))"
    and m: "map_of (by_asset d) a = (let xs = filter (\<lambda>n. dn_asset n = a) ns in if xs = [] then None else Some xs)" for a
    using assms(2) by (simp_all add: grouped_def)
  have nil: "balance_of (contents s) [] = None" by (simp add: balance_of_def unspent_def)
  obtain bs where bs: "balance_loop R s (by_asset d) [] = Inr bs"
    "\<And>a. map_of bs a = (case map_of (by_asset d) a of None \<Rightarrow> map_of [] a
     | Some ns \<Rightarrow> (case balance_of (contents s) ns of None \<Rightarrow> map_of [] a | Some b \<Rightarrow> Some b))"
    using balance_loop_law [OF assms(1) d, of "[]"] by blast
  have "map_of bs a = balance_of (contents s) (filter (\<lambda>n. dn_asset n = a) ns)" for a
    unfolding bs(2) m Let_def by (simp add: nil split: option.split)
  with bs(1) show ?thesis by (auto simp: balances_def)
qed

end

section \<open>Properties\<close>

text \<open>Grouping decoded notes loses none and duplicates none: each asset occurs once, its bucket holds exactly
  its notes in their order, and flattening the buckets gives the notes back up to order.\<close>

theorem from_notes_partitions:
  "distinct (assets (from_notes ns)) \<and> utxos (from_notes ns) a = filter (\<lambda>n. dn_asset n = a) ns
    \<and> mset (to_notes (from_notes ns)) = mset ns"
  using from_notes_grouped [of ns]
  by (auto simp: grouped_def assets_def utxos_def to_notes_def Let_def)

text \<open>C14: decoding the forest tries every stored leaf of every tree exactly once, in forest order, and returns
  exactly the notes that open; a leaf that does not open never hides another.\<close>

theorem decode_all_complete:
  assumes "reader_contract R contents ready" and "ready s" and "forest_ok (contents s)"
    and "\<And>t p n. leaf_at (contents s) t p = Some n \<Longrightarrow> decrypt_node L P (dc_decryptor W) n \<noteq> Inl Panic"
  shows "\<exists>ns. decode_all L P W R s = Inr (opened (decrypt_node L P (dc_decryptor W)) ns)
    \<and> all_leaves (contents s) ns"
  using assms by (rule reader_contract.decode_all_law)

text \<open>C17: the balance of an asset is the sum of the values of its notes whose nullifier is not in the forest,
  capped at the largest 256-bit number, together with those notes; an asset with none has no entry.\<close>

theorem balances_exact:
  assumes "reader_contract R contents ready" and "ready s"
  shows "\<exists>bs. balances R s (from_notes ns) = Inr bs
    \<and> map_of bs = (\<lambda>a. balance_of (contents s) (filter (\<lambda>n. dn_asset n = a) ns))"
  by (rule reader_contract.balances_law [OF assms from_notes_grouped])

lemma toy_node_storable: "storable (toy_node npk h)" "node_at 0 3 (toy_node npk h)"
  by (simp_all add: storable_def toy_node_def wf_node_def wf_position_def TREE_LEAF_CAPACITY_def
      wf_shield_def node_at_def node_bytes_def put_position_def put_u32_def bundle_bytes_def)

lemma wallet_txn:
  obtains n x and s :: "mem_disk write_txn" where "decrypt_node toy_lib sample_engine toy_decryptor n = Inr x" "dn_value x = 5"
    "txn_ready mem_tables s" "forest_ok (txn_tables mem_tables s)"
    "\<And>t p. leaf_at (txn_tables mem_tables s) t p = (if node_at t p n then Some n else None)"
proof -
  obtain npk h x where o: "decrypt_node toy_lib sample_engine toy_decryptor (toy_node npk h) = Inr x" "dn_value x = 5"
    by (rule toy_node_opens)
  obtain s where s: "txn_ready mem_tables s" "stored (toy_node npk h) (\<lambda>_. Map.empty) (txn_tables mem_tables s)"
    using store_contract.insert_node_new [OF mem.write_txn_contract empty_txn_ready empty_txn_forest toy_node_storable]
    by (auto simp: empty_txn_tables leaf_at_def)
  then show ?thesis
    using that [OF o s(1)] by (simp add: stored_def leaf_at_def)
qed

lemma decode_all_complete_witness:
  "\<exists>s x. decode_all toy_lib sample_engine \<lparr>dc_decryptor = toy_decryptor\<rparr> mem_txn s = Inr [x] \<and> dn_value x = 5"
proof -
  obtain n x and s :: "mem_disk write_txn" where o: "decrypt_node toy_lib sample_engine toy_decryptor n = Inr x" "dn_value x = 5"
    and s: "txn_ready mem_tables s" "forest_ok (txn_tables mem_tables s)"
    and leaf: "\<And>t p. leaf_at (txn_tables mem_tables s) t p = (if node_at t p n then Some n else None)"
    by (rule wallet_txn) blast
  let ?W = "\<lparr>dc_decryptor = toy_decryptor\<rparr>"
  have "\<exists>ns. decode_all toy_lib sample_engine ?W mem_txn s =
      Inr (opened (decrypt_node toy_lib sample_engine (dc_decryptor ?W)) ns) \<and> all_leaves (txn_tables mem_tables s) ns"
    by (rule decode_all_complete [OF mem_txn_reader s]) (use o(1) in \<open>auto simp: leaf split: if_splits\<close>)
  then obtain ns where
    ns: "decode_all toy_lib sample_engine ?W mem_txn s = Inr (opened (decrypt_node toy_lib sample_engine toy_decryptor) ns)"
    "all_leaves (txn_tables mem_tables s) ns" by auto
  have set: "set ns = {n}"
    using ns(2) by (auto simp: all_leaves_def leaf node_at_def split: if_splits)
  then obtain rest where rest: "ns = n # rest" by (cases ns) auto
  have "rest = []"
    using ns(2) set by (cases rest) (auto simp: rest all_leaves_def forest_less_def)
  with ns(1) o rest show ?thesis by auto
qed

lemma balances_exact_witness:
  "\<exists>x bs. dn_value x = 5 \<and> balances mem_txn stored_txn (from_notes [x]) = Inr bs
    \<and> map_of bs = (\<lambda>a. balance_of (txn_tables mem_tables stored_txn) (filter (\<lambda>n. dn_asset n = a) [x]))"
proof -
  obtain x :: decrypted_note where "dn_value x = 5" by (rule toy_node_opens)
  with balances_exact [OF mem_txn_reader stored_txn_props(1), of "[x]"] show ?thesis by blast
qed

end
