(* ===== verification/Lifecycle.thy ===== *)
theory Lifecycle
  imports Sync_Properties Decoder
begin

text \<open>
  The components together: a database file that is opened, synced (with whatever errors and restarts), cleared,
  and given a wallet's notes. The states it can be in are an inductive set, and in each of them the forest is the
  chain's history up to the watermark; so the roots and the balances read from it are those of the chain.
\<close>

section \<open>A chain and its mirror\<close>

text \<open>The history of the contract: its commitments, and its nullifiers with the block that published them.\<close>

definition blocks_nodes :: "node list \<Rightarrow> block_number \<Rightarrow> block_number \<Rightarrow> node list" where
  "blocks_nodes ns lo hi = filter (\<lambda>n. lo \<le> nd_block n \<and> nd_block n \<le> hi) ns"

definition blocks_nulls :: "(block_number \<times> nullified) list \<Rightarrow> block_number \<Rightarrow> block_number \<Rightarrow> nullified list" where
  "blocks_nulls ks lo hi = map snd (filter (\<lambda>(b, _). lo \<le> b \<and> b \<le> hi) ks)"

text \<open>A source that never answers wrongly about blocks up to \<open>head\<close>; it may fail, or not answer at all.\<close>

definition serves_chain ::
  "nat \<Rightarrow> 'src event_source \<Rightarrow> block_number \<Rightarrow> node list \<Rightarrow> (block_number \<times> nullified) list \<Rightarrow> bool" where
  "serves_chain pages S head ns ks \<longleftrightarrow>
     (\<forall>from' to' src g src'. to' \<le> head \<longrightarrow> fetch_window pages S from' to' src = Some (Inr g, src') \<longrightarrow>
        g = (blocks_nodes ns from' to', blocks_nulls ks from' to'))
   \<and> (\<forall>src to' src'. es_latest_block S src = (Inr to', src') \<longrightarrow> to' \<le> head)"

definition holds_blocks ::
  "node list \<Rightarrow> (block_number \<times> nullified) list \<Rightarrow> block_number \<Rightarrow> block_number \<Rightarrow> tables \<Rightarrow> bool" where
  "holds_blocks ns ks lo hi m \<longleftrightarrow>
     (\<forall>t p n. leaf_at m t p = Some n \<longleftrightarrow> n \<in> set (blocks_nodes ns lo hi) \<and> node_at t p n)
   \<and> (\<forall>t h. nullified_in m t h \<longleftrightarrow> (\<exists>k \<in> set (blocks_nulls ks lo hi). nf_tree_number k = t \<and> nf_nullifier k = h))"

definition mirrors :: "block_number \<Rightarrow> node list \<Rightarrow> (block_number \<times> nullified) list \<Rightarrow> disk \<Rightarrow> bool" where
  "mirrors start ns ks d \<longleftrightarrow>
     (case watermark d of
        None \<Rightarrow> (\<forall>t p. leaf_at (on_disk d) t p = None) \<and> (\<forall>t h. \<not> nullified_in (on_disk d) t h)
      | Some w \<Rightarrow> start \<le> w \<and> holds_blocks ns ks start w (on_disk d))"

definition wallet_db_ok ::
  "merkle_config \<Rightarrow> merkle_accumulator_state json \<Rightarrow> block_number \<Rightarrow> node list \<Rightarrow> (block_number \<times> nullified) list
     \<Rightarrow> disk \<Rightarrow> bool" where
  "wallet_db_ok C J start ns ks d \<longleftrightarrow> db_ok C J d \<and> schema_ok (on_disk d) \<and> mirrors start ns ks d"

lemma in_blocks_nodes [simp]: "n \<in> set (blocks_nodes ns lo hi) \<longleftrightarrow> n \<in> set ns \<and> lo \<le> nd_block n \<and> nd_block n \<le> hi"
  by (auto simp: blocks_nodes_def)

lemma in_blocks_nulls [simp]: "k \<in> set (blocks_nulls ks lo hi) \<longleftrightarrow> (\<exists>b. (b, k) \<in> set ks \<and> lo \<le> b \<and> b \<le> hi)"
  by (force simp: blocks_nulls_def image_iff)

text \<open>Two adjacent block ranges make one.\<close>

lemma ranges_join:
  fixes b start w e :: block_number
  assumes "start \<le> w" and "block_saturating_add w 1 \<le> e"
  shows "start \<le> b \<and> b \<le> e \<longleftrightarrow> start \<le> b \<and> b \<le> w \<or> block_saturating_add w 1 \<le> b \<and> b \<le> e"
proof -
  have "w \<le> block_saturating_add w 1" and "\<not> b \<le> w \<Longrightarrow> block_saturating_add w 1 \<le> b"
    using unsigned_less [of b, where 'a = nat] unsigned_less [of w, where 'a = nat]
    by (simp_all add: word_le_nat_alt unat_block_saturating_add)
  with assms show ?thesis by (meson order.trans)
qed

lemma blocks_join:
  assumes "start \<le> w" and "block_saturating_add w 1 \<le> e"
  shows "set (blocks_nodes ns start e) = set (blocks_nodes ns start w) \<union> set (blocks_nodes ns (block_saturating_add w 1) e)"
    and "set (blocks_nulls ks start e) = set (blocks_nulls ks start w) \<union> set (blocks_nulls ks (block_saturating_add w 1) e)"
  using ranges_join [OF assms] by (simp_all only: set_eq_iff in_blocks_nodes in_blocks_nulls Un_iff) blast+

lemma mirrors_window:
  assumes "mirrors start ns ks d"
    and "window_committed C J (blocks_nodes ns from' e) (blocks_nulls ks from' e) e (on_disk d) (on_disk d')"
    and "from' = (case watermark d of None \<Rightarrow> start | Some w \<Rightarrow> block_saturating_add w 1)" and "from' \<le> e"
  shows "mirrors start ns ks d'"
proof -
  have mark: "watermark d' = Some e"
    using assms(2) by (simp add: window_committed_def watermark_def)
  have leaf: "leaf_at (on_disk d') t p = Some n \<longleftrightarrow> leaf_at (on_disk d) t p = Some n
      \<or> n \<in> set (blocks_nodes ns from' e) \<and> node_at t p n" for t p n
    using assms(2) unfolding window_committed_def by blast
  have nulls: "nullified_in (on_disk d') t h \<longleftrightarrow> nullified_in (on_disk d) t h
      \<or> (\<exists>k \<in> set (blocks_nulls ks from' e). nf_tree_number k = t \<and> nf_nullifier k = h)" for t h
    using assms(2) unfolding window_committed_def by blast
  show ?thesis
  proof (cases "watermark d")
    case None
    with assms leaf nulls mark show ?thesis by (simp add: mirrors_def holds_blocks_def)
  next
    case (Some w)
    have w: "start \<le> w" and e: "block_saturating_add w 1 \<le> e" and from': "from' = block_saturating_add w 1"
      using assms(1,3,4) Some by (simp_all add: mirrors_def)
    have "start \<le> e" using w e ranges_join [OF w e, of w] by (metis order.trans order.refl)
    moreover have "holds_blocks ns ks start e (on_disk d')"
      using assms(1) Some unfolding mirrors_def holds_blocks_def leaf nulls from' blocks_join [OF w e]
      by (simp del: in_blocks_nodes in_blocks_nulls) blast
    ultimately show ?thesis by (simp add: mirrors_def mark)
  qed
qed

section \<open>The pump keeps the mirror\<close>

text \<open>An invariant of the loop: \<open>Q\<close> holds before each window, \<open>P\<close> of whatever database the loop leaves.\<close>

lemma sync_loop_invariant:
  assumes leave: "\<And>from' db. Q from' db \<Longrightarrow> P db"
    and commits: "\<And>from' db src cs nulls src1 db1.
      Q from' db \<Longrightarrow> from' \<le> target \<Longrightarrow>
      fetch_window pages (sy_source syncer) from' (window_end syncer from' target) src = Some (Inr (cs, nulls), src1) \<Longrightarrow>
      commit_window E C J cs nulls (window_end syncer from' target) db = (Inr (), db1) \<Longrightarrow>
      Q (block_saturating_add (window_end syncer from' target) 1) db1"
    and fails: "\<And>from' db cs nulls through e db1. Q from' db \<Longrightarrow>
      commit_window E C J cs nulls through db = (Inl e, db1) \<Longrightarrow> P db1"
  shows "Q from' db \<Longrightarrow> sync_loop windows pages E C J syncer target from' summary (src, db) = Some (r, src', db') \<Longrightarrow> P db'"
proof (induction windows arbitrary: from' summary src db)
  case 0
  then show ?case using leave by (auto split: if_splits)
next
  case (Suc windows)
  let ?e = "window_end syncer from' target"
  show ?case
  proof (cases "from' \<le> target")
    case False
    with Suc.prems leave show ?thesis by auto
  next
    case True
    then consider e src1 where "fetch_window pages (sy_source syncer) from' ?e src = Some (Inl e, src1)" "db' = db"
      | cs nulls e where "commit_window E C J cs nulls ?e db = (Inl e, db')"
      | cs nulls src1 db1 sum where "fetch_window pages (sy_source syncer) from' ?e src = Some (Inr (cs, nulls), src1)"
          "commit_window E C J cs nulls ?e db = (Inr (), db1)"
          "sync_loop windows pages E C J syncer target (block_saturating_add ?e 1) sum (src1, db1) = Some (r, src', db')"
      using Suc.prems(2) by (auto simp: Let_def split: option.splits prod.splits sum.splits)
    then show ?thesis
    proof cases
      case 1
      then show ?thesis using leave [OF Suc.prems(1)] by simp
    next
      case 2
      then show ?thesis by (rule fails [OF Suc.prems(1)])
    next
      case 3
      show ?thesis by (rule Suc.IH [OF commits [OF Suc.prems(1) True 3(1,2)] 3(3)])
    qed
  qed
qed

lemma schema_ok_cong: "m META = m' META \<Longrightarrow> schema_ok m = schema_ok m'"
  by (simp add: schema_ok_def stamp_ok_def)

lemma wallet_db_ok_cong: "db_disk db' = db_disk db \<Longrightarrow> wallet_db_ok C J start ns ks (db_disk db) \<Longrightarrow> wallet_db_ok C J start ns ks (db_disk db')"
  by simp

context redb_laws
begin

lemma commit_window_mirrors:
  assumes J: "json_ok J" and d: "mc_depth C = 16" and acc: "\<forall>n \<in> set ns. acceptable n"
    and ok: "wallet_db_ok C J (sy_floor syncer) ns ks (db_disk db)"
    and from': "from' = start_of syncer (db_disk db)" and e: "from' \<le> e"
    and run: "commit_window E C J (blocks_nodes ns from' e) (blocks_nulls ks from' e) e db = (Inr (), db')"
  shows "wallet_db_ok C J (sy_floor syncer) ns ks (db_disk db') \<and> start_of syncer (db_disk db') = block_saturating_add e 1"
proof -
  have acc': "\<forall>n \<in> set (blocks_nodes ns from' e). acceptable n" using acc by simp
  have "db_ok C J (db_disk db)" using ok by (simp add: wallet_db_ok_def)
  from commit_window_law [OF J d this acc' run]
  have w: "db_ok C J (db_disk db')" "window_committed C J (blocks_nodes ns from' e) (blocks_nulls ks from' e) e
      (on_disk (db_disk db)) (on_disk (db_disk db'))"
    by simp_all
  have meta: "on_disk (db_disk db') META = on_disk (db_disk db) META" using w(2) by (simp add: window_committed_def)
  have "schema_ok (on_disk (db_disk db'))"
    using ok schema_ok_cong [of "on_disk (db_disk db')" "on_disk (db_disk db)", OF meta] by (simp add: wallet_db_ok_def)
  moreover have "mirrors (sy_floor syncer) ns ks (db_disk db')"
    by (rule mirrors_window [OF _ w(2) _ e]) (use ok in \<open>simp_all add: wallet_db_ok_def start_of_def from'\<close>)
  moreover have "watermark (db_disk db') = Some e" using w(2) by (simp add: window_committed_def watermark_def)
  ultimately show ?thesis using w(1) by (simp add: wallet_db_ok_def start_of_def)
qed

lemma sync_run_mirrors:
  assumes J: "json_ok J" and d: "mc_depth C = 16" and acc: "\<forall>n \<in> set ns. acceptable n"
    and S: "serves_chain pages (sy_source syncer) head ns ks" and le: "target \<le> head"
    and ok: "wallet_db_ok C J (sy_floor syncer) ns ks (db_disk db)"
    and run: "sync_run windows pages E C J syncer target (src, db) = Some (r, src', db')"
  shows "wallet_db_ok C J (sy_floor syncer) ns ks (db_disk db')"
proof (cases "db_read E db")
  case (Inl e)
  with run ok show ?thesis by (auto simp: sync_run_def)
next
  case (Inr view)
  let ?P = "\<lambda>db. wallet_db_ok C J (sy_floor syncer) ns ks (db_disk db)"
  let ?Q = "\<lambda>from' db. ?P db \<and> from' = start_of syncer (db_disk db)"
  have ok': "db_ok C J (db_disk db)" using ok by (simp add: wallet_db_ok_def)
  obtain sum where loop: "sync_loop windows pages E C J syncer target (start_of syncer (db_disk db)) sum (src, db) = Some (r, src', db')"
    using run synced_block_watermark [OF ok' Inr]
    by (cases "watermark (db_disk db)") (auto simp: sync_run_def Inr start_of_def)
  show ?thesis
  proof (rule sync_loop_invariant [where Q = ?Q and P = ?P, OF _ _ _ _ loop])
    fix from' db src cs nulls src1 db1
    let ?e = "window_end syncer from' target"
    assume Q: "?Q from' db" and from': "from' \<le> target"
      and fetch: "fetch_window pages (sy_source syncer) from' ?e src = Some (Inr (cs, nulls), src1)"
      and commit: "commit_window E C J cs nulls ?e db = (Inr (), db1)"
    have e: "from' \<le> ?e" "?e \<le> head" using window_end_bounds [OF from'] le by (blast intro: order.trans)+
    then have g: "cs = blocks_nodes ns from' ?e" "nulls = blocks_nulls ks from' ?e"
      using S fetch unfolding serves_chain_def by blast+
    show "?Q (block_saturating_add ?e 1) db1"
      using commit_window_mirrors [where syncer = syncer, OF J d acc _ _ e(1) commit [unfolded g]] Q by simp
  next
    fix from' db cs nulls through e db1
    assume Q: "?Q from' db" and run: "commit_window E C J cs nulls through db = (Inl e, db1)"
    show "?P db1" using db_write_outcome [OF run [unfolded commit_window_def]] Q by simp
  next
    show "?Q (start_of syncer (db_disk db)) db" using ok by simp
  qed blast
qed

lemma on_disk_empty [simp]: "on_disk Map.empty = (\<lambda>_. Map.empty)"
  by (simp add: on_disk_def fun_eq_iff)

lemma fresh_ok:
  assumes "materialized (db_disk db)" and "on_disk (db_disk db) = stamped (\<lambda>_. Map.empty)"
  shows "wallet_db_ok C J start ns ks (db_disk db)"
proof -
  let ?m = "on_disk (db_disk db)"
  have com: "?m COMMITMENTS = Map.empty" using assms(2) stamped_tables by simp
  have "schema_ok ?m" unfolding assms(2) by (simp add: schema_ok_def stamped_def SCHEMA_VERSIONS_def stamp_ok_def stamp_def set_entry_def)
  moreover have "mirrors start ns ks (db_disk db)"
    using com by (simp add: mirrors_def watermark_def leaf_at_def nullified_in_def)
  ultimately show ?thesis using db_ok_fresh [OF assms] by (simp add: wallet_db_ok_def)
qed

text \<open>Nothing of the invariant reads the decoded notes; of the stamps it reads that they are no foreign ones.\<close>

lemma wallet_db_ok_same_forest:
  assumes "wallet_db_ok C J start ns ks (db_disk db)" and "materialized (db_disk db')"
    and "\<And>T. T \<in> {COMMITMENTS, FRONTIER} \<Longrightarrow> on_disk (db_disk db') T = on_disk (db_disk db) T"
    and "schema_ok (on_disk (db_disk db'))"
  shows "wallet_db_ok C J start ns ks (db_disk db')"
proof -
  let ?m = "on_disk (db_disk db)" and ?m' = "on_disk (db_disk db')"
  have com: "?m' COMMITMENTS = ?m COMMITMENTS" and fro: "?m' FRONTIER = ?m FRONTIER" using assms(3) by simp_all
  note cong = commitments_cong [where m = ?m' and m' = ?m, OF com]
  have nulls: "nullified_in ?m' = nullified_in ?m" by (simp add: nullified_in_def com fun_eq_iff)
  have "watermark (db_disk db') = watermark (db_disk db)" by (simp add: watermark_def com)
  then have "mirrors start ns ks (db_disk db')"
    using assms(1) by (simp add: wallet_db_ok_def mirrors_def holds_blocks_def cong nulls split: option.splits)
  moreover have "snapshots_ok C J ?m'"
    using assms(1) snapshot_current_cong [of ?m' _ ?m C J] by (simp add: wallet_db_ok_def db_ok_def snapshots_ok_def fro cong)
  ultimately show ?thesis
    using assms(1,2,4) by (simp add: wallet_db_ok_def db_ok_def cong)
qed

lemma decoded_save_mirrors:
  assumes "wallet_db_ok C J start ns ks (db_disk db)"
    and "db_write E from (decoded_save (write_txn_store E) K notes) db = (r, db')"
  shows "wallet_db_ok C J start ns ks (db_disk db')"
proof (cases r)
  case (Inl e)
  then show ?thesis using db_write_outcome [OF assms(2)] assms(1) by simp
next
  case (Inr u)
  obtain wt txn where t: "wt_disk wt = db_disk db" "db_disk db' = wt_disk (wt_inner txn)"
    "decoded_save (write_txn_store E) K notes (write_txn_new wt) = (Inr u, txn)"
    using db_write_outcome [OF assms(2)] Inr by auto
  have r: "txn_ready wt_disk (write_txn_new wt)" using t(1) assms(1) by (simp add: wallet_db_ok_def db_ok_def)
  obtain bs where "wr_put (write_txn_store E) DECODED NOTES_KEY bs (write_txn_new wt) = (Inr u, txn)"
    using t(3) by (auto simp: decoded_save_def st_bind_def st_lift_def split: sum.splits)
  with txn.put_law [OF r, of DECODED NOTES_KEY bs] have
    "txn_ready wt_disk txn" "txn_tables wt_disk txn = set_entry (on_disk (db_disk db)) DECODED NOTES_KEY (Some bs)"
    by (auto simp: t(1) del: write_txn_store_simps)
  then have d: "materialized (db_disk db')" "on_disk (db_disk db') = set_entry (on_disk (db_disk db)) DECODED NOTES_KEY (Some bs)"
    by (simp_all add: t(2) txn_ready_def txn_tables_def)
  have meta: "on_disk (db_disk db') META = on_disk (db_disk db) META" by (simp add: d(2) set_entry_def)
  show ?thesis
    by (rule wallet_db_ok_same_forest [OF assms(1) d(1)])
      (use assms(1) schema_ok_cong [of "on_disk (db_disk db')" "on_disk (db_disk db)", OF meta] in
        \<open>auto simp: d(2) set_entry_def wallet_db_ok_def\<close>)
qed

lemma db_open_disk:
  assumes "db_open E path = Inr db"
  shows "schema_ok (on_disk (db_disk path)) \<and> materialized (db_disk db) \<and> on_disk (db_disk db) = stamped (on_disk (db_disk path))"
proof -
  obtain db0 where 0: "redb_create E path = Inr db0" "db_initialize E db0 = (Inr (), db)"
    using assms by (cases "redb_create E path"; cases "db_initialize E (projr (redb_create E path))")
      (auto simp: db_open_def engine_open_def split: sum.splits)
  from db_initialize_disk [OF 0(2)] create [OF 0(1)] show ?thesis by simp
qed

lemma reopen_mirrors:
  assumes "wallet_db_ok C J start ns ks (db_disk db)" and "db_open E db = Inr db'"
  shows "wallet_db_ok C J start ns ks (db_disk db')"
proof -
  have d: "schema_ok (on_disk (db_disk db))" "materialized (db_disk db')" "on_disk (db_disk db') = stamped (on_disk (db_disk db))"
    using db_open_disk [OF assms(2)] by simp_all
  have "schema_ok (on_disk (db_disk db'))"
    unfolding d(3) by (simp add: schema_ok_def stamped_def SCHEMA_VERSIONS_def stamp_ok_def stamp_def set_entry_def)
  then show ?thesis
    by (intro wallet_db_ok_same_forest [OF assms(1) d(2)]) (auto simp: d(3) stamped_tables)
qed

lemma clear_all_mirrors:
  assumes "wallet_db_ok C J start ns ks (db_disk db)" and "db_clear_all E db = (r, db')"
  shows "wallet_db_ok C J start ns ks (db_disk db')"
  using db_clear_all_disk [OF assms(2)] assms(1) fresh_ok by (cases r) auto

end

section \<open>The states a wallet's database can be in\<close>

text \<open>
  The file is opened, possibly again and again; the syncer runs to some block up to the head, to the head, or to
  the head if nothing was synced yet, and may fail anywhere; everything is cleared; decoded notes are saved.
\<close>

inductive reachable ::
  "('db, 'rt, 'tbl, 'wt) redb \<Rightarrow> merkle_config \<Rightarrow> merkle_accumulator_state json \<Rightarrow> decrypted_note list json
     \<Rightarrow> nat \<Rightarrow> 'src syncer \<Rightarrow> block_number \<Rightarrow> 'db \<Rightarrow> 'db \<Rightarrow> bool"
  for E C J K pages syncer head path where
  opened: "db_open E path = Inr db \<Longrightarrow> reachable E C J K pages syncer head path db"
| reopened: "reachable E C J K pages syncer head path db \<Longrightarrow> db_open E db = Inr db' \<Longrightarrow>
    reachable E C J K pages syncer head path db'"
| synced: "reachable E C J K pages syncer head path db \<Longrightarrow> target \<le> head \<Longrightarrow>
    sync_run windows pages E C J syncer target (src, db) = Some (r, src', db') \<Longrightarrow>
    reachable E C J K pages syncer head path db'"
| synced_to_head: "reachable E C J K pages syncer head path db \<Longrightarrow>
    run_to_head windows pages E C J syncer (src, db) = Some (r, src', db') \<Longrightarrow>
    reachable E C J K pages syncer head path db'"
| synced_once: "reachable E C J K pages syncer head path db \<Longrightarrow>
    run_to_head_if_unsynced windows pages E C J syncer (src, db) = Some (r, src', db') \<Longrightarrow>
    reachable E C J K pages syncer head path db'"
| cleared: "reachable E C J K pages syncer head path db \<Longrightarrow> db_clear_all E db = (r, db') \<Longrightarrow>
    reachable E C J K pages syncer head path db'"
| saved: "reachable E C J K pages syncer head path db \<Longrightarrow>
    db_write E id (decoded_save (write_txn_store E) K notes) db = (r', db') \<Longrightarrow>
    reachable E C J K pages syncer head path db'"

context redb_laws
begin

lemma run_to_head_mirrors:
  assumes "json_ok J" and "mc_depth C = 16" and "\<forall>n \<in> set ns. acceptable n"
    and S: "serves_chain pages (sy_source syncer) head ns ks"
    and ok: "wallet_db_ok C J (sy_floor syncer) ns ks (db_disk db)"
    and run: "run_to_head windows pages E C J syncer (src, db) = Some (r, src', db')"
  shows "wallet_db_ok C J (sy_floor syncer) ns ks (db_disk db')"
proof (cases "fst (es_latest_block (sy_source syncer) src)")
  case (Inl e)
  with run ok show ?thesis by (auto simp: run_to_head_def split: prod.splits)
next
  case (Inr target)
  obtain src1 where l: "es_latest_block (sy_source syncer) src = (Inr target, src1)" using Inr by (metis prod.collapse)
  then have "target \<le> head" using S unfolding serves_chain_def by blast
  moreover have "sync_run windows pages E C J syncer target (src1, db) = Some (r, src', db')"
    using run by (simp add: run_to_head_def l)
  ultimately show ?thesis using sync_run_mirrors [OF assms(1-4) _ ok] by blast
qed

lemma reachable_ok:
  assumes "json_ok J" and "mc_depth C = 16" and "\<forall>n \<in> set ns. acceptable n"
    and "serves_chain pages (sy_source syncer) head ns ks" and "db_disk path = Map.empty"
    and "reachable E C J K pages syncer head path db"
  shows "wallet_db_ok C J (sy_floor syncer) ns ks (db_disk db)"
  using assms(6)
proof induction
  case (opened db)
  show ?case using db_open_disk [OF opened] fresh_ok by (simp add: assms(5))
next
  case (reopened db db')
  then show ?case by (blast intro: reopen_mirrors)
next
  case (synced db target windows src r src' db')
  then show ?case by (blast intro: sync_run_mirrors [OF assms(1-4)])
next
  case (synced_to_head db windows src r src' db')
  then show ?case by (blast intro: run_to_head_mirrors [OF assms(1-4)])
next
  case (synced_once db windows src r src' db')
  from synced_once.hyps(2) consider "db' = db" | "run_to_head windows pages E C J syncer (src, db) = Some (r, src', db')"
    by (auto simp: run_to_head_if_unsynced_def split: sum.splits bool.splits)
  then show ?case using synced_once.IH by cases (auto intro: run_to_head_mirrors [OF assms(1-4)])
next
  case (cleared db r db')
  then show ?case by (blast intro: clear_all_mirrors)
next
  case (saved db xs r' db')
  then show ?case by (blast intro: decoded_save_mirrors)
qed

end

end
