(* ===== verification/Forest_Spec.thy ===== *)
theory Forest_Spec
  imports Sync_Window Forest_Properties
begin

text \<open>
  The commitments namespace against an abstract specification: a list of nodes at distinct positions, the published
  nullifiers and the watermark. Every sequence of mutations on a store that keeps its contract simulates the
  sequence on the specification, errors included, and every read answers what the specification answers.
\<close>

section \<open>The specification\<close>

record forest_spec =
  fs_nodes :: "node list"
  fs_spent :: "nullified list"
  fs_mark :: "block_number option"

definition spec_empty :: forest_spec where
  "spec_empty = \<lparr>fs_nodes = [], fs_spent = [], fs_mark = None\<rparr>"

datatype forest_op = AddNode node | AddNullifier nullified | Mark block_number

fun spec_op :: "forest_op \<Rightarrow> forest_spec \<Rightarrow> db_err + forest_spec" where
  "spec_op (AddNode n) F =
     (let t = tree_number (nd_position n); p = leaf_index (nd_position n)
      in case find (node_at t p) (fs_nodes F) of
           None \<Rightarrow> Inr (F\<lparr>fs_nodes := fs_nodes F @ [n]\<rparr>)
         | Some n' \<Rightarrow> if n' = n then Inr F else Inl (Err (CommitmentConflict t p)))"
| "spec_op (AddNullifier k) F = Inr (F\<lparr>fs_spent := fs_spent F @ [k]\<rparr>)"
| "spec_op (Mark b) F = Inr (F\<lparr>fs_mark := Some b\<rparr>)"

text \<open>A run stops at the first error and keeps what was done before.\<close>

fun spec_run :: "forest_op list \<Rightarrow> forest_spec \<Rightarrow> (db_err + unit) \<times> forest_spec" where
  "spec_run [] F = (Inr (), F)"
| "spec_run (op # ops) F =
     (case spec_op op F of Inl e \<Rightarrow> (Inl e, F) | Inr F' \<Rightarrow> spec_run ops F')"

text \<open>The reads: highest position or tree plus one, point lookups, the leaves of a tree in order.\<close>

fun chain_span :: "u32 \<Rightarrow> node list \<Rightarrow> nat" where
  "chain_span t [] = 0"
| "chain_span t (n # ns) =
     (if tree_number (nd_position n) = t then max (unat (leaf_index (nd_position n)) + 1) (chain_span t ns)
      else chain_span t ns)"

fun chain_trees :: "node list \<Rightarrow> nat" where
  "chain_trees [] = 0"
| "chain_trees (n # ns) = max (unat (tree_number (nd_position n)) + 1) (chain_trees ns)"

definition spec_entries :: "node list \<Rightarrow> u32 \<Rightarrow> (u32 \<times> node) list" where
  "spec_entries ns t =
     sort_key fst (map (\<lambda>n. (leaf_index (nd_position n), n)) (filter (\<lambda>n. tree_number (nd_position n) = t) ns))"

definition spec_leaves :: "node list \<Rightarrow> u32 \<Rightarrow> (u32 \<times> commitment_hash) list" where
  "spec_leaves ns t = map (map_prod id nd_hash) (spec_entries ns t)"

definition spec_nullified :: "nullified list \<Rightarrow> u32 \<Rightarrow> nullifier \<Rightarrow> bool" where
  "spec_nullified ks t h \<longleftrightarrow> list_ex (\<lambda>k. nf_tree_number k = t \<and> nf_nullifier k = h) ks"

section \<open>The tables that represent it\<close>

definition represents :: "forest_spec \<Rightarrow> tables \<Rightarrow> bool" where
  "represents F m \<longleftrightarrow> forest_ok m \<and> distinct (map nd_position (fs_nodes F))
     \<and> (\<forall>t p. leaf_at m t p = find (node_at t p) (fs_nodes F))
     \<and> (\<forall>t h. nullified_in m t h \<longleftrightarrow> spec_nullified (fs_spent F) t h)
     \<and> m COMMITMENTS synced_block_key = map_option to_be_bytes (fs_mark F)"

lemma represents_empty: "m COMMITMENTS = Map.empty \<Longrightarrow> represents spec_empty m"
proof -
  assume com: "m COMMITMENTS = Map.empty"
  then have "forest_ok m = forest_ok (\<lambda>_. Map.empty)" by (intro commitments_cong(2)) simp
  with com show "represents spec_empty m"
    by (simp add: represents_def spec_empty_def forest_ok_empty leaf_at_def nullified_in_def spec_nullified_def)
qed

lemma represents_cong: "m COMMITMENTS = m' COMMITMENTS \<Longrightarrow> represents F m = represents F m'"
  using commitments_cong(1,2) [of m m'] by (simp add: represents_def nullified_in_def)

lemma node_at_position: "node_at t p n \<longleftrightarrow> nd_position n = \<lparr>tree_number = t, leaf_index = p\<rparr>"
  by (cases "nd_position n") (auto simp: node_at_def)

lemma find_node_at:
  assumes "distinct (map nd_position ns)"
  shows "find (node_at t p) ns = Some n \<longleftrightarrow> n \<in> set ns \<and> node_at t p n"
  using assms
  by (induction ns) (force simp: node_at_position image_iff)+

lemma chain_span_le:
  "chain_span t ns \<le> k \<longleftrightarrow> (\<forall>n \<in> set ns. tree_number (nd_position n) = t \<longrightarrow> unat (leaf_index (nd_position n)) < k)"
  by (induction ns) auto

lemma chain_trees_le:
  "chain_trees ns \<le> k \<longleftrightarrow> (\<forall>n \<in> set ns. unat (tree_number (nd_position n)) < k)"
  by (induction ns) auto

text \<open>The counters of a table whose leaves are a list of nodes.\<close>

lemma tree_span_of_list:
  assumes "\<And>p n. leaf_at m t p = Some n \<longleftrightarrow> n \<in> set ns \<and> node_at t p n" and "forest_ok m"
  shows "tree_span m t = chain_span t ns"
proof -
  have "tree_span m t \<le> k \<longleftrightarrow> chain_span t ns \<le> k" for k
    using assms(1) unfolding tree_span_le chain_span_le has_leaf_iff [OF assms(2)] by (auto simp: node_at_def)
  then show ?thesis by (metis order.antisym order.refl)
qed

lemma forest_span_of_list:
  assumes "\<And>t p n. leaf_at m t p = Some n \<longleftrightarrow> n \<in> set ns \<and> node_at t p n" and "forest_ok m"
  shows "forest_span m = chain_trees ns"
proof -
  have "forest_span m \<le> k \<longleftrightarrow> chain_trees ns \<le> k" for k
    using assms(1) unfolding forest_span_le chain_trees_le has_leaf_iff [OF assms(2)] by (auto simp: node_at_def)
  then show ?thesis by (metis order.antisym order.refl)
qed

lemma represents_leaf:
  "represents F m \<Longrightarrow> leaf_at m t p = Some n \<longleftrightarrow> n \<in> set (fs_nodes F) \<and> node_at t p n"
  by (simp add: represents_def find_node_at)

lemma represents_spans:
  assumes "represents F m"
  shows "tree_span m t = chain_span t (fs_nodes F)" and "forest_span m = chain_trees (fs_nodes F)"
  using tree_span_of_list [OF represents_leaf [OF assms]] forest_span_of_list [OF represents_leaf [OF assms]] assms
  by (simp_all add: represents_def)

section \<open>Reads answer from the specification\<close>

lemma spec_entries_ok:
  assumes "distinct (map nd_position ns)"
  shows "bt_ok (spec_entries ns t)" and "map_of (spec_entries ns t) p = find (node_at t p) ns"
proof -
  let ?es = "map (\<lambda>n. (leaf_index (nd_position n), n)) (filter (\<lambda>n. tree_number (nd_position n) = t) ns)"
  have "inj_on (\<lambda>n. leaf_index (nd_position n)) {n \<in> set ns. tree_number (nd_position n) = t}"
    using assms by (auto simp: inj_on_def distinct_map intro!: node_position.equality)
  then have "distinct (map fst ?es)"
    using assms by (simp add: distinct_map comp_def)
  then have "distinct ?es" "inj_on fst (set ?es)" by (simp_all only: distinct_map [of fst])
  then have "distinct (map fst (sort_key fst ?es))" by (simp only: distinct_map [of fst] distinct_sort set_sort)
  then show ok: "bt_ok (spec_entries ns t)"
    unfolding bt_ok_def spec_entries_def by (simp add: strict_sorted_iff)
  have "map_of (spec_entries ns t) p = Some n \<longleftrightarrow> find (node_at t p) ns = Some n" for n
    using ok unfolding find_node_at [OF assms] bt_ok_def strict_sorted_iff
    by (auto simp: map_of_eq_Some_iff spec_entries_def node_at_def)
  then show "map_of (spec_entries ns t) p = find (node_at t p) ns"
    by (metis not_Some_eq)
qed

context reader_contract
begin

lemma spec_reads:
  assumes "ready s" and rep: "represents F (contents s)"
  shows "commitments_node R s t p = Inr (find (node_at t p) (fs_nodes F))"
    and "leaf_hash R s t p = Inr (map_option nd_hash (find (node_at t p) (fs_nodes F)))"
    and "tree_length R s t = Inr (of_nat (chain_span t (fs_nodes F)))"
    and "tree_count R s = Inr (of_nat (chain_trees (fs_nodes F)))"
    and "is_nullified R s t h = Inr (spec_nullified (fs_spent F) t h)"
    and "synced_block R s = Inr (fs_mark F)"
    and "is_synced R s = Inr (fs_mark F \<noteq> None)"
    and "leaf_hashes R s t = Inr (map Inr (spec_leaves (fs_nodes F) t))"
    and "nodes R s t = Inr (map (Inr \<circ> snd) (spec_entries (fs_nodes F) t))"
proof -
  have ok: "forest_ok (contents s)" and leaf: "\<And>t p. leaf_at (contents s) t p = find (node_at t p) (fs_nodes F)"
    and d: "distinct (map nd_position (fs_nodes F))"
    using rep by (simp_all add: represents_def)
  show "commitments_node R s t p = Inr (find (node_at t p) (fs_nodes F))"
    and "leaf_hash R s t p = Inr (map_option nd_hash (find (node_at t p) (fs_nodes F)))"
    using commitments_node_law [OF assms(1) ok] leaf_hash_law [OF assms(1) ok] by (simp_all add: leaf)
  obtain len where "tree_length R s t = Inr len" "tree_span (contents s) t = unat len"
    by (rule tree_length_law [OF assms(1) ok, of t]) (metis that)
  then show "tree_length R s t = Inr (of_nat (chain_span t (fs_nodes F)))"
    by (simp flip: represents_spans(1) [OF rep])
  obtain count where "tree_count R s = Inr count" "forest_span (contents s) = unat count"
    by (rule tree_count_law [OF assms(1) ok]) (metis that)
  then show "tree_count R s = Inr (of_nat (chain_trees (fs_nodes F)))"
    by (simp flip: represents_spans(2) [OF rep])
  show "is_nullified R s t h = Inr (spec_nullified (fs_spent F) t h)"
    using is_nullified_law [OF assms(1)] rep by (simp add: represents_def)
  show sync: "synced_block R s = Inr (fs_mark F)"
    using rep by (simp add: synced_block_law [OF assms(1)] represents_def split: option.split)
  show "is_synced R s = Inr (fs_mark F \<noteq> None)" by (simp add: is_synced_def sync)
  obtain ls where ls: "leaf_hashes R s t = Inr (map Inr ls)" "bt_ok ls" "map_of ls = (\<lambda>p. map_option nd_hash (leaf_at (contents s) t p))"
    using leaf_hashes_law [OF assms(1) ok] by blast
  have "bt_ok (spec_leaves (fs_nodes F) t)" using spec_entries_ok(1) [OF d, of t] by (simp add: bt_ok_def spec_leaves_def)
  moreover have "map_of (spec_leaves (fs_nodes F) t) = map_of ls"
    by (simp add: fun_eq_iff ls(3) leaf spec_leaves_def map_of_map map_prod_def comp_def
        flip: spec_entries_ok(2) [OF d])
  ultimately have "spec_leaves (fs_nodes F) t = ls" using ls(2) by (intro btree.entries_unique)
  then show "leaf_hashes R s t = Inr (map Inr (spec_leaves (fs_nodes F) t))" using ls(1) by simp
  obtain pns where "nodes R s t = Inr (map (Inr \<circ> snd) pns)" "bt_ok pns" "map_of pns = leaf_at (contents s) t"
    using nodes_law [OF assms(1) ok] by blast
  moreover from this have "spec_entries (fs_nodes F) t = pns"
    by (intro btree.entries_unique spec_entries_ok(1) [OF d]) (simp_all add: fun_eq_iff leaf spec_entries_ok(2) [OF d])
  ultimately show "nodes R s t = Inr (map (Inr \<circ> snd) (spec_entries (fs_nodes F) t))" by simp
qed

end

section \<open>Mutations simulate the specification\<close>

fun run_op :: "('s, 'z) store_scheme \<Rightarrow> forest_op \<Rightarrow> ('s, db_err, unit) step" where
  "run_op R (AddNode n) = insert_node R n"
| "run_op R (AddNullifier k) = insert_nullifier R k"
| "run_op R (Mark b) = set_synced_block R b"

fun op_ok :: "forest_op \<Rightarrow> bool" where
  "op_ok (AddNode n) \<longleftrightarrow> acceptable n"
| "op_ok _ \<longleftrightarrow> True"

text \<open>Every read of \<open>CommitmentsView\<close> answers what the specification answers.\<close>

definition answers :: "('s, 'z) reader_scheme \<Rightarrow> 's \<Rightarrow> forest_spec \<Rightarrow> bool" where
  "answers R s F \<longleftrightarrow>
     (\<forall>t p. commitments_node R s t p = Inr (find (node_at t p) (fs_nodes F))
        \<and> leaf_hash R s t p = Inr (map_option nd_hash (find (node_at t p) (fs_nodes F))))
     \<and> (\<forall>t. tree_length R s t = Inr (of_nat (chain_span t (fs_nodes F)))
        \<and> leaf_hashes R s t = Inr (map Inr (spec_leaves (fs_nodes F) t))
        \<and> nodes R s t = Inr (map (Inr \<circ> snd) (spec_entries (fs_nodes F) t)))
     \<and> tree_count R s = Inr (of_nat (chain_trees (fs_nodes F)))
     \<and> (\<forall>t h. is_nullified R s t h = Inr (spec_nullified (fs_spent F) t h))
     \<and> synced_block R s = Inr (fs_mark F) \<and> is_synced R s = Inr (fs_mark F \<noteq> None)"

context reader_contract
begin

lemma answers_law: "ready s \<Longrightarrow> represents F (contents s) \<Longrightarrow> answers R s F"
  unfolding answers_def by (simp add: spec_reads)

end

definition untouched :: "tables \<Rightarrow> tables \<Rightarrow> bool" where
  "untouched m m' \<longleftrightarrow> (\<forall>T. T \<noteq> COMMITMENTS \<longrightarrow> m' T = m T)"

lemma represents_add:
  assumes rep: "represents F m" and new: "find (node_at (tree_number (nd_position n)) (leaf_index (nd_position n))) (fs_nodes F) = None"
    and st: "stored n m m'"
  shows "represents (F\<lparr>fs_nodes := fs_nodes F @ [n]\<rparr>) m'"
proof -
  have "nd_position n \<notin> nd_position ` set (fs_nodes F)"
    using new by (force simp: find_None_iff node_at_def)
  then have d: "distinct (map nd_position (fs_nodes F @ [n]))" using rep by (simp add: represents_def)
  have "leaf_at m' t p = Some n' \<longleftrightarrow> find (node_at t p) (fs_nodes F @ [n]) = Some n'" for t p n'
  proof -
    have "node_at t p n \<Longrightarrow> leaf_at m t p = None" using rep new by (auto simp: represents_def node_at_def)
    then show ?thesis
      unfolding find_node_at [OF d] using st represents_leaf [OF rep, of t p n'] by (auto simp: stored_def)
  qed
  then have "leaf_at m' t p = find (node_at t p) (fs_nodes F @ [n])" for t p by (metis not_Some_eq)
  with d st rep show ?thesis by (simp add: represents_def stored_def)
qed

context store_contract
begin

lemma run_op_simulates:
  assumes s: "ready s" and rep: "represents F (contents s)" and op: "op_ok op"
  shows "case spec_op op F of
      Inl e \<Rightarrow> run_op R op s = (Inl e, s)
    | Inr F' \<Rightarrow> \<exists>s'. run_op R op s = (Inr (), s') \<and> ready s' \<and> represents F' (contents s') \<and> untouched (contents s) (contents s')"
proof (cases op)
  case (AddNode n)
  let ?t = "tree_number (nd_position n)" and ?p = "leaf_index (nd_position n)"
  have ok: "forest_ok (contents s)" and leaf: "leaf_at (contents s) ?t ?p = find (node_at ?t ?p) (fs_nodes F)"
    using rep by (simp_all add: represents_def)
  have n: "storable n" "node_at ?t ?p n" "unat ?t + 1 < 2 ^ 32" using op AddNode by (simp_all add: acceptable_def node_at_def)
  show ?thesis
  proof (cases "find (node_at ?t ?p) (fs_nodes F)")
    case None
    obtain s' where s': "insert_node R n s = (Inr (), s')" "ready s'" "stored n (contents s) (contents s')"
      using insert_node_new [OF s ok n] leaf None by auto
    then have "represents (F\<lparr>fs_nodes := fs_nodes F @ [n]\<rparr>) (contents s')" "untouched (contents s) (contents s')"
      using represents_add [OF rep None] by (simp_all add: stored_def untouched_def)
    then show ?thesis using s' None AddNode by (simp add: Let_def)
  next
    case (Some n')
    have "insert_node R n s = ((if n' = n then Inr () else Inl (Err (CommitmentConflict ?t ?p))), s)"
      by (rule insert_node_existing [OF s ok n(1,2)]) (simp add: leaf Some)
    then show ?thesis using s rep Some AddNode by (simp add: Let_def untouched_def)
  qed
next
  case (AddNullifier k)
  have ok: "forest_ok (contents s)" using rep by (simp add: represents_def)
  obtain s' where s': "insert_nullifier R k s = (Inr (), s')" "ready s'" "forest_ok (contents s')"
    "contents s' = set_entry (contents s) COMMITMENTS (nullifier_key (nf_tree_number k) (nf_nullifier k)) (Some [])"
    using insert_nullifier_law [OF s ok] by blast
  have "leaf_at (contents s') = leaf_at (contents s)" by (simp add: s'(4) fun_eq_iff leaf_at_other)
  moreover have "nullified_in (contents s') t h \<longleftrightarrow> nullified_in (contents s) t h \<or> nf_tree_number k = t \<and> nf_nullifier k = h" for t h
    by (auto simp: s'(4) nullified_in_def)
  ultimately have "represents (F\<lparr>fs_spent := fs_spent F @ [k]\<rparr>) (contents s')"
    using rep s'(3) by (auto simp: represents_def spec_nullified_def s'(4))
  then show ?thesis using s' AddNullifier by (auto simp: untouched_def set_entry_def)
next
  case (Mark b)
  have ok: "forest_ok (contents s)" using rep by (simp add: represents_def)
  obtain s' where s': "set_synced_block R b s = (Inr (), s')" "ready s'" "forest_ok (contents s')"
    "contents s' = set_entry (contents s) COMMITMENTS synced_block_key (Some (to_be_bytes b))"
    using set_synced_block_law [OF s ok] by blast
  have "leaf_at (contents s') = leaf_at (contents s)" by (simp add: s'(4) fun_eq_iff leaf_at_other)
  then have "represents (F\<lparr>fs_mark := Some b\<rparr>) (contents s')"
    using rep s'(3) by (simp add: represents_def s'(4) nullified_in_def)
  then show ?thesis using s' Mark by (auto simp: untouched_def set_entry_def)
qed

lemma run_ops_simulate:
  assumes "ready s" and "represents F (contents s)" and "list_all op_ok ops"
  shows "\<exists>s'. st_for (run_op R) ops s = (fst (spec_run ops F), s') \<and> ready s' \<and> represents (snd (spec_run ops F)) (contents s')
    \<and> untouched (contents s) (contents s')"
  using assms
proof (induction ops arbitrary: s F)
  case Nil
  then show ?case by (simp add: untouched_def)
next
  case (Cons op ops)
  have ops: "op_ok op" "list_all op_ok ops" using Cons.prems(3) by simp_all
  show ?case
  proof (cases "spec_op op F")
    case (Inl e)
    then have "run_op R op s = (Inl e, s)" using run_op_simulates [OF Cons.prems(1,2) ops(1)] by simp
    then show ?thesis using Cons.prems(1,2) Inl by (simp add: st_bind_def untouched_def)
  next
    case (Inr F')
    then obtain s1 where s1: "run_op R op s = (Inr (), s1)" "ready s1" "represents F' (contents s1)" "untouched (contents s) (contents s1)"
      using run_op_simulates [OF Cons.prems(1,2) ops(1)] by auto
    obtain s' where "st_for (run_op R) ops s1 = (fst (spec_run ops F'), s')" "ready s'"
      "represents (snd (spec_run ops F')) (contents s')" "untouched (contents s1) (contents s')"
      using Cons.IH [OF s1(2,3) ops(2)] by blast
    then show ?thesis using s1(1,4) Inr by (auto simp: st_bind_def untouched_def)
  qed
qed

end

section \<open>Properties\<close>

text \<open>C8: the commitments namespace refines its specification. On any store that keeps its contract, a run of
  \<open>insert_node\<close>, \<open>insert_nullifier\<close> and \<open>set_synced_block\<close> returns what the run of the specification returns, a conflict
  included, leaves the tables representing the specification's state and every other namespace alone, and every read
  of the namespace, point lookups, ordered scans and counters, then answers from that state.\<close>

theorem forest_refines_spec:
  assumes "store_contract R contents ready" and "ready s" and "represents F (contents s)" and "list_all op_ok ops"
  shows "\<exists>s'. st_for (run_op R) ops s = (fst (spec_run ops F), s') \<and> ready s'
    \<and> represents (snd (spec_run ops F)) (contents s') \<and> untouched (contents s) (contents s')
    \<and> answers R s' (snd (spec_run ops F))"
  using store_contract.run_ops_simulate [OF assms] reader_contract.answers_law [OF store_contract.axioms(1) [OF assms(1)]]
  by blast

text \<open>A run with a repeated node, a nullifier and a conflict: the conflict stops it, the rest stays.\<close>

definition sample_ops :: "forest_op list" where
  "sample_ops = [AddNode sample_node, AddNode sample_node, AddNullifier \<lparr>nf_tree_number = 3, nf_nullifier = replicate 32 8\<rparr>, Mark 100,
     AddNode (sample_node\<lparr>nd_hash := 43\<rparr>), Mark 200]"

lemma sample_ops_ok: "list_all op_ok sample_ops"
  by (simp add: sample_ops_def acceptable_def storable_def sample_node_def wf_node_def wf_position_def TREE_LEAF_CAPACITY_def
      wf_shield_def node_bytes_def put_position_def put_u32_def bundle_bytes_def)

lemma sample_ops_run:
  "spec_run sample_ops spec_empty = (Inl (Err (CommitmentConflict 3 5)),
     \<lparr>fs_nodes = [sample_node], fs_spent = [\<lparr>nf_tree_number = 3, nf_nullifier = replicate 32 8\<rparr>], fs_mark = Some 100\<rparr>)"
  by (simp add: sample_ops_def spec_empty_def node_at_def sample_node_def)

lemma forest_refines_spec_witness:
  "\<exists>s'. st_for (run_op mem_txn) sample_ops empty_txn = (Inl (Err (CommitmentConflict 3 5)), s')
     \<and> commitments_node mem_txn s' 3 5 = Inr (Some sample_node) \<and> tree_length mem_txn s' 3 = Inr 6
     \<and> tree_count mem_txn s' = Inr 4 \<and> synced_block mem_txn s' = Inr (Some 100)
     \<and> is_nullified mem_txn s' 3 (replicate 32 8) = Inr True \<and> leaf_hashes mem_txn s' 3 = Inr [Inr (5, 42)]"
proof -
  have "represents spec_empty (txn_tables mem_tables empty_txn)" by (rule represents_empty) (simp add: empty_txn_tables)
  from forest_refines_spec [OF mem.write_txn_contract empty_txn_ready this sample_ops_ok]
  obtain s' where run: "st_for (run_op mem_txn) sample_ops empty_txn = (Inl (Err (CommitmentConflict 3 5)), s')"
    and reads: "answers mem_txn s' (snd (spec_run sample_ops spec_empty))"
    by (auto simp: sample_ops_run)
  have "commitments_node mem_txn s' 3 5 = Inr (Some sample_node)" "tree_length mem_txn s' 3 = Inr 6"
    "tree_count mem_txn s' = Inr 4" "synced_block mem_txn s' = Inr (Some 100)"
    "is_nullified mem_txn s' 3 (replicate 32 8) = Inr True" "leaf_hashes mem_txn s' 3 = Inr [Inr (5, 42)]"
    using reads by (simp_all add: answers_def sample_ops_run node_at_def sample_node_def spec_nullified_def spec_leaves_def
        spec_entries_def)
  with run show ?thesis by blast
qed

end
