(* ===== verification/Lifecycle_Properties.thy ===== *)
theory Lifecycle_Properties
  imports Lifecycle Forest_Spec
begin

text \<open>
  What a client may rely on in every reachable state: the stored forest is the chain's history up to the watermark,
  the Merkle roots are the roots of that history, and a wallet's balances are those of the history.
\<close>

section \<open>The chain's own leaves and balances\<close>

definition synced_nodes :: "block_number \<Rightarrow> node list \<Rightarrow> disk \<Rightarrow> node list" where
  "synced_nodes start ns d = (case watermark d of None \<Rightarrow> [] | Some w \<Rightarrow> blocks_nodes ns start w)"

definition synced_nulls :: "block_number \<Rightarrow> (block_number \<times> nullified) list \<Rightarrow> disk \<Rightarrow> nullified list" where
  "synced_nulls start ks d = (case watermark d of None \<Rightarrow> [] | Some w \<Rightarrow> blocks_nulls ks start w)"

text \<open>The leaves of a tree of a node list, gaps filled with the zero value.\<close>

definition chain_leaves :: "merkle_config \<Rightarrow> node list \<Rightarrow> u32 \<Rightarrow> u256 list" where
  "chain_leaves C ns t =
     map (\<lambda>q. case find (node_at t (of_nat q)) ns of None \<Rightarrow> mc_zero C | Some n \<Rightarrow> nd_hash n) [0..<chain_span t ns]"

definition chain_unspent :: "nullified list \<Rightarrow> decrypted_note list \<Rightarrow> decrypted_note list" where
  "chain_unspent ks =
     filter (\<lambda>x. \<not> list_ex (\<lambda>k. nf_tree_number k = tree_number (dn_position x) \<and> nf_nullifier k = dn_nullifier x) ks)"

definition chain_balance :: "nullified list \<Rightarrow> decrypted_note list \<Rightarrow> balance option" where
  "chain_balance ks xs =
     (let fresh = chain_unspent ks xs
      in if fresh = [] then None
         else Some \<lparr>bal_value = of_nat (min (2 ^ 256 - 1) (\<Sum>x \<leftarrow> fresh. unat (dn_value x))), unspent_utxos = fresh\<rparr>)"

lemma mirrored_leaves:
  assumes "\<And>p n. leaf_at m t p = Some n \<longleftrightarrow> n \<in> set ns \<and> node_at t p n" and "forest_ok m"
  shows "leaves_of C m t = chain_leaves C ns t"
proof -
  have span: "tree_span m t = chain_span t ns" by (rule tree_span_of_list [OF assms])
  have "leaf_value C m t q = (case find (node_at t (of_nat q)) ns of None \<Rightarrow> mc_zero C | Some n \<Rightarrow> nd_hash n)" for q
  proof (cases "find (node_at t (of_nat q)) ns")
    case None
    then have "leaf_at m t (of_nat q) = None" using assms(1) [of "of_nat q"] by (cases "leaf_at m t (of_nat q)") (auto simp: find_None_iff)
    then show ?thesis by (simp add: leaf_value_def None)
  next
    case (Some n)
    then have "leaf_at m t (of_nat q) = Some n" using assms(1) by (auto simp: find_Some_iff)
    then show ?thesis by (simp add: leaf_value_def Some)
  qed
  then show ?thesis by (simp add: leaves_of_def chain_leaves_def span)
qed

lemma mirrored:
  assumes "wallet_db_ok C J start ns ks d"
  shows "leaf_at (on_disk d) t p = Some n \<longleftrightarrow> n \<in> set (synced_nodes start ns d) \<and> node_at t p n"
    and "nullified_in (on_disk d) t h \<longleftrightarrow> (\<exists>k \<in> set (synced_nulls start ks d). nf_tree_number k = t \<and> nf_nullifier k = h)"
  using assms
  by (simp_all add: wallet_db_ok_def mirrors_def holds_blocks_def synced_nodes_def synced_nulls_def Bex_def
      del: in_blocks_nodes in_blocks_nulls split: option.splits)

lemma mirrored_balance:
  assumes "wallet_db_ok C J start ns ks d"
  shows "balance_of (on_disk d) xs = chain_balance (synced_nulls start ks d) xs"
proof -
  have "unspent (on_disk d) xs = chain_unspent (synced_nulls start ks d) xs"
    by (simp add: unspent_def chain_unspent_def mirrored(2) [OF assms] list_ex_iff)
  then show ?thesis by (simp add: balance_of_def chain_balance_def)
qed

context redb_laws
begin

lemma wallet_root:
  assumes "wallet_db_ok C J start ns ks (db_disk db)" and "mc_depth C = 16" and "db_read E db = Inr view"
  shows "merkle_root (read_view E) C J view t = Inr (tree_root C (chain_leaves C (synced_nodes start ns (db_disk db)) t))"
proof -
  have rt: "rt_disk view = db_disk db" by (rule db_read_disk [OF assms(3)])
  have ok: "forest_ok (on_disk (db_disk db))" "materialized (rt_disk view)" "snapshot_current C J (on_disk (db_disk db)) t"
    using assms(1) by (simp_all add: rt wallet_db_ok_def db_ok_def snapshots_ok_def)
  from view.merkle_root_law [OF ok(2) _ assms(2), of J t] ok
  have "merkle_root (read_view E) C J view t = Inr (tree_root C (leaves_of C (on_disk (db_disk db)) t))"
    by (simp add: view_tables_def rt)
  then show ?thesis using mirrored_leaves [OF mirrored(1) [OF assms(1)] ok(1)] by simp
qed

lemma wallet_balances:
  assumes ok: "wallet_db_ok C J start ns ks (db_disk db)" and "db_read E db = Inr view"
    and total: "\<And>n. n \<in> set ns \<Longrightarrow> decrypt_node L P (dc_decryptor W) n \<noteq> Inl Panic"
  defines "open_note \<equiv> decrypt_node L P (dc_decryptor W)"
  shows "\<exists>forest bs. sorted_wrt forest_less forest \<and> set forest = set (synced_nodes start ns (db_disk db))
    \<and> decode_all L P W (read_view E) view = Inr (opened open_note forest)
    \<and> balances (read_view E) view (from_notes (opened open_note forest)) = Inr bs
    \<and> map_of bs = (\<lambda>a. chain_balance (synced_nulls start ks (db_disk db)) (filter (\<lambda>x. dn_asset x = a) (opened open_note forest)))"
proof -
  let ?m = "on_disk (db_disk db)"
  have rt: "rt_disk view = db_disk db" by (rule db_read_disk [OF assms(2)])
  have tables: "view_tables rt_disk view = ?m" by (simp add: view_tables_def rt)
  have mat: "materialized (rt_disk view)" and forest: "forest_ok (view_tables rt_disk view)"
    using ok by (simp_all add: rt tables wallet_db_ok_def db_ok_def)
  have total': "decrypt_node L P (dc_decryptor W) n \<noteq> Inl Panic" if "leaf_at (view_tables rt_disk view) t p = Some n" for t p n
    using that total unfolding tables mirrored(1) [OF ok]
    by (auto simp: synced_nodes_def split: option.splits)
  have "\<exists>fs. decode_all L P W (read_view E) view = Inr (opened open_note fs) \<and> all_leaves (view_tables rt_disk view) fs"
    unfolding open_note_def by (rule view.decode_all_law [OF mat forest]) (rule total')
  then obtain fs where fs: "decode_all L P W (read_view E) view = Inr (opened open_note fs)" "all_leaves ?m fs"
    by (auto simp: tables)
  have "set fs = set (synced_nodes start ns (db_disk db))" and sorted: "sorted_wrt forest_less fs"
    using fs(2) by (auto simp: all_leaves_def mirrored(1) [OF ok] node_at_def)
  moreover obtain bs where "balances (read_view E) view (from_notes (opened open_note fs)) = Inr bs"
    "map_of bs = (\<lambda>a. balance_of ?m (filter (\<lambda>n. dn_asset n = a) (opened open_note fs)))"
    using view.balances_law [OF mat from_notes_grouped] by (auto simp: tables)
  ultimately show ?thesis using fs(1) mirrored_balance [OF ok] by (intro exI [of _ fs] exI [of _ bs]) simp
qed

end

section \<open>A chain of one commitment\<close>

abbreviation no_json :: "decrypted_note list json" where
  "no_json \<equiv> \<lparr>js_to_vec = \<lambda>_. Inl [], js_from_slice = \<lambda>_. Inl []\<rparr>"

definition chain_source :: "node \<Rightarrow> unit event_source" where
  "chain_source n = \<lparr>es_latest_block = (\<lambda>s. (Inr 9, s)),
     es_fetch_page = (\<lambda>stream from' to' _ s.
       (Inr \<lparr>pg_events = (if stream = Commitments then map Commitment (blocks_nodes [n] from' to') else []), pg_cursor = None\<rparr>, s))\<rparr>"

abbreviation chain_syncer :: "node \<Rightarrow> unit syncer" where
  "chain_syncer n \<equiv> syncer_new (chain_source n) (nd_block n)"

abbreviation reached_by :: "node \<Rightarrow> decrypted_note list json \<Rightarrow> mem_disk \<Rightarrow> bool" where
  "reached_by n K \<equiv> reachable mem_redb sample_merkle state_json K 1 (chain_syncer n) 9 []"

lemma chain_source_fetch:
  "fetch_window (Suc pages) (chain_source n) from' to' src = Some (Inr (blocks_nodes [n] from' to', []), src)"
  by (simp add: fetch_window_def chain_source_def blocks_nodes_def)

lemma chain_source_serves: "serves_chain 1 (sy_source (chain_syncer n)) 9 [n] []"
  using chain_source_fetch [of 0]
  by (auto simp: serves_chain_def syncer_new_def blocks_nulls_def chain_source_def)

lemma no_file: "mem_tables [] = Map.empty"
  by (simp add: mem_tables_def fun_eq_iff)

lemma fresh_file_ok:
  obtains db where "db_open mem_redb [] = Inr db" and "wallet_db_ok C J start ns ks (mem_tables db)"
    and "watermark (mem_tables db) = None"
proof -
  have "fst (db_initialize mem_redb []) = Inr ()" by code_simp
  then have "\<exists>db. db_open mem_redb [] = Inr db"
    by (cases "db_initialize mem_redb []") (simp add: db_open_def engine_open_def mem_redb_def [THEN arg_cong, of redb_create])
  then obtain db where db: "db_open mem_redb [] = Inr db" by blast
  have disk: "materialized (mem_tables db)" "on_disk (mem_tables db) = stamped (\<lambda>_. Map.empty)"
    using mem.db_open_disk [OF db] by (simp_all add: no_file)
  then have "watermark (mem_tables db) = None" using stamped_tables by (simp add: watermark_def)
  with mem.fresh_ok [OF disk] db show ?thesis using that by blast
qed

lemma one_window_reached:
  assumes n: "acceptable n" and start: "start \<le> 9"
    and fetch: "fetch_window pages S start 9 src = Some (Inr ([n], []), src')"
  obtains db where "reachable mem_redb sample_merkle state_json K pages (syncer_new S start) 9 [] db"
    and "watermark (mem_tables db) = Some 9"
proof -
  let ?S = "syncer_new S start"
  let ?run = "sync_run (Suc (Suc 0)) pages mem_redb sample_merkle state_json ?S 9"
  obtain db0 where db0: "db_open mem_redb [] = Inr db0" "wallet_db_ok sample_merkle state_json start [] [] (mem_tables db0)"
    and mark: "watermark (mem_tables db0) = None"
    by (rule fresh_file_ok)
  have r0: "reachable mem_redb sample_merkle state_json K pages ?S 9 [] db0" by (rule reachable.opened [OF db0(1)])
  have ok: "db_ok sample_merkle state_json (mem_tables db0)" and new: "leaf_at (on_disk (mem_tables db0)) t p = None" for t p
    using db0(2) mark by (simp_all add: wallet_db_ok_def mirrors_def)
  have read: "db_read mem_redb db0 = Inr db0" by (simp add: db_read_def begin_read_def mem_redb_def)
  have parts: "sy_floor ?S = start" "sy_source ?S = S" by (simp_all add: syncer_new_def)
  have e: "window_end ?S start 9 = 9" "block_saturating_add 9 1 = 10"
    using start unsigned_less [of start, where 'a = nat]
    by (simp_all add: window_end_def syncer_new_def DEFAULT_BLOCK_WINDOW_def word_le_nat_alt unat_block_saturating_add
        word_unat_eq_iff min_def)
  obtain db where c: "commit_window mem_redb sample_merkle state_json [n] [] 9 db0 = (Inr (), db)"
    using one_node_window_commits [OF ok n new] by blast
  have "\<exists>res. ?run (src, db0) = Some (Inr res, src', db)"
    using start c fetch
    by (simp add: sync_run_def read mem.synced_block_watermark [OF ok read] mark Let_def e parts)
  then obtain res where run: "?run (src, db0) = Some (Inr res, src', db)" by blast
  have "reachable mem_redb sample_merkle state_json K pages ?S 9 [] db" by (rule reachable.synced [OF r0 _ run]) simp
  moreover have "watermark (mem_tables db) = Some 9"
    using mem.commit_window_law [OF state_json_ok sample_merkle_depth ok _ c] n
    by (simp add: window_committed_def watermark_def)
  ultimately show ?thesis by (rule that)
qed

lemma one_node_reached:
  assumes "acceptable n" and "nd_block n \<le> 9"
  obtains db where "reached_by n K db" and "watermark (mem_tables db) = Some 9"
proof -
  have "fetch_window 1 (chain_source n) (nd_block n) 9 () = Some (Inr ([n], []), ())"
    using chain_source_fetch [of 0 n "nd_block n" 9 "()"] assms(2) by (simp add: blocks_nodes_def)
  then show ?thesis by (rule one_window_reached [OF assms]) (rule that)
qed

section \<open>Properties\<close>

text \<open>C1: the database mirrors the chain. Start from no file and open, sync to any block, sync to the head, fail
  anywhere, clear, save notes, in any order: the forest, its counters and its snapshots are well formed, the schema
  stamps are this version's, and the stored nodes and nullifiers are exactly those the chain published from the
  syncer's floor to the watermark, as long as the source never answers wrongly.\<close>

theorem reachable_mirrors_chain:
  assumes "redb_laws E db_disk rt_disk tbl_map wt_disk" and "json_ok J" and "mc_depth C = 16"
    and "\<forall>n \<in> set ns. acceptable n" and "serves_chain pages (sy_source syncer) head ns ks"
    and "db_disk path = Map.empty" and "reachable E C J K pages syncer head path db"
  shows "wallet_db_ok C J (sy_floor syncer) ns ks (db_disk db)"
  using assms by (rule redb_laws.reachable_ok)

lemma reachable_mirrors_chain_witness:
  "\<exists>db. reached_by sample_node no_json db \<and> watermark (mem_tables db) = Some 9
     \<and> wallet_db_ok sample_merkle state_json 9 [sample_node] [] (mem_tables db)"
proof -
  have "nd_block sample_node = 9" by (simp add: sample_node_def)
  then obtain db where db: "reached_by sample_node no_json db" "watermark (mem_tables db) = Some 9"
    by (rule one_node_reached [OF sample_node_acceptable eq_refl])
  from reachable_mirrors_chain [OF mem.redb_laws_axioms state_json_ok sample_merkle_depth _ chain_source_serves no_file db(1)]
  show ?thesis using db sample_node_acceptable by (auto simp: syncer_new_def sample_node_def)
qed

text \<open>C3: every Merkle root the database serves is the chain's. In every reachable state and for every tree,
  \<open>merkle_root\<close> answers, from a snapshot or by recomputation, with the root of the leaves that the chain published
  in that tree up to the watermark, gaps filled with the zero value.\<close>

theorem reachable_roots_are_chain_roots:
  assumes "redb_laws E db_disk rt_disk tbl_map wt_disk" and "json_ok J" and "mc_depth C = 16"
    and "\<forall>n \<in> set ns. acceptable n" and "serves_chain pages (sy_source syncer) head ns ks"
    and "db_disk path = Map.empty" and "reachable E C J K pages syncer head path db"
    and "db_read E db = Inr view"
  shows "merkle_root (read_view E) C J view t =
    Inr (tree_root C (chain_leaves C (synced_nodes (sy_floor syncer) ns (db_disk db)) t))"
  by (rule redb_laws.wallet_root [OF assms(1) redb_laws.reachable_ok [OF assms(1-7)] assms(3,8)])

lemma mem_read: "db_read mem_redb db = Inr db"
  by (simp add: db_read_def begin_read_def mem_redb_def)

lemma reachable_roots_are_chain_roots_witness:
  "\<exists>db. reached_by sample_node no_json db \<and>
     merkle_root (read_view mem_redb) sample_merkle state_json db 3 =
       Inr (tree_root sample_merkle (replicate 5 (mc_zero sample_merkle) @ [42]))"
proof -
  have "nd_block sample_node = 9" by (simp add: sample_node_def)
  then obtain db where db: "reached_by sample_node no_json db" "watermark (mem_tables db) = Some 9"
    by (rule one_node_reached [OF sample_node_acceptable eq_refl])
  have nodes: "synced_nodes 9 [sample_node] (mem_tables db) = [sample_node]"
    by (simp add: synced_nodes_def db(2) blocks_nodes_def sample_node_def)
  have five: "replicate 5 z = [z, z, z, z, z]" for z :: u256 by (simp add: eval_nat_numeral)
  have leaves: "chain_leaves sample_merkle [sample_node] 3 = replicate 5 (mc_zero sample_merkle) @ [42]"
    unfolding five by (simp add: chain_leaves_def sample_node_def node_at_def upt_conv_Cons del: upt_Suc)
  from reachable_roots_are_chain_roots [OF mem.redb_laws_axioms state_json_ok sample_merkle_depth _ chain_source_serves
      no_file db(1) mem_read, of 3]
  show ?thesis using db sample_node_acceptable nodes unfolding leaves [symmetric] by (auto simp: syncer_new_def sample_node_def)
qed

text \<open>C2: a wallet sees exactly its money on the chain. In every reachable state, decoding returns the notes of the
  chain's commitments up to the watermark that the wallet's keys open, each once and in forest order, and the balance
  of each asset is the sum over those of its notes whose nullifier the chain has not published up to there, capped at
  the largest 256-bit number.\<close>

theorem reachable_balances_are_chain_balances:
  assumes "redb_laws E db_disk rt_disk tbl_map wt_disk" and "json_ok J" and "mc_depth C = 16"
    and "\<forall>n \<in> set ns. acceptable n" and "serves_chain pages (sy_source syncer) head ns ks"
    and "db_disk path = Map.empty" and "reachable E C J K pages syncer head path db"
    and "db_read E db = Inr view"
    and "\<And>n. n \<in> set ns \<Longrightarrow> decrypt_node L P (dc_decryptor W) n \<noteq> Inl Panic"
  shows "\<exists>forest bs. sorted_wrt forest_less forest
    \<and> set forest = set (synced_nodes (sy_floor syncer) ns (db_disk db))
    \<and> decode_all L P W (read_view E) view = Inr (opened (decrypt_node L P (dc_decryptor W)) forest)
    \<and> balances (read_view E) view (from_notes (opened (decrypt_node L P (dc_decryptor W)) forest)) = Inr bs
    \<and> map_of bs = (\<lambda>a. chain_balance (synced_nulls (sy_floor syncer) ks (db_disk db))
        (filter (\<lambda>x. dn_asset x = a) (opened (decrypt_node L P (dc_decryptor W)) forest)))"
  by (rule redb_laws.wallet_balances [OF assms(1) redb_laws.reachable_ok [OF assms(1-7)] assms(8,9)])

lemma reachable_balances_are_chain_balances_witness:
  "\<exists>n db x bs. reached_by n no_json db \<and> dn_value x = 5
     \<and> decode_all toy_lib sample_engine \<lparr>dc_decryptor = toy_decryptor\<rparr> (read_view mem_redb) db = Inr [x]
     \<and> balances (read_view mem_redb) db (from_notes [x]) = Inr bs
     \<and> map_of bs (dn_asset x) = Some \<lparr>bal_value = 5, unspent_utxos = [x]\<rparr>"
proof -
  obtain npk h x where o: "decrypt_node toy_lib sample_engine toy_decryptor (toy_node npk h) = Inr x" "dn_value x = 5"
    by (rule toy_node_opens)
  let ?n = "toy_node npk h" and ?f = "decrypt_node toy_lib sample_engine toy_decryptor"
  have acc: "acceptable ?n" using toy_node_storable(1) by (simp add: acceptable_def toy_node_def)
  have "nd_block ?n \<le> 9" by (simp add: toy_node_def)
  then obtain db where db: "reached_by ?n no_json db" "watermark (mem_tables db) = Some 9"
    by (rule one_node_reached [OF acc])
  have nodes: "set (synced_nodes 0 [?n] (mem_tables db)) = {?n}" "synced_nulls 0 [] (mem_tables db) = []"
    by (simp_all add: synced_nodes_def synced_nulls_def db(2) blocks_nodes_def blocks_nulls_def toy_node_def)
  have floor: "sy_floor (chain_syncer ?n) = 0" by (simp add: syncer_new_def toy_node_def)
  obtain forest bs where f: "sorted_wrt forest_less forest" "set forest = {?n}"
    "decode_all toy_lib sample_engine \<lparr>dc_decryptor = toy_decryptor\<rparr> (read_view mem_redb) db = Inr (opened ?f forest)"
    "balances (read_view mem_redb) db (from_notes (opened ?f forest)) = Inr bs"
    "map_of bs = (\<lambda>a. chain_balance [] (filter (\<lambda>x. dn_asset x = a) (opened ?f forest)))"
    using reachable_balances_are_chain_balances [OF mem.redb_laws_axioms state_json_ok sample_merkle_depth _
        chain_source_serves no_file db(1) mem_read, of toy_lib sample_engine "\<lparr>dc_decryptor = toy_decryptor\<rparr>"]
      acc o(1) unfolding floor nodes by auto
  have "forest = [?n]"
    using f(1,2) by (cases forest; cases "tl forest") (auto simp: forest_less_def)
  then have "opened ?f forest = [x]" using o(1) by simp
  note f = f(3-5) [unfolded this]
  have "map_of bs (dn_asset x) = Some \<lparr>bal_value = 5, unspent_utxos = [x]\<rparr>"
    using f(3) o(2) by (simp add: chain_balance_def chain_unspent_def)
  with f(1,2) db(1) o(2) show ?thesis by blast
qed

end
