(* ===== verification/Liveness.thy ===== *)
theory Liveness
  imports Lifecycle_Properties
begin

text \<open>
  Progress: over an engine whose transactions begin and commit, and a source that delivers, a window is refused only
  for a conflict, and a run over a chain without conflicts arrives at its target.
\<close>

section \<open>A live engine\<close>

locale redb_live = redb_laws +
  assumes read_begins: "\<exists>rt. redb_begin_read E db = Inr rt"
    and write_begins: "\<exists>wt. redb_begin_write E db = Inr wt"
    and commits: "\<exists>db'. redb_commit E wt db = (Inr (), db')"

interpretation live_mem: redb_live mem_redb mem_tables mem_tables map_of mem_tables
  by unfold_locales (simp_all add: mem_redb_def)

context redb_live
begin

lemma db_write_live:
  obtains wt where "wt_disk wt = db_disk db"
    and "\<And>e txn. f (write_txn_new wt) = (Inl e, txn) \<Longrightarrow> db_write E from f db = (Inl e, db)"
    and "\<And>val txn. f (write_txn_new wt) = (Inr val, txn) \<Longrightarrow> \<exists>db'. db_write E from f db = (Inr val, db')"
proof -
  obtain wt where wt: "redb_begin_write E db = Inr wt" using write_begins by blast
  have b: "Engine.begin_write E db = Inr wt" by (simp add: Engine.begin_write_def wt)
  have "\<exists>db'. db_write E from f db = (Inr val, db')" if run: "f (write_txn_new wt) = (Inr val, txn)" for val txn
  proof -
    obtain db' where "redb_commit E (wt_inner txn) db = (Inr (), db')" using commits by blast
    then have "write_txn_commit E (wt_inner txn) db = (Inr (), db')" by (simp add: write_txn_commit_def st_map_err_def)
    then show ?thesis by (simp add: db_write_def b run)
  qed
  moreover have "db_write E from f db = (Inl e, db)" if "f (write_txn_new wt) = (Inl e, txn)" for e txn
    by (simp add: db_write_def b that)
  ultimately show ?thesis using that begin_write [OF wt] by blast
qed

lemma commit_window_live:
  assumes J: "json_ok J" and d: "mc_depth C = 16" and ok: "db_ok C J (db_disk db)" and ns: "\<forall>n \<in> set ns. acceptable n"
  shows "(\<exists>db'. commit_window E C J ns nulls through db = (Inr (), db'))
    \<or> (\<exists>t p. commit_window E C J ns nulls through db = (Inl (SyncDatabase (CommitmentConflict t p)), db)
         \<and> conflicts ns (on_disk (db_disk db)) t p)"
proof -
  let ?f = "window_body (write_txn_store E) C J ns nulls through"
  obtain wt where wt: "wt_disk wt = db_disk db"
    and w: "\<And>e txn. ?f (write_txn_new wt) = (Inl e, txn) \<Longrightarrow> db_write E from_db ?f db = (Inl e, db)"
      "\<And>val txn. ?f (write_txn_new wt) = (Inr val, txn) \<Longrightarrow> \<exists>db'. db_write E from_db ?f db = (Inr val, db')"
    by (rule db_write_live [of db ?f from_db]) blast
  obtain r txn where r: "?f (write_txn_new wt) = (r, txn)" by fastforce
  have start: "txn_ready wt_disk (write_txn_new wt)" "txn_tables wt_disk (write_txn_new wt) = on_disk (db_disk db)"
    using wt ok by (simp_all add: db_ok_def)
  have law: "case r of Inr _ \<Rightarrow> True
      | Inl e \<Rightarrow> \<exists>t p. e = SyncDatabase (CommitmentConflict t p) \<and> conflicts ns (on_disk (db_disk db)) t p"
    using txn.window_body_law [OF start(1) J d _ _ ns r] ok unfolding start(2) by (cases r) (simp_all add: db_ok_def)
  show ?thesis
  proof (cases r)
    case (Inl e)
    then show ?thesis using law w(1) r by (auto simp: commit_window_def)
  next
    case (Inr u)
    then show ?thesis using w(2) r by (auto simp: commit_window_def)
  qed
qed

end

section \<open>A run that arrives\<close>

text \<open>A source that answers every window up to \<open>head\<close> with the chain's events.\<close>

definition delivers ::
  "nat \<Rightarrow> 'src event_source \<Rightarrow> block_number \<Rightarrow> node list \<Rightarrow> (block_number \<times> nullified) list \<Rightarrow> bool" where
  "delivers pages S head ns ks \<longleftrightarrow>
     (\<forall>from' to' src. to' \<le> head \<longrightarrow>
        (\<exists>src'. fetch_window pages S from' to' src = Some (Inr (blocks_nodes ns from' to', blocks_nulls ks from' to'), src')))"

lemma no_conflicts:
  assumes "wallet_db_ok C J start ns ks d" and "inj_on nd_position (set ns)"
  shows "\<not> conflicts (blocks_nodes ns lo hi) (on_disk d) t p"
proof
  assume "conflicts (blocks_nodes ns lo hi) (on_disk d) t p"
  then obtain a b where ab: "a \<in> set ns" "node_at t p a" "b \<noteq> a" "leaf_at (on_disk d) t p = Some b \<or> b \<in> set ns \<and> node_at t p b"
    by (auto simp: conflicts_def)
  then have "b \<in> set ns" "node_at t p b"
    using mirrored(1) [OF assms(1)] by (auto simp: synced_nodes_def split: option.splits)
  then have "nd_position a = nd_position b" using ab(2) by (simp add: node_at_def)
  with ab(1,3) \<open>b \<in> set ns\<close> assms(2) show False by (auto dest: inj_onD)
qed

context redb_live
begin

lemma sync_loop_arrives:
  assumes J: "json_ok J" and d: "mc_depth C = 16" and acc: "\<forall>n \<in> set ns. acceptable n" and inj: "inj_on nd_position (set ns)"
    and S: "delivers pages (sy_source syncer) head ns ks" and le: "target \<le> head" and small: "unat target < 2 ^ 64 - 1"
  shows "wallet_db_ok C J (sy_floor syncer) ns ks (db_disk db) \<Longrightarrow> from' = start_of syncer (db_disk db) \<Longrightarrow>
    unat target + 1 - unat from' \<le> windows \<Longrightarrow>
    \<exists>result src' db'. sync_loop windows pages E C J syncer target from' summary (src, db) = Some (Inr result, src', db')
      \<and> wallet_db_ok C J (sy_floor syncer) ns ks (db_disk db')
      \<and> (if from' \<le> target then watermark (db_disk db') = Some target else db' = db)"
proof (induction windows arbitrary: from' summary src db)
  case 0
  then show ?case by (auto simp: word_le_nat_alt)
next
  case (Suc windows)
  show ?case
  proof (cases "from' \<le> target")
    case False
    with Suc.prems show ?thesis by simp
  next
    case True
    let ?e = "window_end syncer from' target"
    have e: "from' \<le> ?e" "?e \<le> target" by (rule window_end_bounds [OF True])+
    obtain src1 where fetch: "fetch_window pages (sy_source syncer) from' ?e src =
        Some (Inr (blocks_nodes ns from' ?e, blocks_nulls ks from' ?e), src1)"
      using S order.trans [OF e(2) le] unfolding delivers_def by blast
    have "\<not> (\<exists>t p. conflicts (blocks_nodes ns from' ?e) (on_disk (db_disk db)) t p)"
      using no_conflicts [OF Suc.prems(1) inj] by blast
    moreover have "db_ok C J (db_disk db)" "\<forall>n \<in> set (blocks_nodes ns from' ?e). acceptable n"
      using Suc.prems(1) acc by (simp_all add: wallet_db_ok_def)
    ultimately obtain db1 where c: "commit_window E C J (blocks_nodes ns from' ?e) (blocks_nulls ks from' ?e) ?e db = (Inr (), db1)"
      using commit_window_live [OF J d] by blast
    have db1: "wallet_db_ok C J (sy_floor syncer) ns ks (db_disk db1)" "block_saturating_add ?e 1 = start_of syncer (db_disk db1)"
      using commit_window_mirrors [where syncer = syncer, OF J d acc Suc.prems(1,2) e(1) c] by simp_all
    have next': "unat (block_saturating_add ?e 1) = unat ?e + 1" by (rule after_window(2) [OF e(2) small])
    then have "unat target + 1 - unat (block_saturating_add ?e 1) \<le> windows"
      using Suc.prems(3) e(1) by (simp add: word_le_nat_alt)
    from Suc.IH [OF db1 this, of "\<lparr>ss_commitments = ss_commitments summary + of_nat (length (blocks_nodes ns from' ?e)),
          ss_nullifiers = ss_nullifiers summary + of_nat (length (blocks_nulls ks from' ?e)), ss_synced_to = ?e\<rparr>" src1]
    obtain result src' db' where rec: "sync_loop (Suc windows) pages E C J syncer target from' summary (src, db) = Some (Inr result, src', db')"
      and db': "wallet_db_ok C J (sy_floor syncer) ns ks (db_disk db')"
      "if block_saturating_add ?e 1 \<le> target then watermark (db_disk db') = Some target else db' = db1"
      using True fetch c by (auto simp: Let_def)
    have "watermark (db_disk db1) = Some ?e"
      using commit_window_law [OF J d _ _ c] Suc.prems(1) acc by (simp add: wallet_db_ok_def window_committed_def watermark_def)
    then have "watermark (db_disk db') = Some target"
      using db'(2) after_window(1) [OF e(2)] by (auto split: if_splits)
    with rec db'(1) True show ?thesis by auto
  qed
qed

lemma sync_run_arrives:
  assumes J: "json_ok J" and d: "mc_depth C = 16" and acc: "\<forall>n \<in> set ns. acceptable n" and inj: "inj_on nd_position (set ns)"
    and S: "delivers pages (sy_source syncer) head ns ks" and le: "target \<le> head" and small: "unat target < 2 ^ 64 - 1"
    and ok: "wallet_db_ok C J (sy_floor syncer) ns ks (db_disk db)" and fuel: "unat target + 1 \<le> windows"
  shows "\<exists>result src' db'. sync_run windows pages E C J syncer target (src, db) = Some (Inr result, src', db')
      \<and> wallet_db_ok C J (sy_floor syncer) ns ks (db_disk db')
      \<and> (if start_of syncer (db_disk db) \<le> target then watermark (db_disk db') = Some target else db' = db)"
proof -
  obtain view where view: "db_read E db = Inr view"
    using read_begins by (auto simp: db_read_def Engine.begin_read_def)
  have ok': "db_ok C J (db_disk db)" using ok by (simp add: wallet_db_ok_def)
  have fuel': "unat target + 1 - unat (start_of syncer (db_disk db)) \<le> windows" using fuel by simp
  note loop = sync_loop_arrives [OF J d acc inj S le small ok refl fuel']
  show ?thesis
    using loop by (cases "watermark (db_disk db)")
      (simp_all add: sync_run_def view synced_block_watermark [OF ok' view] start_of_def)
qed

end

section \<open>Properties\<close>

text \<open>C5: a run arrives. Over an engine whose transactions begin and commit and a source that delivers the windows up to
  the head, from any database the wallet can be in and for a chain that puts no two nodes on one leaf, a run to
  any block up to the head, below the last block number, returns a summary after at most a window per block; then the
  watermark is the target and the forest holds exactly the chain's blocks up to it.\<close>

theorem sync_run_reaches_target:
  assumes "redb_live E db_disk rt_disk tbl_map wt_disk" and "json_ok J" and "mc_depth C = 16"
    and "\<forall>n \<in> set ns. acceptable n" and "inj_on nd_position (set ns)"
    and "delivers pages (sy_source syncer) head ns ks" and "target \<le> head" and "unat target < 2 ^ 64 - 1"
    and "wallet_db_ok C J (sy_floor syncer) ns ks (db_disk db)" and "start_of syncer (db_disk db) \<le> target"
    and "unat target + 1 \<le> windows"
  shows "\<exists>result src' db'. sync_run windows pages E C J syncer target (src, db) = Some (Inr result, src', db')
    \<and> watermark (db_disk db') = Some target
    \<and> holds_blocks ns ks (sy_floor syncer) target (on_disk (db_disk db'))"
  using redb_live.sync_run_arrives [OF assms(1-9,11), of src] assms(10)
  by (auto simp: wallet_db_ok_def mirrors_def)

lemma chain_source_delivers: "delivers 1 (chain_source n) 9 [n] []"
  using chain_source_fetch [of 0] by (simp add: delivers_def blocks_nulls_def)

lemma sync_run_reaches_target_witness:
  "\<exists>db result db'. db_open mem_redb [] = Inr db
     \<and> sync_run 10 1 mem_redb sample_merkle state_json (chain_syncer sample_node) 9 ((), db) = Some (Inr result, (), db')
     \<and> watermark (mem_tables db') = Some 9
     \<and> leaf_at (on_disk (mem_tables db')) 3 5 = Some sample_node"
proof -
  have b: "nd_block sample_node = 9" by (simp add: sample_node_def)
  obtain db where db: "db_open mem_redb [] = Inr db" "watermark (mem_tables db) = None"
    "wallet_db_ok sample_merkle state_json (sy_floor (chain_syncer sample_node)) [sample_node] [] (mem_tables db)"
    by (rule fresh_file_ok) blast
  have S: "delivers 1 (sy_source (chain_syncer sample_node)) 9 [sample_node] []"
    using chain_source_delivers by (simp add: syncer_new_def)
  have start: "start_of (chain_syncer sample_node) (mem_tables db) \<le> 9"
    by (simp add: start_of_def db(2) syncer_new_def b)
  from sync_run_reaches_target [OF live_mem.redb_live_axioms state_json_ok sample_merkle_depth _ _ S order.refl _ db(3) start, of 10 "()"]
  obtain result db' where run: "sync_run 10 1 mem_redb sample_merkle state_json (chain_syncer sample_node) 9 ((), db) = Some (Inr result, (), db')"
    and w: "watermark (mem_tables db') = Some 9"
    and h: "holds_blocks [sample_node] [] (sy_floor (chain_syncer sample_node)) 9 (on_disk (mem_tables db'))"
    using sample_node_acceptable by auto
  have "leaf_at (on_disk (mem_tables db')) 3 5 = Some sample_node"
    using h sample_node_storable(2) by (simp add: holds_blocks_def syncer_new_def b)
  with db(1) run w show ?thesis by blast
qed

end
