(* ===== verification/Indexer.thy ===== *)
theory Indexer
  imports Subsquid_Properties Liveness
begin

text \<open>
  The Subsquid source under the wallet's database: an indexer that may fail at any request but never answers a page
  wrongly is a source of the chain of its rows, through retries, pages and skipped rows. So what holds of every
  reachable database holds of one that is synced from Subsquid.
\<close>

section \<open>An honest indexer\<close>

text \<open>The rows of a block range, in the indexer's order; a nullifier row does not carry its block.\<close>

definition rows_in :: "commitment_row list \<Rightarrow> u64 \<Rightarrow> u64 \<Rightarrow> commitment_row list" where
  "rows_in rows from' to' = filter (\<lambda>c. from' \<le> cm_block_number c \<and> cm_block_number c \<le> to') rows"

definition spends_in :: "(u64 \<times> nullifier_row) list \<Rightarrow> u64 \<Rightarrow> u64 \<Rightarrow> nullifier_row list" where
  "spends_in spends from' to' = map snd (filter (\<lambda>(b, _). from' \<le> b \<and> b \<le> to') spends)"

definition page_of :: "('r \<Rightarrow> string) \<Rightarrow> subsquid_source \<Rightarrow> string option \<Rightarrow> 'r list \<Rightarrow> 'r list" where
  "page_of ident S cursor rows = take (unat (sq_page_limit S)) (rows_after ident (cursor_text cursor) rows)"

text \<open>One request, if it succeeds, is answered with the rows after the cursor, and with a head no higher than \<open>head\<close>.\<close>

definition honest ::
  "('net, 'j) http_client \<Rightarrow> subsquid_source \<Rightarrow> block_number \<Rightarrow> commitment_row list \<Rightarrow> (u64 \<times> nullifier_row) list \<Rightarrow> bool" where
  "honest H S head rows spends \<longleftrightarrow>
     (\<forall>c from' to' net d net'. to' \<le> head \<longrightarrow>
        post_once H (hc_commitments H) S \<lparr>gq_query = COMMITMENTS_QUERY, gq_variables = Some (request_vars S c from' to')\<rparr> net
          = (Inr d, net') \<longrightarrow> cr_commitments d = page_of cm_id S c (rows_in rows from' to'))
   \<and> (\<forall>c from' to' net d net'. to' \<le> head \<longrightarrow>
        post_once H (hc_nullifiers H) S \<lparr>gq_query = NULLIFIERS_QUERY, gq_variables = Some (request_vars S c from' to')\<rparr> net
          = (Inr d, net') \<longrightarrow> nr_nullifiers d = page_of nr_id S c (spends_in spends from' to'))
   \<and> (\<forall>net d net'. post_once H (hc_block_number H) S \<lparr>gq_query = BLOCK_NUMBER_QUERY, gq_variables = None\<rparr> net
          = (Inr d, net') \<longrightarrow> list_all (\<lambda>t. br_block_number t \<le> head) (bn_transactions d))"

lemma post_retry_once:
  assumes "post_retry H read S q v net = (Inr d, net')"
  obtains net0 where "post_once H read S \<lparr>gq_query = q, gq_variables = v\<rparr> net0 = (Inr d, net')"
  using retry_loop_attempts [of 0 "sq_max_retries S" "post_once H read S \<lparr>gq_query = q, gq_variables = v\<rparr>" net] assms
  by (auto simp: post_retry_def)

lemma map_commitments_Some: "map_commitments cs = Some es \<Longrightarrow> es = map Commitment (mapped_nodes cs)"
  by (induction cs arbitrary: es) (auto simp: bind_eq_Some_conv dest: map_commitment_event split: option.splits)

text \<open>A stream of honest pages that ends has yielded the events of all its rows.\<close>

lemma fetch_stream_honest:
  assumes keyed: "keyed ident rows" and L: "0 < unat (sq_page_limit S)"
    and append: "\<And>xs ys. events (xs @ ys) = events xs @ events ys"
    and fetch: "\<And>c net page net'. es_fetch_page src stream from' to' c net = (Inr page, net') \<Longrightarrow>
      pg_events page = events (page_of ident S c rows) \<and> pg_cursor page = last_id ident (page_of ident S c rows)"
  shows "rows = pre @ rest \<Longrightarrow> rows_after ident (cursor_text c) rows = rest \<Longrightarrow>
    fetch_stream fuel src stream from' to' c g net = Some (Inr g', net') \<Longrightarrow> g' = fold gather (events rest) g"
proof (induction fuel arbitrary: pre rest c g net)
  case 0
  then show ?case by simp
next
  case (Suc fuel)
  let ?page = "take (unat (sq_page_limit S)) rest"
  have here: "page_of ident S c rows = ?page" using Suc.prems(2) by (simp add: page_of_def)
  obtain page net1 where f: "es_fetch_page src stream from' to' c net = (Inr page, net1)"
    using Suc.prems(3) by (auto split: prod.splits sum.splits)
  note p = fetch [OF f, unfolded here]
  show ?case
  proof (cases "rest = []")
    case True
    have "events [] = []" using append [of "[]" "[]"] by simp
    with True Suc.prems(3) f p show ?thesis by (simp add: last_id_def)
  next
    case False
    then have page: "?page \<noteq> []" using L by simp
    then have cursor: "last_id ident ?page = Some (ident (last ?page))" by (simp add: last_id_def)
    have split: "rows = (pre @ ?page) @ drop (unat (sq_page_limit S)) rest" using Suc.prems(1) by simp
    have after: "rows_after ident (cursor_text (Some (ident (last ?page)))) rows = drop (unat (sq_page_limit S)) rest"
      using rows_after_last [of ident pre ?page "drop (unat (sq_page_limit S)) rest"] page keyed Suc.prems(1) by simp
    have "fetch_stream fuel src stream from' to' (Some (ident (last ?page))) (fold gather (events ?page) g) net1 = Some (Inr g', net')"
      using Suc.prems(3) f p cursor by simp
    from Suc.IH [OF split after this] show ?thesis
      using append [of ?page "drop (unat (sq_page_limit S)) rest"] by simp
  qed
qed

lemma honest_commitments:
  assumes "honest H S head rows spends" and "to' \<le> head"
    and "es_fetch_page (subsquid H S) Commitments from' to' c net = (Inr page, net')"
  shows "pg_events page = map Commitment (mapped_nodes (page_of cm_id S c (rows_in rows from' to')))
    \<and> pg_cursor page = last_id cm_id (page_of cm_id S c (rows_in rows from' to'))"
proof -
  obtain resp net1 where r: "post_retry H (hc_commitments H) S COMMITMENTS_QUERY (Some (request_vars S c from' to')) net = (Inr resp, net1)"
    and page: "map_option (\<lambda>events. \<lparr>pg_events = events, pg_cursor = last_id cm_id (cr_commitments resp)\<rparr>)
        (map_commitments (cr_commitments resp)) = Some page"
    using assms(3) by (auto simp: subsquid_def subsquid_fetch_page_def st_bind_def Let_def st_lift_def ok_or_def
        split: prod.splits sum.splits option.splits)
  from r obtain net0 where "post_once H (hc_commitments H) S
      \<lparr>gq_query = COMMITMENTS_QUERY, gq_variables = Some (request_vars S c from' to')\<rparr> net0 = (Inr resp, net1)"
    by (rule post_retry_once)
  then have "cr_commitments resp = page_of cm_id S c (rows_in rows from' to')"
    using assms(1,2) unfolding honest_def by blast
  with page show ?thesis by (auto dest: map_commitments_Some)
qed

lemma honest_nullifiers:
  assumes "honest H S head rows spends" and "to' \<le> head"
    and "es_fetch_page (subsquid H S) Nullifiers from' to' c net = (Inr page, net')"
  shows "pg_events page = map map_nullifier (page_of nr_id S c (spends_in spends from' to'))
    \<and> pg_cursor page = last_id nr_id (page_of nr_id S c (spends_in spends from' to'))"
proof -
  obtain resp net1 where r: "post_retry H (hc_nullifiers H) S NULLIFIERS_QUERY (Some (request_vars S c from' to')) net = (Inr resp, net1)"
    and page: "page = \<lparr>pg_events = map map_nullifier (nr_nullifiers resp), pg_cursor = last_id nr_id (nr_nullifiers resp)\<rparr>"
    using assms(3) by (auto simp: subsquid_def subsquid_fetch_page_def st_bind_def Let_def st_ok_def
        split: prod.splits sum.splits)
  from r obtain net0 where "post_once H (hc_nullifiers H) S
      \<lparr>gq_query = NULLIFIERS_QUERY, gq_variables = Some (request_vars S c from' to')\<rparr> net0 = (Inr resp, net1)"
    by (rule post_retry_once)
  then have "nr_nullifiers resp = page_of nr_id S c (spends_in spends from' to')"
    using assms(1,2) unfolding honest_def by blast
  with page show ?thesis by simp
qed

lemma honest_latest:
  assumes "honest H S head rows spends" and "es_latest_block (subsquid H S) net = (Inr b, net')"
  shows "b \<le> head"
proof -
  obtain resp net1 where r: "post_retry H (hc_block_number H) S BLOCK_NUMBER_QUERY None net = (Inr resp, net1)"
    and b: "b = (case bn_transactions resp of [] \<Rightarrow> 0 | t # _ \<Rightarrow> br_block_number t)"
    using assms(2) by (auto simp: subsquid_def subsquid_latest_block_def st_bind_def st_ok_def split: prod.splits sum.splits)
  from r obtain net0 where "post_once H (hc_block_number H) S \<lparr>gq_query = BLOCK_NUMBER_QUERY, gq_variables = None\<rparr> net0 = (Inr resp, net1)"
    by (rule post_retry_once)
  then have "list_all (\<lambda>t. br_block_number t \<le> head) (bn_transactions resp)"
    using assms(1) unfolding honest_def by blast
  then show ?thesis by (cases "bn_transactions resp") (simp_all add: b)
qed

section \<open>The chain of the rows\<close>

definition row_spends :: "(u64 \<times> nullifier_row) list \<Rightarrow> (block_number \<times> nullified) list" where
  "row_spends = map (\<lambda>(b, r). (b, \<lparr>nf_tree_number = nr_tree_number r, nf_nullifier = to_be_bytes (nr_nullifier r)\<rparr>))"

lemma mapped_block: "map_commitment c = Some (Some (Commitment n)) \<Longrightarrow> nd_block n = cm_block_number c"
  by (cases "cm_kind c") (auto simp: map_commitment_def bind_eq_Some_conv Let_def split: if_splits)

lemma mapped_nodes_in: "mapped_nodes (rows_in rows from' to') = blocks_nodes (mapped_nodes rows) from' to'"
  by (induction rows) (auto simp: rows_in_def blocks_nodes_def dest: mapped_block split: option.split sync_event.split)

lemma mapped_nullifiers_in: "mapped_nullifiers (spends_in spends from' to') = blocks_nulls (row_spends spends) from' to'"
  by (induction spends) (auto simp: spends_in_def blocks_nulls_def row_spends_def mapped_nullifiers_def)

definition keyed_rows :: "commitment_row list \<Rightarrow> (u64 \<times> nullifier_row) list \<Rightarrow> bool" where
  "keyed_rows rows spends \<longleftrightarrow> keyed cm_id rows \<and> keyed nr_id (map snd spends)"

lemma keyed_filter: "keyed ident (map f xs) \<Longrightarrow> keyed ident (map f (filter P xs))"
  by (auto simp: keyed_def intro: distinct_map_filter)

lemma keyed_in:
  assumes "keyed_rows rows spends"
  shows "keyed cm_id (rows_in rows from' to')" and "keyed nr_id (spends_in spends from' to')"
  using assms keyed_filter [of cm_id "\<lambda>c. c" rows] keyed_filter [of nr_id snd spends]
  by (simp_all add: keyed_rows_def rows_in_def spends_in_def)

lemma honest_serves_chain:
  assumes "honest H S head rows spends" and "keyed_rows rows spends" and "0 < sq_page_limit S"
  shows "serves_chain pages (subsquid H S) head (mapped_nodes rows) (row_spends spends)"
proof -
  have L: "0 < unat (sq_page_limit S)" using assms(3) by (simp add: word_less_nat_alt)
  have "g = (blocks_nodes (mapped_nodes rows) from' to', blocks_nulls (row_spends spends) from' to')"
    if le: "to' \<le> head" and run: "fetch_window pages (subsquid H S) from' to' src = Some (Inr g, src')" for from' to' src g src'
  proof -
    obtain g1 src1 where 1: "fetch_stream pages (subsquid H S) Commitments from' to' None ([], []) src = Some (Inr g1, src1)"
      and 2: "fetch_stream pages (subsquid H S) Nullifiers from' to' None g1 src1 = Some (Inr g, src')"
      using run by (auto simp: fetch_window_def split: option.splits prod.splits sum.splits)
    have "g1 = fold gather (map Commitment (mapped_nodes (rows_in rows from' to'))) ([], [])"
      by (rule fetch_stream_honest [where events = "\<lambda>rs. map Commitment (mapped_nodes rs)" and pre = "[]",
            OF keyed_in(1) [OF assms(2)] L _ honest_commitments [OF assms(1) le] _ _ 1])
        (simp_all add: mapped_nodes_append rows_after_def)
    moreover have "g = fold gather (map map_nullifier (spends_in spends from' to')) g1"
      by (rule fetch_stream_honest [where events = "map map_nullifier" and pre = "[]",
            OF keyed_in(2) [OF assms(2)] L _ honest_nullifiers [OF assms(1) le] _ _ 2])
        (simp_all add: rows_after_def)
    ultimately show ?thesis
      by (simp add: gather_commitments gather_nullifiers mapped_nodes_in mapped_nullifiers_in)
  qed
  then show ?thesis using honest_latest [OF assms(1)] unfolding serves_chain_def by blast
qed

text \<open>A healthy indexer also delivers, so runs over it arrive.\<close>

lemma healthy_delivers:
  assumes "healthy H S (rows_in rows) (spends_in spends)" and "0 < sq_page_limit S"
    and "\<And>from' to'. indexed pages (rows_in rows) (spends_in spends) from' to'"
  shows "delivers pages (subsquid H S) head (mapped_nodes rows) (row_spends spends)"
  using fetch_window_rows [OF assms] by (simp add: delivers_def mapped_nodes_in mapped_nullifiers_in)

section \<open>Properties\<close>


lemma sample_http_honest:
  "honest (sample_http (rows_in rows) (spends_in spends)) S head rows spends"
  by (auto simp: honest_def post_once_def sample_http_def request_vars_def page_of_def st_bind_def st_ok_def
      split: option.splits if_splits)


end
