(* ===== verification/Staging.thy ===== *)
theory Staging
  imports Liveness
begin

text \<open>
  Stage, validate, apply: the workflow \<open>WriteBatch\<close> and \<open>Overlay\<close> are made for (\<^verbatim>\<open>database/src/batch.rs\<close>,
  \<^verbatim>\<open>lib.rs\<close>). A window is staged in an overlay over a view, its roots are computed there, and the batch is
  applied in one transaction; what was validated is what lands.
\<close>

section \<open>The overlay over one view\<close>

text \<open>No operation of the overlay replaces the view it borrows, so the contract holds with the view fixed.\<close>

lemma reader_contract_pinned:
  assumes "reader_contract R contents ready"
  shows "reader_contract R contents (\<lambda>s. s = view \<and> ready s)"
  using assms unfolding reader_contract_def by blast

context redb_laws
begin

abbreviation pinned :: "'rt \<Rightarrow> 'rt overlay \<Rightarrow> bool" where
  "pinned view \<equiv> overlay_inv (\<lambda>rt. rt = view \<and> materialized (rt_disk rt))"

lemma pinned_contract:
  "store_contract (overlay_store (read_view E)) (overlay_contents (view_tables rt_disk)) (pinned view)"
  by (rule reader_contract.overlay_store_contract [OF reader_contract_pinned [OF read_view_contract]])

lemma pinned_new: "materialized (rt_disk view) \<Longrightarrow> pinned view (write_batch_new, view)"
  by (simp add: overlay_inv_def)

lemma overlay_contents_new: "overlay_contents (view_tables rt_disk) (write_batch_new, view) = on_disk (rt_disk view)"
  by (simp add: overlay_contents_def view_tables_def overlay_map_def fun_eq_iff)

lemma applied_contents:
  assumes "db_read E db = Inr view" and "pinned view s" and "db_apply E (fst s) db = (Inr (), db')"
  shows "materialized (db_disk db') \<and> on_disk (db_disk db') = overlay_contents (view_tables rt_disk) s"
proof -
  obtain batch where s: "s = (batch, view)" "batch_ok batch" "materialized (rt_disk view)"
    using assms(2) by (cases s) (simp add: overlay_inv_def)
  have rt: "rt_disk view = db_disk db" by (rule db_read_disk [OF assms(1)])
  from db_apply_disk [of db batch db'] assms(3) s show ?thesis
    by (simp add: rt overlay_contents_def view_tables_def)
qed

lemma staged_window:
  assumes J: "json_ok J" and d: "mc_depth C = 16" and ok: "db_ok C J (db_disk db)" and ns: "\<forall>n \<in> set ns. acceptable n"
    and view: "db_read E db = Inr view"
    and run: "window_body (overlay_store (read_view E)) C J ns nulls through (write_batch_new, view) = (Inr (), s)"
  shows "pinned view s \<and> window_committed C J ns nulls through (on_disk (db_disk db)) (overlay_contents (view_tables rt_disk) s)"
proof -
  have rt: "rt_disk view = db_disk db" by (rule db_read_disk [OF view])
  have start: "pinned view (write_batch_new, view)"
    using ok by (intro pinned_new) (simp add: rt db_ok_def)
  have "forest_ok (on_disk (db_disk db))" "snapshots_ok C J (on_disk (db_disk db))" using ok by (simp_all add: db_ok_def)
  then show ?thesis
    using store_contract.window_body_law [OF pinned_contract start J d _ _ ns run] by (simp add: overlay_contents_new rt)
qed

lemma staged_window_lands_law:
  assumes J: "json_ok J" and d: "mc_depth C = 16" and ok: "db_ok C J (db_disk db)" and ns: "\<forall>n \<in> set ns. acceptable n"
    and view: "db_read E db = Inr view"
    and run: "window_body (overlay_store (read_view E)) C J ns nulls through (write_batch_new, view) = (Inr (), s)"
    and apply_batch: "db_apply E (fst s) db = (Inr (), db')" and after: "db_read E db' = Inr view'"
  shows "db_ok C J (db_disk db') \<and> window_committed C J ns nulls through (on_disk (db_disk db)) (on_disk (db_disk db'))
    \<and> merkle_root (overlay_store (read_view E)) C J s t = merkle_root (read_view E) C J view' t"
proof -
  have s: "pinned view s" "window_committed C J ns nulls through (on_disk (db_disk db)) (overlay_contents (view_tables rt_disk) s)"
    using staged_window [OF assms(1-6)] by simp_all
  have d': "materialized (db_disk db')" "on_disk (db_disk db') = overlay_contents (view_tables rt_disk) s"
    using applied_contents [OF view s(1) apply_batch] by simp_all
  have ok': "forest_ok (on_disk (db_disk db'))" "snapshot_current C J (on_disk (db_disk db')) t"
    using s(2) by (simp_all add: d'(2) window_committed_def snapshots_ok_def)
  have rt: "rt_disk view' = db_disk db'" by (rule db_read_disk [OF after])
  have "merkle_root (overlay_store (read_view E)) C J s t = Inr (tree_root C (leaves_of C (on_disk (db_disk db')) t))"
    unfolding d'(2)
    by (rule reader_contract.merkle_root_law [OF store_contract.axioms(1) [OF pinned_contract] s(1) _ d])
      (use ok' in \<open>simp_all add: d'(2)\<close>)
  moreover have "merkle_root (read_view E) C J view' t = Inr (tree_root C (leaves_of C (on_disk (db_disk db')) t))"
    using view.merkle_root_law [of view' C J t] ok' d d'(1) by (simp add: view_tables_def rt)
  ultimately show ?thesis
    using s(2) d' by (simp add: db_ok_def window_committed_def)
qed

end

text \<open>Over a live engine the batch of an overlay always applies, and staging fails only for a conflict.\<close>

context redb_live
begin

lemma db_apply_live:
  assumes "materialized (db_disk db)" and "batch_ok batch"
  shows "\<exists>db'. db_apply E batch db = (Inr (), db')"
proof -
  obtain wt where wt: "wt_disk wt = db_disk db"
    and w: "\<And>val txn. apply_batch (write_txn_store E) batch (write_txn_new wt) = (Inr val, txn) \<Longrightarrow>
      \<exists>db'. db_write E id (apply_batch (write_txn_store E) batch) db = (Inr val, db')"
    by (rule db_write_live [of db "apply_batch (write_txn_store E) batch" id]) blast
  have "txn_ready wt_disk (write_txn_new wt)" using wt assms(1) by simp
  from txn.apply_batch_law [OF this assms(2)] w show ?thesis unfolding db_apply_def by blast
qed

lemma staging_succeeds:
  assumes J: "json_ok J" and d: "mc_depth C = 16" and ok: "db_ok C J (db_disk db)" and ns: "\<forall>n \<in> set ns. acceptable n"
    and view: "db_read E db = Inr view" and free: "\<And>t p. \<not> conflicts ns (on_disk (db_disk db)) t p"
  obtains s where "window_body (overlay_store (read_view E)) C J ns nulls through (write_batch_new, view) = (Inr (), s)"
proof -
  have rt: "rt_disk view = db_disk db" by (rule db_read_disk [OF view])
  have start: "pinned view (write_batch_new, view)"
    using ok by (intro pinned_new) (simp add: rt db_ok_def)
  obtain r s where run: "window_body (overlay_store (read_view E)) C J ns nulls through (write_batch_new, view) = (r, s)"
    by (cases "window_body (overlay_store (read_view E)) C J ns nulls through (write_batch_new, view)") (rule that)
  have f: "forest_ok (on_disk (db_disk db))" "snapshots_ok C J (on_disk (db_disk db))" using ok by (simp_all add: db_ok_def)
  have "r = Inr ()"
    using store_contract.window_body_law [OF pinned_contract start J d _ _ ns run] f free
    by (cases r) (auto simp: overlay_contents_new rt)
  with run show ?thesis using that by simp
qed

end

section \<open>Properties\<close>



end
