(* ===== verification/Database_Tests.thy ===== *)
theory Database_Tests
  imports Staging Forest_Spec "HOL-Library.Monad_Syntax"
begin

text \<open>
  The unit tests of \<^verbatim>\<open>database/src/lib.rs\<close>, transcribed as programs over any engine: a test is an option, and a
  panic (an \<^verbatim>\<open>unwrap\<close> of an error, an \<^verbatim>\<open>assert!\<close> that fails) is \<open>None\<close>. The section after them proves that every
  engine that keeps redb's contract passes them all, from the laws of the components and not by running them.
\<close>

section \<open>The test harness\<close>

definition unwrap :: "'e + 'a \<Rightarrow> 'a option" where
  "unwrap r = (case r of Inl _ \<Rightarrow> None | Inr x \<Rightarrow> Some x)"

definition unwrap_err :: "'e + 'a \<Rightarrow> 'e option" where
  "unwrap_err r = (case r of Inl e \<Rightarrow> Some e | Inr _ \<Rightarrow> None)"

definition ensure :: "bool \<Rightarrow> unit option" where
  "ensure b = (if b then Some () else None)"

text \<open>\<^verbatim>\<open>db.write(f).unwrap()\<close>, as the database it leaves.\<close>

definition written :: "('db, 'rt, 'tbl, 'wt) redb \<Rightarrow> ('wt write_txn, db_err, unit) step \<Rightarrow> 'db \<Rightarrow> 'db option" where
  "written E f db = (case db_write E id f db of (Inl _, _) \<Rightarrow> None | (Inr _, db') \<Rightarrow> Some db')"

text \<open>\<^verbatim>\<open>temp()\<close>: a database on a file that holds nothing yet.\<close>

definition temp :: "('db, 'rt, 'tbl, 'wt) redb \<Rightarrow> 'db \<Rightarrow> 'db option" where
  "temp E file = unwrap (db_open E file)"

definition shield_node :: "u32 \<Rightarrow> u32 \<Rightarrow> node option" where
  "shield_node tree leaf = do {
     p \<leftarrow> unwrap (try_new tree leaf);
     Some \<lparr>nd_position = p, nd_hash = ucast (ucast leaf :: u64) + 1, nd_block = 1,
       nd_body = Shield \<lparr>sh_npk = 7, sh_token = Erc20 (replicate 20 0x11), sh_value = 1000,
         sh_encrypted_bundle = [replicate 32 0], sh_shield_key = replicate 32 4\<rparr>\<rparr>
   }"

primrec collect_results :: "('e + 'a) list \<Rightarrow> 'e + 'a list" where
  "collect_results [] = Inr []"
| "collect_results (x # xs) = res_bind x (\<lambda>y. res_bind (collect_results xs) (\<lambda>ys. Inr (y # ys)))"

text \<open>The mutations a test's closure makes on \<^verbatim>\<open>txn.commitments()\<close>, one after the other with \<^verbatim>\<open>?\<close>.\<close>

abbreviation commitments_do :: "('s, 'z) store_scheme \<Rightarrow> forest_op list \<Rightarrow> ('s, db_err, unit) step" where
  "commitments_do R ops \<equiv> st_for (run_op R) ops"

section \<open>The tests\<close>

definition nodes_and_nullifiers_round_trip :: "('db, 'rt, 'tbl, 'wt) redb \<Rightarrow> 'db \<Rightarrow> unit option" where
  "nodes_and_nullifiers_round_trip E file = do {
     db \<leftarrow> temp E file;
     let nullifier = to_be_bytes (9 :: u256);
     n00 \<leftarrow> shield_node 0 0; n01 \<leftarrow> shield_node 0 1; n10 \<leftarrow> shield_node 1 0;
     db \<leftarrow> written E (commitments_do (write_txn_store E)
       [AddNode n00, AddNode n01, AddNode n10, Mark 100,
        AddNullifier \<lparr>nf_tree_number = 1, nf_nullifier = nullifier\<rparr>]) db;
     view \<leftarrow> unwrap (db_read E db);
     ensure (tree_count (read_view E) view = Inr 2);
     ensure (tree_length (read_view E) view 0 = Inr 2);
     ensure (tree_length (read_view E) view 1 = Inr 1);
     found \<leftarrow> unwrap (commitments_node (read_view E) view 0 1);
     ensure (found \<noteq> None);
     ensure (commitments_node (read_view E) view 0 2 = Inr None);
     ensure (synced_block (read_view E) view = Inr (Some 100));
     ensure (is_synced (read_view E) view = Inr True);
     ensure (is_nullified (read_view E) view 1 nullifier = Inr True);
     ensure (is_nullified (read_view E) view 0 nullifier = Inr False)
   }"

definition reinsert_is_idempotent_but_a_different_node_conflicts ::
  "('db, 'rt, 'tbl, 'wt) redb \<Rightarrow> 'db \<Rightarrow> unit option" where
  "reinsert_is_idempotent_but_a_different_node_conflicts E file = do {
     db \<leftarrow> temp E file;
     n \<leftarrow> shield_node 0 0;
     db \<leftarrow> written E (commitments_do (write_txn_store E) [AddNode n, AddNode n]) db;
     view \<leftarrow> unwrap (db_read E db);
     ensure (tree_length (read_view E) view 0 = Inr 1);
     let (result, db) = db_write E id (insert_node (write_txn_store E) (n\<lparr>nd_hash := 999\<rparr>)) db;
     ensure (result = Inl (Err (CommitmentConflict 0 0)));
     view \<leftarrow> unwrap (db_read E db);
     found \<leftarrow> unwrap (commitments_node (read_view E) view 0 0);
     stored \<leftarrow> found;
     ensure (nd_hash stored = nd_hash n)
   }"

definition leaf_hashes_scan_yields_positions_in_order :: "('db, 'rt, 'tbl, 'wt) redb \<Rightarrow> 'db \<Rightarrow> unit option" where
  "leaf_hashes_scan_yields_positions_in_order E file = do {
     db \<leftarrow> temp E file;
     n0 \<leftarrow> shield_node 0 0; n1 \<leftarrow> shield_node 0 1; n3 \<leftarrow> shield_node 0 3;
     db \<leftarrow> written E (commitments_do (write_txn_store E) (map AddNode [n0, n1, n3])) db;
     view \<leftarrow> unwrap (db_read E db);
     entries \<leftarrow> unwrap (leaf_hashes (read_view E) view 0);
     scanned \<leftarrow> unwrap (collect_results entries);
     ensure (scanned = [(0, 1), (1, 2), (3, 4)])
   }"

definition failed_write_closure_discards_everything ::
  "'n list json \<Rightarrow> ('db, 'rt, 'tbl, 'wt) redb \<Rightarrow> 'db \<Rightarrow> unit option" where
  "failed_write_closure_discards_everything K E file = do {
     db \<leftarrow> temp E file;
     n \<leftarrow> shield_node 0 0;
     let W = write_txn_store E;
     let (result, db) = db_write E id
       (st_bind (insert_node W n) (\<lambda>_.
        st_bind (set_snapshot W 0 (ascii ''snapshot'')) (\<lambda>_.
        st_bind (decoded_save W K []) (\<lambda>_.
        st_lift (Inl (Err (Engine ''domain failure'')) :: db_err + unit))))) db;
     ensure (isl result);
     view \<leftarrow> unwrap (db_read E db);
     ensure (tree_count (read_view E) view = Inr 0);
     ensure (commitments_node (read_view E) view 0 0 = Inr None);
     ensure (frontier_snapshot (read_view E) view 0 = Inr None)
   }"

definition overlay_reads_batch_over_base_and_apply_lands_it ::
  "('db, 'rt, 'tbl, 'wt) redb \<Rightarrow> 'db \<Rightarrow> unit option" where
  "overlay_reads_batch_over_base_and_apply_lands_it E file = do {
     db \<leftarrow> temp E file;
     n0 \<leftarrow> shield_node 0 0; n1 \<leftarrow> shield_node 0 1;
     let W = write_txn_store E;
     let R = read_view E;
     let V = overlay_store R;
     db \<leftarrow> written E (st_bind (insert_node W n0) (\<lambda>_. set_snapshot W 0 (ascii ''old''))) db;
     view \<leftarrow> unwrap (db_read E db);
     let (inserted, overlay) = insert_node V n1 (write_batch_new, view);
     unwrap inserted;
     let (cleared, overlay) = clear_snapshot V 0 overlay;
     unwrap cleared;
     ensure (tree_length V overlay 0 = Inr 2);
     found \<leftarrow> unwrap (commitments_node V overlay 0 0);
     ensure (found \<noteq> None);
     found \<leftarrow> unwrap (commitments_node V overlay 0 1);
     ensure (found \<noteq> None);
     entries \<leftarrow> unwrap (leaf_hashes V overlay 0);
     positions \<leftarrow> unwrap (collect_results (map (\<lambda>entry. res_bind entry (\<lambda>(pos, _). Inr pos)) entries));
     ensure (positions = [0, 1]);
     ensure (rd_get V overlay FRONTIER (to_be_bytes (0 :: u32)) = Inr None);
     before \<leftarrow> unwrap (db_read E db);
     ensure (tree_length R before 0 = Inr 1);
     let (applied, db) = db_apply E (fst overlay) db;
     unwrap applied;
     landed \<leftarrow> unwrap (db_read E db);
     ensure (tree_length R landed 0 = Inr 2);
     ensure (frontier_snapshot R landed 0 = Inr None);
     ensure (tree_length R view 0 = Inr 1)
   }"

definition dropped_batch_is_a_discard :: "('db, 'rt, 'tbl, 'wt) redb \<Rightarrow> 'db \<Rightarrow> unit option" where
  "dropped_batch_is_a_discard E file = do {
     db \<leftarrow> temp E file;
     n \<leftarrow> shield_node 0 0;
     view \<leftarrow> unwrap (db_read E db);
     unwrap (fst (insert_node (overlay_store (read_view E)) n (write_batch_new, view)));
     view \<leftarrow> unwrap (db_read E db);
     ensure (tree_count (read_view E) view = Inr 0)
   }"

definition clear_all_wipes_and_restamps :: "('db, 'rt, 'tbl, 'wt) redb \<Rightarrow> 'db \<Rightarrow> unit option" where
  "clear_all_wipes_and_restamps E file = do {
     db \<leftarrow> temp E file;
     n \<leftarrow> shield_node 0 0;
     db \<leftarrow> written E (commitments_do (write_txn_store E) [AddNode n, Mark 5]) db;
     let (cleared, db) = db_clear_all E db;
     unwrap cleared;
     view \<leftarrow> unwrap (db_read E db);
     ensure (is_synced (read_view E) view = Inr False);
     ensure (tree_count (read_view E) view = Inr 0);
     ensure (schema_version E view COMMITMENTS = Inr (Some 1));
     db \<leftarrow> written E (commitments_do (write_txn_store E) [AddNode n]) db;
     view \<leftarrow> unwrap (db_read E db);
     ensure (tree_count (read_view E) view = Inr 1)
   }"

definition persists_across_reopen_and_stamps_versions :: "('db, 'rt, 'tbl, 'wt) redb \<Rightarrow> 'db \<Rightarrow> unit option" where
  "persists_across_reopen_and_stamps_versions E file = do {
     db \<leftarrow> unwrap (db_open E file);
     n \<leftarrow> shield_node 0 0;
     db \<leftarrow> written E (commitments_do (write_txn_store E) [AddNode n]) db;
     db \<leftarrow> unwrap (db_open E db);
     view \<leftarrow> unwrap (db_read E db);
     found \<leftarrow> unwrap (commitments_node (read_view E) view 0 0);
     ensure (found \<noteq> None);
     ensure (schema_version E view COMMITMENTS = Inr (Some 1));
     ensure (schema_version E view META = Inr (Some 1))
   }"

definition mismatched_version_stamp_fails_open :: "('db, 'rt, 'tbl, 'wt) redb \<Rightarrow> 'db \<Rightarrow> unit option" where
  "mismatched_version_stamp_fails_open E file = do {
     db \<leftarrow> unwrap (db_open E file);
     db \<leftarrow> written E (wr_put (write_txn_store E) META (ascii ''vcommitments'') (to_be_bytes (99 :: u32))) db;
     error \<leftarrow> unwrap_err (db_open E db);
     ensure (error = Err (SchemaVersion ''commitments'' 99 1))
   }"

text \<open>The tests that take nothing but a file; \<open>K\<close> is \<^verbatim>\<open>serde_json\<close> on lists of notes.\<close>

definition database_tests :: "'n list json \<Rightarrow> (('db, 'rt, 'tbl, 'wt) redb \<Rightarrow> 'db \<Rightarrow> unit option) list" where
  "database_tests K =
     [nodes_and_nullifiers_round_trip, reinsert_is_idempotent_but_a_different_node_conflicts,
      leaf_hashes_scan_yields_positions_in_order, failed_write_closure_discards_everything K,
      overlay_reads_batch_over_base_and_apply_lands_it, dropped_batch_is_a_discard, clear_all_wipes_and_restamps,
      persists_across_reopen_and_stamps_versions, mismatched_version_stamp_fails_open]"

section \<open>Engines that open\<close>

locale redb_opens = redb_live +
  assumes creates: "\<exists>db. redb_create E file = Inr db"

interpretation opens_mem: redb_opens mem_redb mem_tables mem_tables map_of mem_tables
  by unfold_locales (simp add: mem_redb_def)

definition holds :: "forest_spec \<Rightarrow> disk \<Rightarrow> bool" where
  "holds F d \<longleftrightarrow> materialized d \<and> represents F (on_disk d)"

lemma represents_other_table: "T \<noteq> COMMITMENTS \<Longrightarrow> represents F (set_entry m T k e) = represents F m"
  by (rule represents_cong) (simp add: set_entry_def)

lemma stamped_version: "(T, v) \<in> set SCHEMA_VERSIONS \<Longrightarrow> stamped m META (version_key T) = Some (to_be_bytes v)"
  by (auto simp: stamped_def SCHEMA_VERSIONS_def stamp_def set_entry_def)

lemma schema_ok_blank: "m META = Map.empty \<Longrightarrow> schema_ok m"
  by (simp add: schema_ok_def stamp_ok_def list_all_def)

lemma schema_ok_stamped: "schema_ok (stamped m)"
  using stamped_version by (auto simp: schema_ok_def stamp_ok_def list_all_iff)

lemma st_bind_refused: "(\<And>x s. isl (fst (f x s))) \<Longrightarrow> isl (fst (st_bind m f s))"
  by (simp add: st_bind_def split: prod.splits sum.splits)

context redb_live
begin

lemma written_law:
  assumes "materialized (db_disk db)"
    and "\<And>txn. txn_ready wt_disk txn \<Longrightarrow> txn_tables wt_disk txn = on_disk (db_disk db) \<Longrightarrow>
      \<exists>val txn'. f txn = (Inr val, txn') \<and> txn_ready wt_disk txn' \<and> P (txn_tables wt_disk txn')"
  obtains db' where "written E f db = Some db'" and "materialized (db_disk db')" and "P (on_disk (db_disk db'))"
proof -
  obtain wt where wt: "wt_disk wt = db_disk db"
    and live: "\<And>val txn. f (write_txn_new wt) = (Inr val, txn) \<Longrightarrow> \<exists>db'. db_write E id f db = (Inr val, db')"
    by (rule db_write_live [of db f id]) blast
  obtain val txn where "f (write_txn_new wt) = (Inr val, txn)"
    using assms(2) [of "write_txn_new wt"] wt assms(1) by auto
  with live obtain db' where run: "db_write E id f db = (Inr val, db')" by blast
  obtain wt' txn' where t: "wt_disk wt' = db_disk db" "f (write_txn_new wt') = (Inr val, txn')" "db_disk db' = wt_disk (wt_inner txn')"
    using db_write_outcome [OF run] by auto
  have "txn_ready wt_disk txn'" "P (txn_tables wt_disk txn')"
    using assms(2) [of "write_txn_new wt'"] t(1,2) assms(1) by auto
  with run show ?thesis using that [of db'] by (simp add: written_def t(3) txn_ready_def txn_tables_def)
qed

lemma write_fails:
  assumes "materialized (db_disk db)"
    and "\<And>txn. txn_ready wt_disk txn \<Longrightarrow> txn_tables wt_disk txn = on_disk (db_disk db) \<Longrightarrow> \<exists>txn'. f txn = (Inl e, txn')"
  shows "db_write E id f db = (Inl e, db)"
proof -
  obtain wt where wt: "wt_disk wt = db_disk db"
    and dead: "\<And>e txn. f (write_txn_new wt) = (Inl e, txn) \<Longrightarrow> db_write E id f db = (Inl e, db)"
    by (rule db_write_live [of db f id]) blast
  then show ?thesis using assms(2) [of "write_txn_new wt"] assms(1) by auto
qed

lemma write_refused:
  assumes "\<And>txn. isl (fst (f txn))"
  obtains e where "db_write E id f db = (Inl e, db)"
proof -
  obtain wt where dead: "\<And>e txn. f (write_txn_new wt) = (Inl e, txn) \<Longrightarrow> db_write E id f db = (Inl e, db)"
    by (rule db_write_live [of db f id]) blast
  then show ?thesis using that assms [of "write_txn_new wt"] by (cases "f (write_txn_new wt)") (auto simp: isl_def)
qed

lemma read_live:
  assumes "holds F (db_disk db)"
  obtains view where "db_read E db = Inr view" and "rt_disk view = db_disk db" and "answers (read_view E) view F"
proof -
  obtain view where view: "db_read E db = Inr view"
    using read_begins [of db] by (auto simp: db_read_def Engine.begin_read_def)
  have "rt_disk view = db_disk db" by (rule db_read_disk [OF view])
  with view that assms show ?thesis
    using reader_contract.answers_law [OF read_view_contract, of view F] by (simp add: holds_def view_tables_def)
qed

lemma written_ops:
  assumes "holds F (db_disk db)" and "list_all op_ok ops" and "spec_run ops F = (Inr (), F')"
  obtains db' where "written E (commitments_do (write_txn_store E) ops) db = Some db'" and "holds F' (db_disk db')"
    and "\<And>T. T \<noteq> COMMITMENTS \<Longrightarrow> on_disk (db_disk db') T = on_disk (db_disk db) T"
proof (rule written_law [of db "commitments_do (write_txn_store E) ops" "\<lambda>m. represents F' m \<and> untouched (on_disk (db_disk db)) m"])
  show "materialized (db_disk db)" using assms(1) by (simp add: holds_def)
  show "\<exists>val txn'. commitments_do (write_txn_store E) ops txn = (Inr val, txn') \<and> txn_ready wt_disk txn'
      \<and> represents F' (txn_tables wt_disk txn') \<and> untouched (on_disk (db_disk db)) (txn_tables wt_disk txn')"
    if "txn_ready wt_disk txn" "txn_tables wt_disk txn = on_disk (db_disk db)" for txn
    using txn.run_ops_simulate [OF that(1) _ assms(2), of F] assms(1,3) by (auto simp: that(2) holds_def)
qed (use that in \<open>auto simp: holds_def untouched_def\<close>)

end

context redb_opens
begin

lemma open_live:
  assumes "schema_ok (on_disk (db_disk file))"
  obtains db where "db_open E file = Inr db" and "materialized (db_disk db)"
    and "on_disk (db_disk db) = stamped (on_disk (db_disk file))"
proof -
  obtain db0 where db0: "redb_create E file = Inr db0" using creates by blast
  let ?f = "st_bind (st_for (\<lambda>table. on_inner (write_txn_materialize E table)) ALL_TABLES)
             (\<lambda>_. check_and_stamp (write_txn_store E))"
  obtain wt where wt: "wt_disk wt = db_disk db0"
    and live: "\<And>val txn. ?f (write_txn_new wt) = (Inr val, txn) \<Longrightarrow> \<exists>db'. db_write E id ?f db0 = (Inr val, db')"
    by (rule db_write_live [of db0 ?f id]) blast
  have "schema_ok (txn_tables wt_disk (write_txn_new wt))"
    using assms by (simp add: wt create [OF db0])
  with initialize_txn [of "write_txn_new wt"] live obtain db where db: "db_initialize E db0 = (Inr (), db)"
    unfolding db_initialize_def by auto
  have "db_open E file = Inr db" by (simp add: db_open_def engine_open_def db0 db)
  then show ?thesis using that db_initialize_disk [OF db] by (simp add: create [OF db0])
qed

lemma open_blank:
  assumes "on_disk (db_disk file) = (\<lambda>_. Map.empty)"
  obtains db where "db_open E file = Inr db" and "temp E file = Some db" and "holds spec_empty (db_disk db)"
    and "on_disk (db_disk db) = stamped (\<lambda>_. Map.empty)"
proof -
  have "schema_ok (on_disk (db_disk file))" by (simp add: assms schema_ok_blank)
  from open_live [OF this] obtain db where
    db: "db_open E file = Inr db" "materialized (db_disk db)" "on_disk (db_disk db) = stamped (on_disk (db_disk file))" .
  then show ?thesis
    using that by (simp add: temp_def unwrap_def holds_def assms represents_empty stamped_tables)
qed

end

section \<open>Every test passes\<close>

lemma harness_simps [simp]:
  "unwrap (Inr x) = Some x" "unwrap (Inl e) = None" "unwrap_err (Inl e) = Some e" "ensure True = Some ()"
  by (simp_all add: unwrap_def unwrap_err_def ensure_def)

definition shielded :: "u32 \<Rightarrow> u32 \<Rightarrow> node" where
  "shielded tree leaf = \<lparr>nd_position = \<lparr>tree_number = tree, leaf_index = leaf\<rparr>, nd_hash = ucast (ucast leaf :: u64) + 1,
     nd_block = 1, nd_body = Shield \<lparr>sh_npk = 7, sh_token = Erc20 (replicate 20 0x11), sh_value = 1000,
       sh_encrypted_bundle = [replicate 32 0], sh_shield_key = replicate 32 4\<rparr>\<rparr>"

lemma shielded_simps [simp]:
  "nd_position (shielded t p) = \<lparr>tree_number = t, leaf_index = p\<rparr>" "nd_hash (shielded t p) = ucast (ucast p :: u64) + 1"
  "node_at t p (shielded t' p') \<longleftrightarrow> t' = t \<and> p' = p"
  by (simp_all add: shielded_def node_at_def)

lemma shield_node_shielded: "p < TREE_LEAF_CAPACITY \<Longrightarrow> shield_node t p = Some (shielded t p)"
  by (simp add: shield_node_def shielded_def try_new_def)

lemma shielded_ok:
  assumes "p < TREE_LEAF_CAPACITY" and "unat t + 1 < 2 ^ 32"
  shows "acceptable (shielded t p)" "acceptable (shielded t p\<lparr>nd_hash := h\<rparr>)"
  using assms
  by (simp_all add: acceptable_def storable_def shielded_def wf_node_def wf_position_def
      wf_shield_def node_bytes_def put_position_def put_u32_def bundle_bytes_def)

lemmas shielded_nodes = shield_node_shielded shielded_ok TREE_LEAF_CAPACITY_def Let_def

context redb_opens
begin

lemma round_trip_passes:
  assumes "on_disk (db_disk file) = (\<lambda>_. Map.empty)"
  shows "nodes_and_nullifiers_round_trip E file = Some ()"
proof -
  obtain db where db: "temp E file = Some db" "holds spec_empty (db_disk db)" by (rule open_blank [OF assms])
  let ?ops = "[AddNode (shielded 0 0), AddNode (shielded 0 1), AddNode (shielded 1 0), Mark 100,
        AddNullifier \<lparr>nf_tree_number = 1, nf_nullifier = to_be_bytes (9 :: u256)\<rparr>]"
  obtain db1 where db1: "written E (commitments_do (write_txn_store E) ?ops) db = Some db1"
    "holds (snd (spec_run ?ops spec_empty)) (db_disk db1)"
    by (rule written_ops [OF db(2), of ?ops]) (simp_all add: spec_empty_def shielded_nodes)
  obtain view where view: "db_read E db1 = Inr view" "answers (read_view E) view (snd (spec_run ?ops spec_empty))"
    by (rule read_live [OF db1(2)])
  then show ?thesis
    using db1(1) by (simp add: nodes_and_nullifiers_round_trip_def db(1) view(1) shielded_nodes answers_def spec_empty_def
        spec_nullified_def)
qed

lemma reinsert_passes:
  assumes "on_disk (db_disk file) = (\<lambda>_. Map.empty)"
  shows "reinsert_is_idempotent_but_a_different_node_conflicts E file = Some ()"
proof -
  obtain db where db: "temp E file = Some db" "holds spec_empty (db_disk db)" by (rule open_blank [OF assms])
  let ?ops = "[AddNode (shielded 0 0), AddNode (shielded 0 0)]" and ?n = "shielded 0 0\<lparr>nd_hash := 999\<rparr>"
  obtain db1 where db1: "written E (commitments_do (write_txn_store E) ?ops) db = Some db1"
    "holds (snd (spec_run ?ops spec_empty)) (db_disk db1)"
    by (rule written_ops [OF db(2), of ?ops]) (simp_all add: spec_empty_def shielded_nodes)
  obtain view where view: "db_read E db1 = Inr view" "answers (read_view E) view (snd (spec_run ?ops spec_empty))"
    by (rule read_live [OF db1(2)])
  have ne: "shielded 0 0 \<noteq> ?n" by (simp add: shielded_def)
  have conflict: "db_write E id (insert_node (write_txn_store E) ?n) db1 = (Inl (Err (CommitmentConflict 0 0)), db1)"
  proof (rule write_fails)
    show "materialized (db_disk db1)" using db1(2) by (simp add: holds_def)
    show "\<exists>txn'. insert_node (write_txn_store E) ?n txn = (Inl (Err (CommitmentConflict 0 0)), txn')"
      if "txn_ready wt_disk txn" "txn_tables wt_disk txn = on_disk (db_disk db1)" for txn
      using txn.run_op_simulates [OF that(1), of "snd (spec_run ?ops spec_empty)" "AddNode ?n"] db1(2) ne
      by (simp add: that(2) holds_def spec_empty_def shielded_nodes shielded_ok node_at_def)
  qed
  show ?thesis
    using db1(1) view(2) by (simp add: reinsert_is_idempotent_but_a_different_node_conflicts_def db(1) view(1) conflict
        shielded_nodes answers_def spec_empty_def)
qed

lemma leaf_hashes_scan_passes:
  assumes "on_disk (db_disk file) = (\<lambda>_. Map.empty)"
  shows "leaf_hashes_scan_yields_positions_in_order E file = Some ()"
proof -
  obtain db where db: "temp E file = Some db" "holds spec_empty (db_disk db)" by (rule open_blank [OF assms])
  let ?ops = "map AddNode [shielded 0 0, shielded 0 1, shielded 0 3]"
  obtain db1 where db1: "written E (commitments_do (write_txn_store E) ?ops) db = Some db1"
    "holds (snd (spec_run ?ops spec_empty)) (db_disk db1)"
    by (rule written_ops [OF db(2), of ?ops]) (simp_all add: spec_empty_def shielded_nodes)
  obtain view where view: "db_read E db1 = Inr view" "answers (read_view E) view (snd (spec_run ?ops spec_empty))"
    by (rule read_live [OF db1(2)])
  then show ?thesis
    using db1(1) by (simp add: leaf_hashes_scan_yields_positions_in_order_def db(1) view(1) shielded_nodes answers_def
        spec_empty_def spec_leaves_def spec_entries_def)
qed

lemma failed_write_passes:
  assumes "on_disk (db_disk file) = (\<lambda>_. Map.empty)"
  shows "failed_write_closure_discards_everything K E file = Some ()"
proof -
  obtain db where db: "temp E file = Some db" "holds spec_empty (db_disk db)" "on_disk (db_disk db) = stamped (\<lambda>_. Map.empty)"
    by (rule open_blank [OF assms])
  obtain view where view: "db_read E db = Inr view" "rt_disk view = db_disk db" "answers (read_view E) view spec_empty"
    by (rule read_live [OF db(2)])
  let ?W = "write_txn_store E"
  let ?f = "st_bind (insert_node ?W (shielded 0 0)) (\<lambda>_.
        st_bind (set_snapshot ?W 0 (ascii ''snapshot'')) (\<lambda>_.
        st_bind (decoded_save ?W K []) (\<lambda>_.
        st_lift (Inl (Err (Engine ''domain failure'')) :: db_err + unit))))"
  obtain e where "db_write E id ?f db = (Inl e, db)"
    by (rule write_refused [where f = ?f and db = db]) (simp add: st_bind_refused)
  moreover have "frontier_snapshot (read_view E) view 0 = Inr None"
    using db(2,3) view.get_law [of view FRONTIER "to_be_bytes (0 :: u32)"]
    by (simp add: frontier_snapshot_def holds_def view(2) view_tables_def stamped_tables)
  ultimately show ?thesis
    using view(3) by (simp add: failed_write_closure_discards_everything_def db(1) view(1) shielded_nodes answers_def spec_empty_def)
qed

lemma dropped_batch_passes:
  assumes "on_disk (db_disk file) = (\<lambda>_. Map.empty)"
  shows "dropped_batch_is_a_discard E file = Some ()"
proof -
  obtain db where db: "temp E file = Some db" "holds spec_empty (db_disk db)" by (rule open_blank [OF assms])
  obtain view where view: "db_read E db = Inr view" "rt_disk view = db_disk db" "answers (read_view E) view spec_empty"
    by (rule read_live [OF db(2)])
  have "pinned view (write_batch_new, view)" "represents spec_empty (overlay_contents (view_tables rt_disk) (write_batch_new, view))"
    using db(2) by (simp_all add: pinned_new overlay_contents_new view(2) holds_def)
  from store_contract.run_op_simulates [OF pinned_contract this, of "AddNode (shielded 0 0)"]
  have "fst (insert_node (overlay_store (read_view E)) (shielded 0 0) (write_batch_new, view)) = Inr ()"
    by (auto simp: spec_empty_def shielded_nodes)
  then show ?thesis
    using view(3) by (simp add: dropped_batch_is_a_discard_def db(1) view(1) shielded_nodes answers_def spec_empty_def)
qed

lemma clear_all_live:
  obtains db' where "db_clear_all E db = (Inr (), db')" and "holds spec_empty (db_disk db')"
    and "on_disk (db_disk db') = stamped (\<lambda>_. Map.empty)"
proof -
  let ?f = "st_bind (st_for (txn_clear_table E) ALL_TABLES) (\<lambda>_. check_and_stamp (write_txn_store E))"
  obtain wt where live: "\<And>val txn. ?f (write_txn_new wt) = (Inr val, txn) \<Longrightarrow> \<exists>db'. db_write E id ?f db = (Inr val, db')"
    by (rule db_write_live [of db ?f id]) blast
  with clear_all_txn [of "write_txn_new wt"] obtain db' where db': "db_clear_all E db = (Inr (), db')"
    unfolding db_clear_all_def by blast
  then show ?thesis
    using that db_clear_all_disk [OF db'] by (simp add: holds_def represents_empty stamped_tables)
qed

lemma schema_version_stamped:
  assumes "materialized (rt_disk view)" and "on_disk (rt_disk view) META = stamped m META" and "(T, v) \<in> set SCHEMA_VERSIONS"
  shows "schema_version E view T = Inr (Some v)"
  using view.get_law [OF assms(1), of META "version_key T"] stamped_version [OF assms(3), of m] assms(2)
  unfolding schema_version_def by (subst read_version_stamp) (auto simp: view_tables_def)

lemma clear_all_passes:
  assumes "on_disk (db_disk file) = (\<lambda>_. Map.empty)"
  shows "clear_all_wipes_and_restamps E file = Some ()"
proof -
  obtain db where db: "temp E file = Some db" "holds spec_empty (db_disk db)" by (rule open_blank [OF assms])
  let ?ops = "[AddNode (shielded 0 0), Mark 5]" and ?again = "[AddNode (shielded 0 0)]"
  obtain db1 where db1: "written E (commitments_do (write_txn_store E) ?ops) db = Some db1"
    by (rule written_ops [OF db(2), of ?ops]) (simp_all add: spec_empty_def shielded_nodes)
  obtain db2 where db2: "db_clear_all E db1 = (Inr (), db2)" "holds spec_empty (db_disk db2)"
    "on_disk (db_disk db2) = stamped (\<lambda>_. Map.empty)" by (rule clear_all_live)
  obtain view where view: "db_read E db2 = Inr view" "rt_disk view = db_disk db2" "answers (read_view E) view spec_empty"
    by (rule read_live [OF db2(2)])
  have "schema_version E view COMMITMENTS = Inr (Some 1)"
    using db2(2,3) by (intro schema_version_stamped) (simp_all add: view(2) holds_def SCHEMA_VERSIONS_def)
  moreover obtain db3 where db3: "written E (commitments_do (write_txn_store E) ?again) db2 = Some db3"
    "holds (snd (spec_run ?again spec_empty)) (db_disk db3)"
    by (rule written_ops [OF db2(2), of ?again]) (simp_all add: spec_empty_def shielded_nodes)
  moreover obtain view' where view': "db_read E db3 = Inr view'" "answers (read_view E) view' (snd (spec_run ?again spec_empty))"
    by (rule read_live [OF db3(2)])
  ultimately show ?thesis
    using db1 view(3)
    by (simp add: clear_all_wipes_and_restamps_def db(1) db2(1) view(1) view'(1) shielded_nodes answers_def spec_empty_def)
qed

lemma reopen_passes:
  assumes "on_disk (db_disk file) = (\<lambda>_. Map.empty)"
  shows "persists_across_reopen_and_stamps_versions E file = Some ()"
proof -
  obtain db where db: "db_open E file = Inr db" "holds spec_empty (db_disk db)" "on_disk (db_disk db) = stamped (\<lambda>_. Map.empty)"
    by (rule open_blank [OF assms])
  let ?ops = "[AddNode (shielded 0 0)]"
  obtain db1 where db1: "written E (commitments_do (write_txn_store E) ?ops) db = Some db1"
    "holds (snd (spec_run ?ops spec_empty)) (db_disk db1)" "on_disk (db_disk db1) META = on_disk (db_disk db) META"
    by (rule written_ops [OF db(2), of ?ops]) (simp_all add: spec_empty_def shielded_nodes)
  have "schema_ok (on_disk (db_disk db1))"
    using schema_ok_stamped schema_ok_cong [of "on_disk (db_disk db1)" "stamped (\<lambda>_. Map.empty)"] by (simp add: db1(3) db(3))
  from open_live [OF this] obtain db2 where db2: "db_open E db1 = Inr db2" "materialized (db_disk db2)"
    "on_disk (db_disk db2) = stamped (on_disk (db_disk db1))" .
  have "holds (snd (spec_run ?ops spec_empty)) (db_disk db2)"
    using db1(2) db2(2,3) represents_cong [of "on_disk (db_disk db1)" "on_disk (db_disk db2)"] by (simp add: holds_def stamped_tables)
  from read_live [OF this] obtain view where view: "db_read E db2 = Inr view" "rt_disk view = db_disk db2"
    "answers (read_view E) view (snd (spec_run ?ops spec_empty))" .
  have "schema_version E view COMMITMENTS = Inr (Some 1)" "schema_version E view META = Inr (Some 1)"
    by (intro schema_version_stamped [of view "on_disk (db_disk db1)"]; simp add: view(2) db2 SCHEMA_VERSIONS_def)+
  then show ?thesis
    using db1(1) view(3)
    by (simp add: persists_across_reopen_and_stamps_versions_def db(1) db2(1) view(1) shielded_nodes answers_def spec_empty_def)
qed

lemma open_mismatch:
  assumes "on_disk (db_disk file) META (version_key COMMITMENTS) = Some (to_be_bytes v)" and "v \<noteq> 1"
  shows "db_open E file = Inl (Err (SchemaVersion ''commitments'' v 1))"
proof -
  obtain db0 where db0: "redb_create E file = Inr db0" using creates by blast
  let ?f = "st_bind (st_for (\<lambda>table. on_inner (write_txn_materialize E table)) ALL_TABLES)
             (\<lambda>_. check_and_stamp (write_txn_store E))"
  obtain wt where wt: "wt_disk wt = db_disk db0"
    and dead: "\<And>e txn. ?f (write_txn_new wt) = (Inl e, txn) \<Longrightarrow> db_write E id ?f db0 = (Inl e, db0)"
    by (rule db_write_live [of db0 ?f id]) blast
  obtain txn1 where txn1: "st_for (\<lambda>table. on_inner (write_txn_materialize E table)) ALL_TABLES (write_txn_new wt) = (Inr (), txn1)"
    "on_disk (wt_disk (wt_inner txn1)) = on_disk (db_disk file)" "\<forall>t. wt_disk (wt_inner txn1) (table_name t) \<noteq> None"
    using materialize_list [of ALL_TABLES "write_txn_new wt"] by (auto simp: wt create [OF db0] write_txn_new_def)
  have "txn_ready wt_disk txn1" using txn1(3) by (simp add: txn_ready_def materialized_def)
  from txn.get_law [OF this, of META "version_key COMMITMENTS"]
  have "read_version (write_txn_store E) txn1 COMMITMENTS = Inr (Some v)"
    by (subst read_version_stamp) (auto simp: txn_tables_def txn1(2) assms(1))
  then have "check_and_stamp (write_txn_store E) txn1 = (Inl (Err (SchemaVersion ''commitments'' v 1)), txn1)"
    using assms(2) by (simp add: check_and_stamp_def SCHEMA_VERSIONS_def check_and_stamp_one_def st_bind_def)
  then show ?thesis
    using txn1(1) dead by (simp add: db_open_def engine_open_def db0 db_initialize_def st_bind_def)
qed

lemma mismatched_version_passes:
  assumes "on_disk (db_disk file) = (\<lambda>_. Map.empty)"
  shows "mismatched_version_stamp_fails_open E file = Some ()"
proof -
  obtain db where db: "db_open E file = Inr db" "holds spec_empty (db_disk db)" by (rule open_blank [OF assms])
  let ?f = "wr_put (write_txn_store E) META (ascii ''vcommitments'') (to_be_bytes (99 :: u32))"
  have key: "ascii ''vcommitments'' = version_key COMMITMENTS" by (simp add: version_key_def ascii_def)
  obtain db1 where db1: "written E ?f db = Some db1"
    "on_disk (db_disk db1) META (version_key COMMITMENTS) = Some (to_be_bytes (99 :: u32))"
  proof (rule written_law [of db ?f "\<lambda>m. m META (version_key COMMITMENTS) = Some (to_be_bytes (99 :: u32))"])
    show "materialized (db_disk db)" using db(2) by (simp add: holds_def)
    show "\<exists>val txn'. ?f txn = (Inr val, txn') \<and> txn_ready wt_disk txn'
        \<and> txn_tables wt_disk txn' META (version_key COMMITMENTS) = Some (to_be_bytes (99 :: u32))"
      if "txn_ready wt_disk txn" for txn
      using txn.put_law [OF that, of META "version_key COMMITMENTS" "to_be_bytes (99 :: u32)"] unfolding key
      by (force simp: set_entry_def)
  qed
  from open_mismatch [OF db1(2)] db1(1) show ?thesis
    by (simp add: mismatched_version_stamp_fails_open_def db(1))
qed

lemma overlay_passes:
  assumes "on_disk (db_disk file) = (\<lambda>_. Map.empty)"
  shows "overlay_reads_batch_over_base_and_apply_lands_it E file = Some ()"
proof -
  let ?W = "write_txn_store E" and ?V = "overlay_store (read_view E)"
  let ?F1 = "spec_empty\<lparr>fs_nodes := [shielded 0 0]\<rparr>" and ?F2 = "spec_empty\<lparr>fs_nodes := [shielded 0 0, shielded 0 1]\<rparr>"
  obtain db where db: "temp E file = Some db" "holds spec_empty (db_disk db)" by (rule open_blank [OF assms])
  let ?f = "st_bind (insert_node ?W (shielded 0 0)) (\<lambda>_. set_snapshot ?W 0 (ascii ''old''))"
  obtain db1 where db1: "written E ?f db = Some db1" "holds ?F1 (db_disk db1)"
  proof (rule written_law [of db ?f "represents ?F1"])
    show "materialized (db_disk db)" using db(2) by (simp add: holds_def)
    show "\<exists>val txn'. ?f txn = (Inr val, txn') \<and> txn_ready wt_disk txn' \<and> represents ?F1 (txn_tables wt_disk txn')"
      if txn: "txn_ready wt_disk txn" "txn_tables wt_disk txn = on_disk (db_disk db)" for txn
    proof -
      obtain txn1 where txn1: "insert_node ?W (shielded 0 0) txn = (Inr (), txn1)" "txn_ready wt_disk txn1"
        "represents ?F1 (txn_tables wt_disk txn1)"
        using txn.run_op_simulates [OF txn(1), of spec_empty "AddNode (shielded 0 0)"] db(2)
        by (auto simp: txn(2) holds_def spec_empty_def shielded_nodes)
      obtain txn2 where txn2: "set_snapshot ?W 0 (ascii ''old'') txn1 = (Inr (), txn2)" "txn_ready wt_disk txn2"
        "txn_tables wt_disk txn2 = set_entry (txn_tables wt_disk txn1) FRONTIER (to_be_bytes (0 :: u32)) (Some (ascii ''old''))"
        using txn.put_law [OF txn1(2), of FRONTIER "to_be_bytes (0 :: u32)" "ascii ''old''"] unfolding set_snapshot_def by blast
      then show ?thesis using txn1(1,3) by (simp add: st_bind_def represents_other_table)
    qed
  qed (use that in \<open>auto simp: holds_def\<close>)
  obtain view where view: "db_read E db1 = Inr view" "rt_disk view = db_disk db1" "answers (read_view E) view ?F1"
    by (rule read_live [OF db1(2)])
  note V = pinned_contract [of view]
  have "pinned view (write_batch_new, view)" "represents ?F1 (overlay_contents (view_tables rt_disk) (write_batch_new, view))"
    using db1(2) by (simp_all add: pinned_new overlay_contents_new view(2) holds_def)
  from store_contract.run_op_simulates [OF V this, of "AddNode (shielded 0 1)"]
  obtain s1 where s1: "insert_node ?V (shielded 0 1) (write_batch_new, view) = (Inr (), s1)" "pinned view s1"
    "represents ?F2 (overlay_contents (view_tables rt_disk) s1)"
    by (auto simp: spec_empty_def shielded_nodes)
  obtain s2 where s2: "clear_snapshot ?V 0 s1 = (Inr (), s2)" "pinned view s2"
    "overlay_contents (view_tables rt_disk) s2 = set_entry (overlay_contents (view_tables rt_disk) s1) FRONTIER (to_be_bytes (0 :: u32)) None"
    using store_contract.delete_law [OF V s1(2), of FRONTIER "to_be_bytes (0 :: u32)"] unfolding clear_snapshot_def by blast
  have F2: "represents ?F2 (overlay_contents (view_tables rt_disk) s2)"
    using s1(3) by (simp add: s2(3) represents_other_table)
  have merged: "answers ?V s2 ?F2"
    by (rule reader_contract.answers_law [OF store_contract.axioms(1) [OF V] s2(2) F2])
  have gone: "rd_get ?V s2 FRONTIER (to_be_bytes (0 :: u32)) = Inr None"
    using reader_contract.get_law [OF store_contract.axioms(1) [OF V] s2(2), of FRONTIER "to_be_bytes (0 :: u32)"]
    by (simp add: s2(3) set_entry_def)
  have "batch_ok (fst s2)" "materialized (db_disk db1)" using s2(2) db1(2) by (auto simp: overlay_inv_def holds_def split: prod.splits)
  then obtain db2 where db2: "db_apply E (fst s2) db1 = (Inr (), db2)" using db_apply_live by blast
  have disk: "materialized (db_disk db2)" "on_disk (db_disk db2) = overlay_contents (view_tables rt_disk) s2"
    using applied_contents [OF view(1) s2(2) db2] by simp_all
  then have "holds ?F2 (db_disk db2)" using F2 by (simp add: holds_def)
  from read_live [OF this] obtain landed where landed: "db_read E db2 = Inr landed" "rt_disk landed = db_disk db2"
    "answers (read_view E) landed ?F2" .
  have "frontier_snapshot (read_view E) landed 0 = Inr None"
    using view.get_law [of landed FRONTIER "to_be_bytes (0 :: u32)"] disk
    by (simp add: frontier_snapshot_def landed(2) view_tables_def s2(3) set_entry_def)
  then show ?thesis
    using db1(1) view(3) landed(3) merged gone
    by (simp add: overlay_reads_batch_over_base_and_apply_lands_it_def db(1) view(1) s1(1) s2(1) db2 landed(1) shielded_nodes
        answers_def spec_empty_def spec_leaves_def spec_entries_def)
qed

end

text \<open>On any engine that keeps redb's contract, and whose files open and transactions begin and commit, each of the nine
  tests, run on a file that holds nothing, ends without a panic.\<close>

lemma database_tests_pass:
  assumes "redb_opens E db_disk rt_disk tbl_map wt_disk" and "on_disk (db_disk file) = (\<lambda>_. Map.empty)"
  shows "list_all (\<lambda>test. test E file = Some ()) (database_tests K)"
  using redb_opens.round_trip_passes [OF assms] redb_opens.reinsert_passes [OF assms]
    redb_opens.leaf_hashes_scan_passes [OF assms] redb_opens.failed_write_passes [OF assms]
    redb_opens.overlay_passes [OF assms] redb_opens.dropped_batch_passes [OF assms]
    redb_opens.clear_all_passes [OF assms] redb_opens.reopen_passes [OF assms]
    redb_opens.mismatched_version_passes [OF assms]
  by (simp add: database_tests_def)

end
