(* ===== verification/Sync_Tests.thy ===== *)
theory Sync_Tests
  imports Database_Tests
begin

text \<open>
  The offline tests of the pump, transcribed over any engine: the two unit tests of \<^verbatim>\<open>sync/src/manager.rs\<close> and the
  integration test of \<^verbatim>\<open>sync/tests/frontier.rs\<close> that follows a tree through windows, a gap and its backfill. Fuel
  bounds the windows of a run; a test whose run does not return fails.
\<close>

section \<open>The sources\<close>

text \<open>\<^verbatim>\<open>CountingSource\<close>: empty pages, and the number of calls of each kind.\<close>

record counts =
  latest_calls :: nat
  page_calls :: nat

definition counting_source :: "block_number \<Rightarrow> counts event_source" where
  "counting_source head =
     \<lparr>es_latest_block = (\<lambda>s. (Inr head, s\<lparr>latest_calls := latest_calls s + 1\<rparr>)),
      es_fetch_page = (\<lambda>_ _ _ _ s. (Inr \<lparr>pg_events = [], pg_cursor = None\<rparr>, s\<lparr>page_calls := page_calls s + 1\<rparr>))\<rparr>"

text \<open>\<^verbatim>\<open>CannedSource\<close>: a fixed list of nodes, filtered by block.\<close>

definition canned_source :: "block_number \<Rightarrow> node list \<Rightarrow> unit event_source" where
  "canned_source head ns =
     \<lparr>es_latest_block = (\<lambda>s. (Inr head, s)),
      es_fetch_page = (\<lambda>stream from' to' _ s.
        let events = (case stream of
              Commitments \<Rightarrow> map Commitment (filter (\<lambda>n. from' \<le> nd_block n \<and> nd_block n \<le> to') ns)
            | Nullifiers \<Rightarrow> [])
        in (Inr \<lparr>pg_events = events, pg_cursor = None\<rparr>, s))\<rparr>"

definition shield_node_at :: "u32 \<Rightarrow> u32 \<Rightarrow> block_number \<Rightarrow> node option" where
  "shield_node_at tree leaf block = map_option (\<lambda>n. n\<lparr>nd_block := block\<rparr>) (shield_node tree leaf)"

section \<open>The tests\<close>

definition run_to_head_if_unsynced_skips_a_populated_store ::
  "('db, 'rt, 'tbl, 'wt) redb \<Rightarrow> merkle_config \<Rightarrow> merkle_accumulator_state json \<Rightarrow> 'db \<Rightarrow> unit option" where
  "run_to_head_if_unsynced_skips_a_populated_store E C J file = do {
     let syncer = syncer_new (counting_source 1000) 0;
     db \<leftarrow> temp E file;
     db \<leftarrow> written E (commitments_do (write_txn_store E) [Mark 42]) db;
     (result, source, db) \<leftarrow> run_to_head_if_unsynced 1001 1 E C J syncer (\<lparr>latest_calls = 0, page_calls = 0\<rparr>, db);
     summary \<leftarrow> unwrap result;
     ensure (summary = \<lparr>ss_commitments = 0, ss_nullifiers = 0, ss_synced_to = 42\<rparr>);
     ensure (latest_calls source = 0);
     ensure (page_calls source = 0)
   }"

definition run_to_head_if_unsynced_syncs_an_empty_store ::
  "('db, 'rt, 'tbl, 'wt) redb \<Rightarrow> merkle_config \<Rightarrow> merkle_accumulator_state json \<Rightarrow> 'db \<Rightarrow> unit option" where
  "run_to_head_if_unsynced_syncs_an_empty_store E C J file = do {
     let syncer = syncer_new (counting_source 1000) 0;
     db \<leftarrow> temp E file;
     (result, source, db) \<leftarrow> run_to_head_if_unsynced 1001 1 E C J syncer (\<lparr>latest_calls = 0, page_calls = 0\<rparr>, db);
     summary \<leftarrow> unwrap result;
     ensure (ss_synced_to summary = 1000);
     ensure (latest_calls source = 1);
     view \<leftarrow> unwrap (db_read E db);
     ensure (is_synced (read_view E) view = Inr True)
   }"

text \<open>The frontier's root agrees with a forced recompute.\<close>

definition assert_frontier_matches_recompute ::
  "('db, 'rt, 'tbl, 'wt) redb \<Rightarrow> merkle_config \<Rightarrow> merkle_accumulator_state json \<Rightarrow> 'db \<Rightarrow> u32 \<Rightarrow> unit option" where
  "assert_frontier_matches_recompute E C J db tree = do {
     view \<leftarrow> unwrap (db_read E db);
     snapshot \<leftarrow> unwrap (frontier_snapshot (read_view E) view tree);
     ensure (snapshot \<noteq> None);
     fast \<leftarrow> unwrap (merkle_root (read_view E) C J view tree);
     report \<leftarrow> unwrap (validate (read_view E) C (expected_root fast) view tree);
     ensure (ti_valid report)
   }"

definition canned_nodes :: "node list option" where
  "canned_nodes = those [shield_node_at 0 0 10, shield_node_at 0 1 20, shield_node_at 0 3 110, shield_node_at 0 4 120,
     shield_node_at 0 2 210, shield_node_at 0 5 220, shield_node_at 1 0 230]"

definition frontier_tracks_recompute_across_windows_gaps_and_backfill ::
  "('db, 'rt, 'tbl, 'wt) redb \<Rightarrow> merkle_config \<Rightarrow> merkle_accumulator_state json \<Rightarrow> 'db \<Rightarrow> unit option" where
  "frontier_tracks_recompute_across_windows_gaps_and_backfill E C J file = do {
     ns \<leftarrow> canned_nodes;
     syncer \<leftarrow> set_block_window 100 (syncer_new (canned_source 299 ns) 0);
     db \<leftarrow> temp E file;
     (result, src, db) \<leftarrow> sync_run 300 1 E C J syncer 99 ((), db);
     unwrap result;
     assert_frontier_matches_recompute E C J db 0;
     (result, src, db) \<leftarrow> sync_run 300 1 E C J syncer 199 (src, db);
     unwrap result;
     view \<leftarrow> unwrap (db_read E db);
     ensure (tree_length (read_view E) view 0 = Inr 5);
     root \<leftarrow> unwrap (merkle_root (read_view E) C J view 0);
     report \<leftarrow> unwrap (validate (read_view E) C (expected_root root) view 0);
     ensure (ti_missing report = 1);
     assert_frontier_matches_recompute E C J db 0;
     view \<leftarrow> unwrap (db_read E db);
     gap_root \<leftarrow> unwrap (merkle_root (read_view E) C J view 0);
     (result, src, db) \<leftarrow> run_to_head 300 1 E C J syncer (src, db);
     unwrap result;
     view \<leftarrow> unwrap (db_read E db);
     ensure (tree_length (read_view E) view 0 = Inr 6);
     root \<leftarrow> unwrap (merkle_root (read_view E) C J view 0);
     report \<leftarrow> unwrap (validate (read_view E) C (expected_root root) view 0);
     ensure (ti_missing report = 0);
     ensure (root \<noteq> gap_root);
     assert_frontier_matches_recompute E C J db 0;
     assert_frontier_matches_recompute E C J db 1;
     (result, src, db) \<leftarrow> run_to_head 300 1 E C J syncer (src, db);
     again \<leftarrow> unwrap result;
     ensure (ss_commitments again = 0);
     assert_frontier_matches_recompute E C J db 0
   }"

section \<open>What a synced database reads\<close>

definition chain_missing :: "node list \<Rightarrow> u32 \<Rightarrow> nat" where
  "chain_missing ns t = length (filter (\<lambda>q. find (node_at t (of_nat q)) ns = None) [0..<chain_span t ns])"

lemma mirrored_missing:
  assumes "\<And>p n. leaf_at m t p = Some n \<longleftrightarrow> n \<in> set ns \<and> node_at t p n" and "forest_ok m"
  shows "missing_of m t = chain_missing ns t"
proof -
  have "leaf_at m t p = None \<longleftrightarrow> find (node_at t p) ns = None" for p
    using assms(1) [of p] by (cases "leaf_at m t p") (auto simp: find_None_iff)
  then have "{q. q < tree_span m t \<and> leaf_at m t (of_nat q) = None}
      = set (filter (\<lambda>q. find (node_at t (of_nat q)) ns = None) [0..<chain_span t ns])"
    by (auto simp: tree_span_of_list [OF assms])
  then show ?thesis by (simp add: missing_of_def chain_missing_def distinct_card del: set_filter)
qed

lemma canned_source_latest: "es_latest_block (canned_source head ns) s = (Inr head, s)"
  by (simp add: canned_source_def)

lemma canned_source_delivers: "delivers 1 (canned_source head ns) until ns []"
  by (simp add: delivers_def fetch_window_def canned_source_def blocks_nodes_def blocks_nulls_def gather_commitments)

context redb_opens
begin

lemma frontier_matches:
  assumes "db_ok C J (db_disk db)" and "mc_depth C = 16" and "leaf_at (on_disk (db_disk db)) t p = Some n"
  shows "assert_frontier_matches_recompute E C J db t = Some ()"
proof -
  let ?m = "on_disk (db_disk db)"
  obtain view where view: "db_read E db = Inr view" using read_begins by (auto simp: db_read_def Engine.begin_read_def)
  have rt: "rt_disk view = db_disk db" by (rule db_read_disk [OF view])
  have ok: "materialized (rt_disk view)" "forest_ok ?m" "snapshot_current C J ?m t"
    using assms(1) by (simp_all add: rt db_ok_def snapshots_ok_def)
  have "has_leaf ?m t p" using assms(3) by (simp add: has_leaf_iff [OF ok(2)])
  then have "tree_span ?m t \<noteq> 0" using tree_span_le [of ?m t 0] by auto
  then obtain bs where "?m FRONTIER (to_be_bytes t) = Some bs" using ok(3) by (auto simp: snapshot_current_def split: option.splits)
  then have "frontier_snapshot (read_view E) view t = Inr (Some bs)"
    using view.frontier_snapshot_law [OF ok(1), of t] by (simp add: view_tables_def rt)
  moreover have "merkle_root (read_view E) C J view t = Inr (tree_root C (leaves_of C ?m t))"
    using view.merkle_root_law [of view C J t] ok assms(2) by (simp add: view_tables_def rt)
  moreover obtain report where "validate (read_view E) C (expected_root (tree_root C (leaves_of C ?m t))) view t = Inr report" "ti_valid report"
    using view.validate_law [of view C "expected_root (tree_root C (leaves_of C ?m t))" t] ok(1,2) assms(2)
    by (auto simp: view_tables_def rt expected_root_def)
  ultimately show ?thesis by (simp add: assert_frontier_matches_recompute_def view)
qed

lemma synced_reads:
  assumes ok: "wallet_db_ok C J 0 ns [] (db_disk db)" and w: "watermark (db_disk db) = Some w" and d: "mc_depth C = 16"
  obtains view report where "db_read E db = Inr view"
    and "tree_length (read_view E) view t = Inr (of_nat (chain_span t (blocks_nodes ns 0 w)))"
    and "merkle_root (read_view E) C J view t = Inr (tree_root C (chain_leaves C (blocks_nodes ns 0 w) t))"
    and "validate (read_view E) C is_valid view t = Inr report"
    and "ti_missing report = of_nat (chain_missing (blocks_nodes ns 0 w) t)"
proof -
  let ?m = "on_disk (db_disk db)" and ?ns = "blocks_nodes ns 0 w"
  obtain view where view: "db_read E db = Inr view" using read_begins by (auto simp: db_read_def Engine.begin_read_def)
  have rt: "rt_disk view = db_disk db" by (rule db_read_disk [OF view])
  have ok': "materialized (rt_disk view)" "forest_ok ?m" "snapshot_current C J ?m t"
    using ok by (simp_all add: rt wallet_db_ok_def db_ok_def snapshots_ok_def)
  have leaf: "leaf_at ?m t p = Some n \<longleftrightarrow> n \<in> set ?ns \<and> node_at t p n" for p n
    using mirrored(1) [OF ok] by (simp add: synced_nodes_def w)
  have tables: "view_tables rt_disk view = ?m" by (simp add: view_tables_def rt)
  obtain len where len: "tree_length (read_view E) view t = Inr len" "unat len = tree_span ?m t"
    by (rule view.tree_length_law [OF ok'(1), unfolded tables, OF ok'(2), of t])
  have span: "tree_span ?m t = chain_span t ?ns" by (rule tree_span_of_list [OF leaf ok'(2)])
  have "len = of_nat (tree_span ?m t)" by (simp flip: len(2))
  then have "tree_length (read_view E) view t = Inr (of_nat (chain_span t ?ns))" by (simp add: len(1) span)
  moreover have "merkle_root (read_view E) C J view t = Inr (tree_root C (chain_leaves C ?ns t))"
    using view.merkle_root_law [of view C J t] ok' d mirrored_leaves [OF leaf ok'(2), of C] by (simp add: view_tables_def rt)
  moreover obtain report where "validate (read_view E) C is_valid view t = Inr report"
    "unat (ti_missing report) = chain_missing ?ns t"
    using view.validate_law [OF ok'(1), unfolded tables, OF ok'(2) d, of is_valid t]
    unfolding mirrored_missing [OF leaf ok'(2)] by blast
  moreover from this(2) have "ti_missing report = of_nat (chain_missing ?ns t)" by (simp flip: \<open>unat (ti_missing report) = chain_missing ?ns t\<close>)
  ultimately show ?thesis using view that by blast
qed

lemma synced_frontier:
  assumes "wallet_db_ok C J 0 ns [] (db_disk db)" and "watermark (db_disk db) = Some w" and "mc_depth C = 16"
    and "n \<in> set (blocks_nodes ns 0 w)" and "node_at t p n"
  shows "assert_frontier_matches_recompute E C J db t = Some ()"
proof (rule frontier_matches)
  show "db_ok C J (db_disk db)" using assms(1) by (simp add: wallet_db_ok_def)
  show "leaf_at (on_disk (db_disk db)) t p = Some n"
    using mirrored(1) [OF assms(1)] assms(2,4,5) by (simp add: synced_nodes_def)
qed (rule assms(3))

lemma run_returns_at_target:
  assumes "wallet_db_ok C J (sy_floor syncer) ns ks (db_disk db)" and "watermark (db_disk db) = Some w" and "unat w < 2 ^ 64 - 1"
  shows "sync_run windows pages E C J syncer w (src, db) =
    Some (Inr \<lparr>ss_commitments = 0, ss_nullifiers = 0, ss_synced_to = w\<rparr>, src, db)"
proof -
  obtain view where view: "db_read E db = Inr view" using read_begins by (auto simp: db_read_def Engine.begin_read_def)
  have ok: "db_ok C J (db_disk db)" using assms(1) by (simp add: wallet_db_ok_def)
  have "\<not> block_saturating_add w 1 \<le> w" 
    using after_window(2) [OF order.refl assms(3)] by (simp add: word_le_nat_alt)
  then show ?thesis
    by (cases windows) (simp_all add: sync_run_def view synced_block_watermark [OF ok view] assms(2))
qed

end

section \<open>The canned chain\<close>

definition canned :: "node list" where
  "canned = map (\<lambda>(t, p, b). shielded t p\<lparr>nd_block := b\<rparr>)
     [(0, 0, 10), (0, 1, 20), (0, 3, 110), (0, 4, 120), (0, 2, 210), (0, 5, 220), (1, 0, 230)]"

lemma node_at_block [simp]: "node_at t p (n\<lparr>nd_block := b\<rparr>) = node_at t p n"
  by (simp add: node_at_def)

lemma acceptable_block [simp]: "acceptable (shielded t p\<lparr>nd_block := b\<rparr>) = acceptable (shielded t p)"
  by (simp add: acceptable_def storable_def shielded_def wf_node_def node_bytes_def)

lemma canned_nodes_eq: "canned_nodes = Some canned"
  by (simp add: canned_def canned_nodes_def shield_node_at_def shielded_nodes)

lemma canned_ok: "\<forall>n \<in> set canned. acceptable n" "inj_on nd_position (set canned)"
proof -
  show "\<forall>n \<in> set canned. acceptable n" by (simp add: canned_def shielded_nodes)
  have "distinct (map nd_position canned)" by (simp add: canned_def)
  then show "inj_on nd_position (set canned)" by (simp only: distinct_map)
qed

lemma canned_gap:
  "chain_span 0 (blocks_nodes canned 0 199) = 5" "chain_missing (blocks_nodes canned 0 199) 0 = 1"
  "chain_leaves C (blocks_nodes canned 0 199) 0 = [1, 2, mc_zero C, 4, 5]"
  by (simp_all add: canned_def blocks_nodes_def chain_missing_def chain_leaves_def upt_rec)

lemma canned_full:
  "chain_span 0 (blocks_nodes canned 0 299) = 6" "chain_missing (blocks_nodes canned 0 299) 0 = 0"
  "chain_leaves C (blocks_nodes canned 0 299) 0 = [1, 2, 3, 4, 5, 6]"
  by (simp_all add: canned_def blocks_nodes_def chain_missing_def chain_leaves_def upt_rec)

text \<open>Closing the gap changes the root, unless two different pairs of children on the way up have one hash.\<close>

lemma backfill_changes_root:
  assumes "mc_depth C = 16" and "tree_root C [1, 2, 3, 4, 5, 6] = tree_root C [1, 2, mc_zero C, 4, 5]"
  shows "\<exists>l < 16. \<exists>i. collide C (children C (padded C [1, 2, 3, 4, 5, 6]) l i) (children C (padded C [1, 2, mc_zero C, 4, 5, mc_zero C]) l i)"
proof -
  have "padded C [1, 2, mc_zero C, 4, 5] = padded C [1, 2, mc_zero C, 4, 5, mc_zero C]"
    by (auto simp: padded_def fun_eq_iff nth_Cons' numeral_eq_Suc)
  then have "tree_root C [1, 2, 3, 4, 5, 6] = tree_root C [1, 2, mc_zero C, 4, 5, mc_zero C]"
    using assms(2) by (simp add: tree_root_def)
  from tree_root_binding [OF this] show ?thesis using assms(1) by auto
qed

section \<open>Every test passes\<close>

lemma sync_loop_stops: "\<not> from' \<le> target \<Longrightarrow> sync_loop windows pages E C J syncer target from' summary w = Some (Inr summary, w)"
  by (cases windows) simp_all

context redb_opens
begin

lemma skips_populated_passes:
  assumes "on_disk (db_disk file) = (\<lambda>_. Map.empty)"
  shows "run_to_head_if_unsynced_skips_a_populated_store E C J file = Some ()"
proof -
  obtain db where db: "temp E file = Some db" "holds spec_empty (db_disk db)" by (rule open_blank [OF assms])
  let ?ops = "[Mark 42]"
  obtain db1 where db1: "written E (commitments_do (write_txn_store E) ?ops) db = Some db1"
    "holds (snd (spec_run ?ops spec_empty)) (db_disk db1)"
    by (rule written_ops [OF db(2), of ?ops]) (simp_all add: spec_empty_def)
  obtain view where view: "db_read E db1 = Inr view" "answers (read_view E) view (snd (spec_run ?ops spec_empty))"
    by (rule read_live [OF db1(2)])
  then show ?thesis
    using db1(1) by (simp add: run_to_head_if_unsynced_skips_a_populated_store_def db(1) run_to_head_if_unsynced_def
        answers_def spec_empty_def)
qed

lemma syncs_empty_passes:
  assumes "on_disk (db_disk file) = (\<lambda>_. Map.empty)" and J: "json_ok J" and d: "mc_depth C = 16"
  shows "run_to_head_if_unsynced_syncs_an_empty_store E C J file = Some ()"
proof -
  obtain db where db: "temp E file = Some db" "holds spec_empty (db_disk db)" "on_disk (db_disk db) = stamped (\<lambda>_. Map.empty)"
    by (rule open_blank [OF assms(1)])
  obtain view where view: "db_read E db = Inr view" "answers (read_view E) view spec_empty"
    by (rule read_live [OF db(2)])
  have "wallet_db_ok C J 0 [] [] (db_disk db)" using db(2,3) by (intro fresh_ok) (simp_all add: holds_def)
  then have ok: "db_ok C J (db_disk db)" by (simp add: wallet_db_ok_def)
  have "\<not> conflicts [] m t p" for m t p by (simp add: conflicts_def)
  then obtain db1 where c: "commit_window E C J [] [] 1000 db = (Inr (), db1)"
    using commit_window_live [OF J d ok, of "[]" "[]" 1000] by auto
  have ok1: "db_ok C J (db_disk db1)" and w1: "watermark (db_disk db1) = Some 1000"
    using commit_window_law [OF J d ok _ c] by (simp_all add: window_committed_def watermark_def)
  obtain view1 where view1: "db_read E db1 = Inr view1" using read_begins by (auto simp: db_read_def Engine.begin_read_def)
  have "is_synced (read_view E) view1 = Inr True"
    by (simp add: is_synced_def synced_block_watermark [OF ok1 view1] w1)
  moreover have run: "sync_run (Suc windows) (Suc 0) E C J (syncer_new (counting_source 1000) 0) 1000 (src, db)
      = Some (Inr \<lparr>ss_commitments = 0, ss_nullifiers = 0, ss_synced_to = 1000\<rparr>, src\<lparr>page_calls := page_calls src + 2\<rparr>, db1)" for windows src
    using view(2) c
    by (simp add: sync_run_def view(1) answers_def spec_empty_def syncer_new_def window_end_def DEFAULT_BLOCK_WINDOW_def
        block_saturating_add_def fetch_window_def counting_source_def sync_loop_stops)
  ultimately show ?thesis
    using view(2) run [of 1000 "\<lparr>latest_calls = 1, page_calls = 0\<rparr>"]
    by (simp add: run_to_head_if_unsynced_syncs_an_empty_store_def db(1) run_to_head_if_unsynced_def run_to_head_def view(1)
        answers_def spec_empty_def syncer_new_def counting_source_def view1)
qed

lemma canned_run:
  fixes syncer :: "unit syncer"
  assumes J: "json_ok J" and d: "mc_depth C = 16" and S: "sy_source syncer = canned_source 299 canned" "sy_floor syncer = 0"
    and "wallet_db_ok C J 0 canned [] (db_disk db)" and "start_of syncer (db_disk db) \<le> target" and "unat target + 1 \<le> windows"
    and "target \<le> 299"
  obtains summary db' where "sync_run windows 1 E C J syncer target ((), db) = Some (Inr summary, (), db')"
    and "wallet_db_ok C J 0 canned [] (db_disk db')" and "watermark (db_disk db') = Some target"
proof -
  have "unat target < 2 ^ 64 - 1" using assms(8) by (simp add: word_le_nat_alt)
  moreover have "delivers 1 (sy_source syncer) 299 canned []" unfolding S(1) by (rule canned_source_delivers)
  ultimately show ?thesis
    using sync_run_arrives [OF J d canned_ok(1,2), of 1 syncer 299 "[]" target db windows "()"] assms(4-8) that by auto
qed

lemma frontier_test_passes:
  assumes "on_disk (db_disk file) = (\<lambda>_. Map.empty)" and J: "json_ok J" and d: "mc_depth C = 16"
    and free: "tree_root C [1, 2, 3, 4, 5, 6] \<noteq> tree_root C [1, 2, mc_zero C, 4, 5]"
  shows "frontier_tracks_recompute_across_windows_gaps_and_backfill E C J file = Some ()"
proof -
  let ?S = "(syncer_new (canned_source 299 canned) 0)\<lparr>sy_block_window := 100\<rparr>"
  have S: "sy_source ?S = canned_source 299 canned" "sy_floor ?S = 0" by (simp_all add: syncer_new_def)
  have window: "set_block_window 100 (syncer_new (canned_source 299 canned) 0) = Some ?S" by (simp add: set_block_window_def)
  have head: "run_to_head 300 1 E C J ?S ((), db) = sync_run 300 1 E C J ?S 299 ((), db)" for db
    by (simp only: run_to_head_def S(1) canned_source_latest fst_conv snd_conv prod.case sum.case)
  obtain db where db: "temp E file = Some db" "holds spec_empty (db_disk db)" "on_disk (db_disk db) = stamped (\<lambda>_. Map.empty)"
    by (rule open_blank [OF assms(1)])
  have ok: "wallet_db_ok C J 0 canned [] (db_disk db)" using db(2,3) by (intro fresh_ok) (simp_all add: holds_def)
  have "watermark (db_disk db) = None" by (simp add: watermark_def db(3) stamped_tables)
  then have "start_of ?S (db_disk db) \<le> 99" by (simp add: start_of_def S(2))
  then obtain sum1 db1 where run1: "sync_run 300 1 E C J ?S 99 ((), db) = Some (Inr sum1, (), db1)"
    "wallet_db_ok C J 0 canned [] (db_disk db1)" "watermark (db_disk db1) = Some 99"
    using canned_run [OF J d S ok, of 99 300] by auto
  have "start_of ?S (db_disk db1) \<le> 199" by (simp add: start_of_def run1(3) block_saturating_add_def)
  then obtain sum2 db2 where run2: "sync_run 300 1 E C J ?S 199 ((), db1) = Some (Inr sum2, (), db2)"
    "wallet_db_ok C J 0 canned [] (db_disk db2)" "watermark (db_disk db2) = Some 199"
    using canned_run [OF J d S run1(2), of 199 300] by auto
  have "start_of ?S (db_disk db2) \<le> 299" by (simp add: start_of_def run2(3) block_saturating_add_def)
  then obtain sum3 db3 where run3: "sync_run 300 1 E C J ?S 299 ((), db2) = Some (Inr sum3, (), db3)"
    "wallet_db_ok C J 0 canned [] (db_disk db3)" "watermark (db_disk db3) = Some 299"
    using canned_run [OF J d S run2(2), of 299 300] by auto
  have again: "sync_run 300 1 E C J ?S 299 ((), db3) = Some (Inr \<lparr>ss_commitments = 0, ss_nullifiers = 0, ss_synced_to = 299\<rparr>, (), db3)"
    using run_returns_at_target [of C J ?S canned "[]" db3 299] run3(2,3) by (simp add: S(2))
  obtain view2 report2 where view2: "db_read E db2 = Inr view2" "tree_length (read_view E) view2 0 = Inr 5"
    "merkle_root (read_view E) C J view2 0 = Inr (tree_root C [1, 2, mc_zero C, 4, 5])"
    "validate (read_view E) C (expected_root (tree_root C [1, 2, mc_zero C, 4, 5])) view2 0 = Inr report2" "ti_missing report2 = 1"
    using synced_reads [OF run2(2,3) d, of 0 "expected_root (tree_root C [1, 2, mc_zero C, 4, 5])"] by (auto simp: canned_gap)
  obtain view3 report3 where view3: "db_read E db3 = Inr view3" "tree_length (read_view E) view3 0 = Inr 6"
    "merkle_root (read_view E) C J view3 0 = Inr (tree_root C [1, 2, 3, 4, 5, 6])"
    "validate (read_view E) C (expected_root (tree_root C [1, 2, 3, 4, 5, 6])) view3 0 = Inr report3" "ti_missing report3 = 0"
    using synced_reads [OF run3(2,3) d, of 0 "expected_root (tree_root C [1, 2, 3, 4, 5, 6])"] by (auto simp: canned_full)
  have match: "assert_frontier_matches_recompute E C J db1 0 = Some ()" "assert_frontier_matches_recompute E C J db2 0 = Some ()"
    "assert_frontier_matches_recompute E C J db3 0 = Some ()" "assert_frontier_matches_recompute E C J db3 1 = Some ()"
    by (rule synced_frontier [OF run1(2,3) d, of "shielded 0 0\<lparr>nd_block := 10\<rparr>" 0 0]
          synced_frontier [OF run2(2,3) d, of "shielded 0 0\<lparr>nd_block := 10\<rparr>" 0 0]
          synced_frontier [OF run3(2,3) d, of "shielded 0 0\<lparr>nd_block := 10\<rparr>" 0 0]
          synced_frontier [OF run3(2,3) d, of "shielded 1 0\<lparr>nd_block := 230\<rparr>" 1 0]; simp add: canned_def)+
  show ?thesis
    unfolding frontier_tracks_recompute_across_windows_gaps_and_backfill_def canned_nodes_eq
    by (simp add: window db(1) run1(1) run2(1) run3(1) head again view2 view3 match free del: One_nat_def list.map)
qed

end

section \<open>Properties\<close>

text \<open>C26: every engine passes the repository's offline tests of the database and of the pump. On any engine that keeps redb's
  contract, and whose files open and transactions begin and commit, run on a file that holds nothing: the nine unit tests
  of \<^verbatim>\<open>database/src/lib.rs\<close> end without a panic, and so do the two of \<^verbatim>\<open>sync/src/manager.rs\<close>; the integration test
  that takes a tree through windows, a gap and its backfill does too, unless closing the gap meets a collision of the pairwise
  hash on the way to the root.\<close>

theorem offline_tests_pass:
  assumes "redb_opens E db_disk rt_disk tbl_map wt_disk" and "on_disk (db_disk file) = (\<lambda>_. Map.empty)"
    and "json_ok J" and "mc_depth C = 16"
  shows "list_all (\<lambda>test. test E file = Some ()) (database_tests K)
    \<and> run_to_head_if_unsynced_skips_a_populated_store E C J file = Some ()
    \<and> run_to_head_if_unsynced_syncs_an_empty_store E C J file = Some ()
    \<and> (frontier_tracks_recompute_across_windows_gaps_and_backfill E C J file = Some ()
       \<or> (\<exists>l < 16. \<exists>i. collide C (children C (padded C [1, 2, 3, 4, 5, 6]) l i)
             (children C (padded C [1, 2, mc_zero C, 4, 5, mc_zero C]) l i)))"
  using database_tests_pass [OF assms(1,2)] redb_opens.skips_populated_passes [OF assms(1,2)]
    redb_opens.syncs_empty_passes [OF assms] redb_opens.frontier_test_passes [OF assms] backfill_changes_root [OF assms(4)]
  by blast

text \<open>The sample hash is linear, and the two roots of the canned chain differ.\<close>

lemma sample_roots_differ: "tree_root sample_merkle [1, 2, 3, 4, 5, 6] \<noteq> tree_root sample_merkle [1, 2, mc_zero sample_merkle, 4, 5]"
proof -
  let ?f = "padded sample_merkle [1, 2, 3, 4, 5, 6]" and ?g = "padded sample_merkle [1, 2, mc_zero sample_merkle, 4, 5]"
  have hash: "mc_hash sample_merkle a b = 3 * a + 5 * b + 1" for a b by (simp add: sample_config_def)
  have "tree_node sample_merkle ?f (3 + k) 0 = tree_node sample_merkle ?g (3 + k) 0 - 495 * 3 ^ k" for k
  proof (induction k)
    case 0
    show ?case by (simp add: eval_nat_numeral padded_def sample_config_def)
  next
    case (Suc k)
    have "tree_node sample_merkle ?f (3 + k) 1 = tree_node sample_merkle ?g (3 + k) 1"
    proof (rule tree_node_cong)
      fix j :: nat
      assume "1 * 2 ^ (3 + k) \<le> j"
      moreover have "(8 :: nat) \<le> 2 ^ (3 + k)" by (simp add: power_add)
      ultimately have "8 \<le> j" by linarith
      then show "?f j = ?g j" by (simp add: padded_def)
    qed
    then show ?case
      unfolding add_Suc_right tree_node.simps hash mult_0_right add_0 Suc.IH by (simp add: algebra_simps)
  qed
  from this [of 13] show ?thesis by (simp add: tree_root_def sample_config_def)
qed

lemma offline_tests_pass_witness:
  "list_all (\<lambda>test. test mem_redb [] = Some ()) (database_tests no_json)
     \<and> run_to_head_if_unsynced_skips_a_populated_store mem_redb sample_merkle state_json [] = Some ()
     \<and> run_to_head_if_unsynced_syncs_an_empty_store mem_redb sample_merkle state_json [] = Some ()
     \<and> frontier_tracks_recompute_across_windows_gaps_and_backfill mem_redb sample_merkle state_json [] = Some ()"
proof -
  have blank: "on_disk (mem_tables []) = (\<lambda>_. Map.empty)" by (simp add: on_disk_def mem_tables_def fun_eq_iff)
  show ?thesis
    using offline_tests_pass [OF opens_mem.redb_opens_axioms blank state_json_ok sample_merkle_depth, of no_json]
      opens_mem.frontier_test_passes [OF blank state_json_ok sample_merkle_depth sample_roots_differ] by blast
qed

end
