(* ===== verification/Stale_Batch.thy ===== *)
theory Stale_Batch
  imports Database_Tests
begin

text \<open>
  A batch that is applied after another writer committed: \<open>Database::apply\<close> writes what was staged and does not ask
  whether the view it was staged over is still the database.
\<close>

section \<open>What a staged insert writes\<close>

lemma st_bind_ok: "st_bind m st_ok = m"
  by (simp add: fun_eq_iff st_bind_def split: prod.splits sum.splits)

context redb_live
begin

text \<open>The entries a single insert stages: the record, the tree's length, and perhaps the tree count.\<close>

lemma insert_node_staged:
  assumes ready: "materialized (rt_disk view)" and rep: "represents F (on_disk (rt_disk view))" and a: "acceptable a" "node_at t p a"
    and new: "chain_span t (fs_nodes F) \<le> unat p"
  obtains s where "insert_node (overlay_store (read_view E)) a (write_batch_new, view) = (Inr (), s)" and "batch_ok (fst s)"
    and "staged_of (fst s) COMMITMENTS (length_key t) = Some (Some (to_be_bytes (p + 1)))"
    and "\<And>k. k \<notin> {commitment_key t p, length_key t, tree_count_key} \<Longrightarrow> staged_of (fst s) COMMITMENTS k = None"
proof -
  let ?V = "overlay_store (read_view E)"
  let ?b1 = "stage COMMITMENTS (commitment_key t p) (Some (node_bytes a)) write_batch_new"
  let ?b2 = "stage COMMITMENTS (length_key t) (Some (to_be_bytes (p + 1))) ?b1"
  let ?b3 = "stage COMMITMENTS tree_count_key (Some (to_be_bytes (t + 1))) ?b2"
  have pos: "tree_number (nd_position a) = t" "leaf_index (nd_position a) = p" and st: "storable a"
    using a by (simp_all add: node_at_def acceptable_def)
  have ok: "batch_ok write_batch_new" "batch_ok ?b1" "batch_ok ?b2" "batch_ok ?b3" by (simp_all add: batch_ok_stage)
  have get: "overlay_get (read_view E) (b, view) T k = Inr (overlay_map (on_disk (rt_disk view) T) (staged_of b T) k)" if "batch_ok b" for b T k
    using view.overlay_get_law [of "(b, view)" T k] that ready by (simp add: overlay_inv_def overlay_contents_def view_tables_def)
  have base: "rd_get (read_view E) view T k = Inr (on_disk (rt_disk view) T k)" for T k
    using view.get_law [OF ready, of T k] by (simp add: view_tables_def)
  have reads: "answers (read_view E) view F"
    using view.answers_law [of view F] ready rep by (simp add: view_tables_def)
  have len: "tree_length ?V (?b1, view) t = Inr (of_nat (chain_span t (fs_nodes F)))"
    and count: "tree_count ?V (?b1, view) = Inr (of_nat (chain_trees (fs_nodes F)))"
    using reads unfolding answers_def tree_length_def tree_count_def overlay_store_simps get [OF ok(2)] base
    by (simp_all add: overlay_map_def staged_of_stage staged_of_new)
  have "find (node_at t p) (fs_nodes F) = None"
    using new chain_span_le [of t "fs_nodes F" "unat p"] by (force simp: find_None_iff node_at_def)
  then have free: "on_disk (rt_disk view) COMMITMENTS (commitment_key t p) = None"
    using rep leaf_atE [of "on_disk (rt_disk view)" t p] by (metis option.distinct(1) represents_def)
  have "unat p < 2 ^ 16" using st a(2) by (simp add: storable_def wf_node_def wf_position_nat node_at_def)
  then have "unat (p + 1) = unat p + 1" by (simp add: unat_word_ariths)
  then have longer: "(of_nat (chain_span t (fs_nodes F)) :: u32) < p + 1"
    using new by (simp add: word_less_nat_alt unat_of_nat le_less_trans [OF mod_less_eq_dividend])
  let ?s = "if t + 1 > of_nat (chain_trees (fs_nodes F)) then (?b3, view) else (?b2, view)"
  have "insert_node ?V a (write_batch_new, view) = (Inr (), ?s)"
    using len count longer free
    by (simp add: insert_node_def Let_def pos decode_storable(3) [OF st] get [OF ok(1)] staged_of_new st_bind_def overlay_put_def)
  moreover have "batch_ok (fst ?s)" using ok by simp
  moreover have "staged_of (fst ?s) COMMITMENTS (length_key t) = Some (Some (to_be_bytes (p + 1)))"
    by (simp add: staged_of_stage)
  moreover have "staged_of (fst ?s) COMMITMENTS k = None" if "k \<notin> {commitment_key t p, length_key t, tree_count_key}" for k
    using that by (simp add: staged_of_stage staged_of_new)
  ultimately show ?thesis by (rule that)
qed

lemma stale_batch_law:
  assumes db: "holds F (db_disk db)" and a: "acceptable a" "node_at t p a" and b: "acceptable b" "node_at t q b"
    and pq: "unat p < unat q" and new: "chain_span t (fs_nodes F) \<le> unat p" and view: "db_read E db = Inr view"
  obtains s db1 db2 where "insert_node (overlay_store (read_view E)) a (write_batch_new, view) = (Inr (), s)"
    and "written E (insert_node (write_txn_store E) b) db = Some db1" and "db_apply E (fst s) db1 = (Inr (), db2)"
    and "\<not> forest_ok (on_disk (db_disk db2))"
    and "\<And>view2. db_read E db2 = Inr view2 \<Longrightarrow>
      tree_length (read_view E) view2 t = Inr (p + 1) \<and> commitments_node (read_view E) view2 t q = Inr (Some b)"
proof -
  have rt: "rt_disk view = db_disk db" by (rule db_read_disk [OF view])
  obtain s where s: "insert_node (overlay_store (read_view E)) a (write_batch_new, view) = (Inr (), s)" "batch_ok (fst s)"
    "staged_of (fst s) COMMITMENTS (length_key t) = Some (Some (to_be_bytes (p + 1)))"
    "\<And>k. k \<notin> {commitment_key t p, length_key t, tree_count_key} \<Longrightarrow> staged_of (fst s) COMMITMENTS k = None"
    using db by (elim insert_node_staged [of view F a t p, rotated -1]) (use a new in \<open>simp_all add: rt holds_def\<close>)
  have pos: "tree_number (nd_position b) = t" "leaf_index (nd_position b) = q" using b(2) by (simp_all add: node_at_def)
  have "find (node_at t q) (fs_nodes F) = None"
    using new pq chain_span_le [of t "fs_nodes F" "unat p"] by (force simp: find_None_iff node_at_def)
  then have run: "spec_run [AddNode b] F = (Inr (), F\<lparr>fs_nodes := fs_nodes F @ [b]\<rparr>)" by (simp add: pos)
  obtain db1 where db1: "written E (commitments_do (write_txn_store E) [AddNode b]) db = Some db1"
    "holds (F\<lparr>fs_nodes := fs_nodes F @ [b]\<rparr>) (db_disk db1)"
    by (rule written_ops [OF db _ run]) (use b(1) in simp_all)
  have ok1: "materialized (db_disk db1)" "forest_ok (on_disk (db_disk db1))" using db1(2) by (simp_all add: holds_def represents_def)
  have "leaf_at (on_disk (db_disk db1)) t q = Some b"
    using db1(2) b(2) represents_leaf [of "F\<lparr>fs_nodes := fs_nodes F @ [b]\<rparr>" "on_disk (db_disk db1)" t q b] by (simp add: holds_def)
  then have stored: "on_disk (db_disk db1) COMMITMENTS (commitment_key t q) = Some (node_bytes b)"
    by (metis leaf_atE [OF ok1(2), of t q] option.distinct(1) option.inject)
  obtain db2 where db2: "db_apply E (fst s) db1 = (Inr (), db2)" using db_apply_live [OF ok1(1) s(2)] by blast
  have ne: "q \<noteq> p" using pq by auto
  have disk: "materialized (db_disk db2)"
    "on_disk (db_disk db2) COMMITMENTS (length_key t) = Some (to_be_bytes (p + 1))"
    "on_disk (db_disk db2) COMMITMENTS (commitment_key t q) = Some (node_bytes b)"
    using db_apply_disk [OF ok1(1) s(2) db2] s(3) s(4) [of "commitment_key t q"] stored ne by (auto simp: overlay_map_def)
  have st: "storable b" using b(1) by (simp add: acceptable_def)
  have reads: "tree_length (read_view E) view2 t = Inr (p + 1) \<and> commitments_node (read_view E) view2 t q = Inr (Some b)"
    if "db_read E db2 = Inr view2" for view2
  proof -
    have "rt_disk view2 = db_disk db2" by (rule db_read_disk [OF that])
    then have "rd_get (read_view E) view2 COMMITMENTS k = Inr (on_disk (db_disk db2) COMMITMENTS k)" for k
      using view.get_law [of view2 COMMITMENTS k] disk(1) by (simp add: view_tables_def)
    then show ?thesis
      unfolding tree_length_def commitments_node_def by (simp add: disk(2,3) decode_u32_def decode_storable(1) [OF st])
  qed
  have "\<not> forest_ok (on_disk (db_disk db2))"
  proof
    assume ok: "forest_ok (on_disk (db_disk db2))"
    obtain view2 where view2: "db_read E db2 = Inr view2" using read_begins by (auto simp: db_read_def Engine.begin_read_def)
    have "leaf_at (on_disk (db_disk db2)) t q = Some b" by (simp add: leaf_at_def disk(3) decode_storable(1) [OF st])
    then have "unat q < tree_span (on_disk (db_disk db2)) t" by (simp add: has_leaf_in_span has_leaf_iff [OF ok])
    moreover have "unat (p + 1) = tree_span (on_disk (db_disk db2)) t"
      using view.tree_length_law [of view2 t] disk(1) ok reads [OF view2] by (auto simp: view_tables_def db_read_disk [OF view2])
    moreover have "unat (p + 1) \<le> unat p + 1" by (simp add: unat_word_ariths)
    ultimately show False using pq by simp
  qed
  then show ?thesis using that [OF s(1) _ db2] db1(1) reads by (simp add: st_bind_ok)
qed

end

section \<open>Properties\<close>

text \<open>C33: a stale batch lowers a tree's length. Stage the insertion of a new leaf over a view; before the batch is applied, let
  another transaction insert a later leaf of the same tree; apply the batch. Every step succeeds and nothing reports a
  conflict, but the length staged over the old view replaces the one the other writer stored: the tree is reported to
  end before a leaf that is still there, and the table no longer satisfies its invariant. So the view a batch was staged
  over must still be the database when it is applied, which \<open>apply\<close> does not check.\<close>

theorem stale_batch_lowers_length:
  assumes "redb_live E db_disk rt_disk tbl_map wt_disk" and "holds F (db_disk db)" and "acceptable a" and "node_at t p a"
    and "acceptable b" and "node_at t q b" and "unat p < unat q" and "chain_span t (fs_nodes F) \<le> unat p"
    and "db_read E db = Inr view"
  shows "\<exists>s db1 db2. insert_node (overlay_store (read_view E)) a (write_batch_new, view) = (Inr (), s)
    \<and> written E (insert_node (write_txn_store E) b) db = Some db1 \<and> db_apply E (fst s) db1 = (Inr (), db2)
    \<and> \<not> forest_ok (on_disk (db_disk db2))
    \<and> (\<forall>view2. db_read E db2 = Inr view2 \<longrightarrow>
        tree_length (read_view E) view2 t = Inr (p + 1) \<and> commitments_node (read_view E) view2 t q = Inr (Some b))"
  by (rule redb_live.stale_batch_law [OF assms]) blast

lemma stale_batch_lowers_length_witness:
  "\<exists>s db1 db2. insert_node (overlay_store (read_view mem_redb)) (shielded 0 0) (write_batch_new, empty_db) = (Inr (), s)
     \<and> written mem_redb (insert_node (write_txn_store mem_redb) (shielded 0 4)) empty_db = Some db1
     \<and> db_apply mem_redb (fst s) db1 = (Inr (), db2)
     \<and> tree_length (read_view mem_redb) db2 0 = Inr 1 \<and> commitments_node (read_view mem_redb) db2 0 4 = Inr (Some (shielded 0 4))"
proof -
  have ready: "holds spec_empty (mem_tables empty_db)"
    using empty_txn_ready empty_txn_tables represents_empty [of "\<lambda>_. Map.empty"] by (simp add: holds_def empty_txn_def)
  from stale_batch_lowers_length [OF live_mem.redb_live_axioms ready, of "shielded 0 0" 0 0 "shielded 0 4" 4] show ?thesis
    using mem_read by (simp add: shielded_nodes spec_empty_def) blast
qed

end
