(* ===== verification/Chain_Config.thy ===== *)
theory Chain_Config
  imports Domain
begin

text \<open>
  The chains the \<^verbatim>\<open>sync\<close> crate knows (\<^verbatim>\<open>sync/src/chain.rs\<close>): endpoint, contracts and the deployment block, which
  a client passes to the syncer as its floor.
\<close>

record chain_config =
  ch_id :: u64
  subsquid_endpoint :: string
  railgun_smart_wallet :: bytes
  relay_adapt_contract :: bytes
  wrapped_base_token :: bytes
  deployment_block :: block_number

definition mainnet :: chain_config where
  "mainnet = \<lparr>ch_id = 1,
     subsquid_endpoint = ''https://rail-squid.squids.live/squid-railgun-ethereum-v2/v/v1/graphql'',
     railgun_smart_wallet =
       [0xFA, 0x70, 0x93, 0xCD, 0xD9, 0xEE, 0x69, 0x32, 0xB4, 0xEB,
       0x2C, 0x9E, 0x1C, 0xDE, 0x7C, 0xE0, 0x0B, 0x1F, 0xA4, 0xB9],
     relay_adapt_contract =
       [0xAC, 0x9F, 0x36, 0x0A, 0xE8, 0x54, 0x69, 0xB2, 0x7A, 0xED,
       0xDE, 0xAF, 0xC5, 0x79, 0xEF, 0x2D, 0x05, 0x2A, 0xD4, 0x05],
     wrapped_base_token =
       [0xC0, 0x2A, 0xAA, 0x39, 0xB2, 0x23, 0xFE, 0x8D, 0x0A, 0x0E,
       0x5C, 0x4F, 0x27, 0xEA, 0xD9, 0x08, 0x3C, 0x75, 0x6C, 0xC2],
     deployment_block = 14693013\<rparr>"

definition sepolia :: chain_config where
  "sepolia = \<lparr>ch_id = 11155111,
     subsquid_endpoint = ''https://rail-squid.squids.live/squid-railgun-eth-sepolia-v2/v/v1/graphql'',
     railgun_smart_wallet =
       [0xEC, 0xFC, 0xF3, 0xB4, 0xEC, 0x64, 0x7C, 0x4C, 0xA6, 0xD4,
       0x91, 0x08, 0xB3, 0x11, 0xB7, 0xA7, 0xC9, 0x54, 0x3F, 0xEA],
     relay_adapt_contract =
       [0x7E, 0x3D, 0x92, 0x9E, 0xBD, 0x5B, 0xDC, 0x84, 0xD0, 0x2B,
       0xD3, 0x20, 0x5C, 0x77, 0x75, 0x78, 0xF3, 0x3A, 0x21, 0x4D],
     wrapped_base_token =
       [0xFF, 0xF9, 0x97, 0x67, 0x82, 0xD4, 0x6C, 0xC0, 0x56, 0x30,
       0xD1, 0xF6, 0xEB, 0xAB, 0x18, 0xB2, 0x32, 0x4D, 0x6B, 0x14],
     deployment_block = 5784774\<rparr>"

definition from_chain_id :: "u64 \<Rightarrow> chain_config option" where
  "from_chain_id chain =
     (if chain = 1 then Some mainnet else if chain = 11155111 then Some sepolia else None)"

text \<open>The lookup finds a chain under its own id only, and every address has the length of its type.\<close>

lemma from_chain_id_Some:
  "from_chain_id chain = Some c \<longleftrightarrow> c \<in> {mainnet, sepolia} \<and> ch_id c = chain"
  by (auto simp: from_chain_id_def mainnet_def sepolia_def)

lemma chain_addresses:
  assumes "from_chain_id chain = Some c"
  shows "length (railgun_smart_wallet c) = 20 \<and> length (relay_adapt_contract c) = 20 \<and> length (wrapped_base_token c) = 20"
  using assms by (auto simp: from_chain_id_Some mainnet_def sepolia_def)

end
