(* ===== verification/Sample_Signature.thy ===== *)
theory Sample_Signature
  imports Poseidon_Hash
begin

text \<open>
  The concrete instance on which the signature theorem is applied: the field of seven elements, in which
  BabyJubJub's coefficients still give a complete curve with its base point on it, and a Poseidon engine of width
  six over it whose constants are accepted.
\<close>

section \<open>The field of seven elements\<close>

datatype gf7 = E0 | E1 | E2 | E3 | E4 | E5 | E6

primrec code7 :: "gf7 \<Rightarrow> nat" where
  "code7 E0 = 0" | "code7 E1 = 1" | "code7 E2 = 2" | "code7 E3 = 3" | "code7 E4 = 4" | "code7 E5 = 5" | "code7 E6 = 6"

definition of7 :: "nat \<Rightarrow> gf7" where
  "of7 n = [E0, E1, E2, E3, E4, E5, E6] ! (n mod 7)"

lemma code7_less: "code7 x < 7"
  by (cases x) simp_all

lemma code7_of7 [simp]: "code7 (of7 n) = n mod 7"
proof -
  have "n mod 7 \<in> {0, 1, 2, 3, 4, 5, 6}" using mod_less_divisor [of 7 n] by auto
  then show ?thesis unfolding of7_def by (elim insertE emptyE) simp_all
qed

lemma gf7_eq_iff: "x = y \<longleftrightarrow> code7 x = code7 y"
  by (cases x; cases y) simp_all

lemma of7_code7 [simp]: "of7 (code7 x) = x"
  by (simp add: gf7_eq_iff code7_less)

instantiation gf7 :: field
begin

definition zero_gf7 :: gf7 where "zero_gf7 = E0"
definition one_gf7 :: gf7 where "one_gf7 = E1"
definition plus_gf7 :: "gf7 \<Rightarrow> gf7 \<Rightarrow> gf7" where "plus_gf7 x y = of7 (code7 x + code7 y)"
definition times_gf7 :: "gf7 \<Rightarrow> gf7 \<Rightarrow> gf7" where "times_gf7 x y = of7 (code7 x * code7 y)"
definition uminus_gf7 :: "gf7 \<Rightarrow> gf7" where "uminus_gf7 x = of7 (6 * code7 x)"
definition minus_gf7 :: "gf7 \<Rightarrow> gf7 \<Rightarrow> gf7" where "minus_gf7 x y = x + - y"
definition inverse_gf7 :: "gf7 \<Rightarrow> gf7" where "inverse_gf7 x = of7 (code7 x ^ 5)"
definition divide_gf7 :: "gf7 \<Rightarrow> gf7 \<Rightarrow> gf7" where "divide_gf7 x y = x * inverse y"

lemmas gf7_defs = zero_gf7_def one_gf7_def plus_gf7_def times_gf7_def uminus_gf7_def inverse_gf7_def

lemma code7_ops:
  "code7 0 = 0" "code7 1 = 1" "code7 (x + y) = (code7 x + code7 y) mod 7" "code7 (x * y) = (code7 x * code7 y) mod 7"
  by (simp_all add: gf7_defs)

instance
proof
  fix x y z :: gf7
  show "x * y * z = x * (y * z)" "x + y + z = x + (y + z)" "(x + y) * z = x * z + y * z"
    by (simp_all add: gf7_eq_iff code7_ops mod_simps algebra_simps)
  show "x * y = y * x" "x + y = y + x"
    by (simp_all add: gf7_eq_iff code7_ops algebra_simps)
  show "1 * x = x" "0 + x = x" by (simp_all add: gf7_eq_iff code7_ops code7_less)
  show "- x + x = 0" "x \<noteq> 0 \<Longrightarrow> inverse x * x = 1" by (cases x; simp add: gf7_defs of7_def)+
  show "(0 :: gf7) \<noteq> 1" "inverse (0 :: gf7) = 0" by (simp_all add: gf7_defs of7_def)
  show "x - y = x + - y" "x div y = x * inverse y" by (simp_all add: minus_gf7_def divide_gf7_def)
qed

end

section \<open>The identity as MDS matrix\<close>

lemma fold_fixed: "list_all (\<lambda>x. f x s = s) xs \<Longrightarrow> fold f xs s = s"
  by (induction xs) simp_all

lemma identity_entry: "i < n \<Longrightarrow> j < n \<Longrightarrow> identity n ! i ! j = (if i = j then 1 else 0)"
  by (simp add: identity_def nth_list_update)

lemma identity_row:
  fixes f :: "nat \<Rightarrow> 'f::field"
  assumes "i < n" and "\<And>j. j < n \<Longrightarrow> f j = (if i = j then 1 else 0)"
  shows "(identity n)[i := map f [0..<n]] = identity n"
proof (rule list_update_same_conv [THEN iffD2])
  show "i < length (identity n)" using assms(1) by (simp add: identity_def)
  show "identity n ! i = map f [0..<n]"
  proof (rule nth_equalityI)
    show len: "length (identity n ! i :: 'f list) = length (map f [0..<n])" using assms(1) by (simp add: identity_def)
    fix j assume "j < length (identity n ! i :: 'f list)"
    then have "j < n" using len by simp
    then show "identity n ! i ! j = map f [0..<n] ! j" using assms by (simp add: identity_entry)
  qed
qed

lemma forward_row_identity:
  assumes "row < n"
  shows "forward_row n row (identity n, identity n :: 'f::field matrix) = Some (identity n, identity n)"
proof -
  let ?I = "identity n :: 'f matrix"
  have "elim_step n row j (?I, ?I) = (?I, ?I)" if "j < row" for j
    using that assms by (auto simp: elim_step_def Let_def identity_entry intro!: identity_row)
  then have "fold (elim_step n row) [0..<row] (?I, ?I) = (?I, ?I)"
    by (intro fold_fixed) (simp add: list_all_iff)
  then show ?thesis
    using assms by (auto simp: forward_row_def scale_step_def Let_def identity_entry intro!: identity_row)
qed

lemma forward_rows_identity: "k \<le> n \<Longrightarrow> forward_rows n k (identity n, identity n) = Some (identity n, identity n)"
  by (induction k) (simp_all add: forward_row_identity)

lemma length_identity [simp]: "length (identity n) = n"
  by (simp add: identity_def)

lemma mat_inverse_identity: "mat_inverse (identity n :: 'f::field matrix) \<noteq> None"
  using forward_rows_identity [of n n, where 'a = 'f] by (simp add: mat_inverse_def Let_def)

lemma square_ext:
  assumes "square n m" and "square n m'" and "\<And>i j. i < n \<Longrightarrow> j < n \<Longrightarrow> m ! i ! j = m' ! i ! j"
  shows "m = m'"
proof (rule nth_equalityI)
  show "length m = length m'" using assms(1,2) by (simp add: square_def)
  fix i assume i: "i < length m"
  then show "m ! i = m' ! i"
    using assms by (intro nth_equalityI) (auto simp: square_def)
qed

lemma transpose_identity:
  assumes "0 < n"
  shows "mat_transpose (identity n :: 'f::field matrix) = identity n"
proof (rule square_ext [of n])
  show "square n (mat_transpose (identity n :: 'f matrix))" using assms by (simp add: square_transpose square_identity)
  fix i j assume "i < n" "j < n"
  then show "mat_transpose (identity n :: 'f matrix) ! i ! j = identity n ! i ! j"
    using transpose_nth [OF square_identity, of i n j] by (auto simp: identity_entry)
qed (rule square_identity)

lemma square_tabulate: "square n (map (\<lambda>i. map (f i) [0..<n]) [0..<n])"
  by (simp add: square_def)

lemma mat_mul_identity: "mat_mat_mul (identity n :: 'f::field matrix) (identity n) = identity n"
proof (rule square_ext [of n])
  let ?I = "identity n :: 'f matrix"
  fix i j assume ij: "i < n" "j < n"
  have "mat_mat_mul ?I ?I ! i ! j = (\<Sum>k<n. ?I ! i ! k * ?I ! k ! j)"
    using ij by (rule mat_mat_mul_nth [OF square_identity square_identity])
  also have "\<dots> = (\<Sum>k<n. if k = i then ?I ! i ! j else 0)"
    using ij by (intro sum.cong) (auto simp: identity_entry)
  finally show "mat_mat_mul ?I ?I ! i ! j = ?I ! i ! j" using ij by simp
qed (simp_all add: square_mat_mat_mul square_identity)

lemma step_identity:
  assumes "0 < t"
  shows "\<exists>w v D. equivalent_matrix_step (identity t) t ([], [], [], identity t) = Some (w, v, D, identity t :: 'f::field matrix)"
proof -
  let ?I = "identity t :: 'f matrix"
  have "map (\<lambda>row. map (\<lambda>col. ?I ! row ! col) [1..<t]) [1..<t] = identity (t - 1)"
    by (rule square_ext [of "t - 1"]) (auto simp: identity_entry square_identity, simp add: square_def)
  moreover have "map (\<lambda>row. map (\<lambda>col. if row = 0 \<and> col = 0 then 1 else if row = 0 \<or> col = 0 then 0 else ?I ! row ! col) [0..<t]) [0..<t] = ?I"
    by (rule square_ext [of t]) (auto simp: square_tabulate square_identity identity_entry)
  moreover obtain y :: "'f matrix" where "mat_inverse (identity (t - 1)) = Some y"
    using mat_inverse_identity by blast
  ultimately show ?thesis
    by (auto simp: equivalent_matrix_step_def Let_def mat_mul_identity)
qed

section \<open>An engine of width six\<close>

definition gf7_scalar :: "gf7 \<Rightarrow> bytes" where
  "gf7_scalar e = replicate 31 0 @ [of_nat (code7 e)]"

definition gf7_engine :: "gf7 poseidon_engine" where
  "gf7_engine = \<lparr>pe_field = \<lparr>fl_from_be_mod = \<lambda>bs. of7 (be_nat bs), fl_to_u256 = \<lambda>e. of_nat (code7 e),
       fl_deserialize = \<lambda>bs. Some (of7 (unat (bs ! 31)))\<rparr>,
     pe_mds_bin = \<lambda>t. concat (map gf7_scalar (concat (identity t))),
     pe_rc_bin = \<lambda>t. concat (map gf7_scalar (concat (replicate (8 + circom_rounds_p t) (replicate t E0))))\<rparr>"

lemma gf7_load: "\<exists>p. load_params (pe_field gf7_engine) 6 (pe_mds_bin gf7_engine 6) (pe_rc_bin gf7_engine 6) = Some p"
proof -
  let ?L = "pe_field gf7_engine" and ?rc = "replicate 68 (replicate 6 E0)"
  have read: "fl_deserialize ?L (gf7_scalar e) = Some e" for e
    by (cases e) (simp_all add: gf7_engine_def gf7_scalar_def nth_append of7_def)
  have len: "length (gf7_scalar e) = 32" for e by (simp add: gf7_scalar_def)
  have rounds: "circom_rounds_p 6 = 60" by (simp add: circom_rounds_p_def)
  have "read_rows ?L 6 (concat (map gf7_scalar (concat (identity 6)))) = Some (identity 6)"
    by (rule read_rows_written) (simp_all add: read len list_all_iff identity_def)
  moreover have "read_rows ?L 6 (concat (map gf7_scalar (concat ?rc))) = Some ?rc"
    by (rule read_rows_written) (simp_all add: read len list_all_iff)
  moreover have "\<exists>p. poseidon_params_new 6 5 8 60 (identity 6) ?rc = Inr p"
  proof -
    obtain w v D where "equivalent_matrix_step (identity 6) 6 ([], [], [], identity 6) = Some (w, v, D, identity 6 :: gf7 matrix)"
      using step_identity [of 6] by auto
    then show ?thesis
      by (intro poseidon_params_new_accepts) (simp_all add: square_identity mat_inverse_identity transpose_identity list_all_iff)
  qed
  ultimately show ?thesis
    by (auto simp: load_params_def rounds gf7_engine_def)
qed

lemma gf7_hash: "\<exists>h. poseidon_hash (pe_field gf7_engine) (pe_mds_bin gf7_engine) (pe_rc_bin gf7_engine) [a, b, c, d, e] = Inr h"
proof -
  let ?in = "[a, b, c, d, e]"
  have six: "length ?in + 1 = 6" by simp
  obtain p where p: "load_params (pe_field gf7_engine) 6 (pe_mds_bin gf7_engine 6) (pe_rc_bin gf7_engine 6) = Some p"
    using gf7_load by blast
  obtain out where "permutation p (0 # ?in) = Inr out"
    using load_params_permutation [OF p, of "0 # ?in"] by auto
  then show ?thesis
    using poseidon_hash_dispatch [of ?in "pe_field gf7_engine" "pe_mds_bin gf7_engine" "pe_rc_bin gf7_engine", unfolded six p]
    by simp
qed

end
