(* ===== verification/Edwards.thy ===== *)
theory Edwards
  imports Main "HOL-Library.Word"
begin

text \<open>
  The twisted Edwards curve \<open>a x\<^sup>2 + y\<^sup>2 = 1 + d x\<^sup>2 y\<^sup>2\<close> over any field, in affine coordinates: the group law the
  projective arithmetic of BabyJubJub is measured against. When \<open>a\<close> is a square, \<open>d\<close> times a square is never one,
  and two is not zero, the law is complete: it never divides by zero, and the curve is a commutative group.
\<close>

type_synonym 'f affine = "'f \<times> 'f"

definition complete_curve :: "'f::field \<Rightarrow> 'f \<Rightarrow> bool" where
  "complete_curve a d \<longleftrightarrow> (2 :: 'f) \<noteq> 0 \<and> (\<exists>c. c * c = a) \<and> (\<forall>s. d * (s * s) \<noteq> 1)"

definition on_curve :: "'f::field \<Rightarrow> 'f \<Rightarrow> 'f affine \<Rightarrow> bool" where
  "on_curve a d = (\<lambda>(x, y). a * x^2 + y^2 = 1 + d * x^2 * y^2)"

definition ed_delta :: "'f::field \<Rightarrow> 'f affine \<Rightarrow> 'f affine \<Rightarrow> 'f" where
  "ed_delta d = (\<lambda>(x1, y1) (x2, y2). d * x1 * x2 * y1 * y2)"

definition ed_add :: "'f::field \<Rightarrow> 'f \<Rightarrow> 'f affine \<Rightarrow> 'f affine \<Rightarrow> 'f affine" where
  "ed_add a d = (\<lambda>(x1, y1) (x2, y2).
     ((x1 * y2 + y1 * x2) / (1 + d * x1 * x2 * y1 * y2), (y1 * y2 - a * x1 * x2) / (1 - d * x1 * x2 * y1 * y2)))"

definition ed_zero :: "'f::field affine" where
  "ed_zero = (0, 1)"

text \<open>Repeated addition.\<close>

primrec ed_mult :: "'f::field \<Rightarrow> 'f \<Rightarrow> nat \<Rightarrow> 'f affine \<Rightarrow> 'f affine" where
  "ed_mult a d 0 P = ed_zero"
| "ed_mult a d (Suc n) P = ed_add a d P (ed_mult a d n P)"

section \<open>Completeness\<close>

lemma delta_square:
  fixes a d c :: "'f::field"
  assumes "(c * c) * x1^2 + y1^2 = 1 + d * x1^2 * y1^2" and "(c * c) * x2^2 + y2^2 = 1 + d * x2^2 * y2^2"
    and "(d * x1 * x2 * y1 * y2)^2 = 1"
  shows "(c * x1 + (d * x1 * x2 * y1 * y2) * y1)^2 = d * (x1 * y1 * (c * x2 + y2))^2"
  using assms by algebra

lemma complete_no_square:
  assumes "complete_curve a d" and "u^2 = d * v^2" and "v \<noteq> 0" and "d \<noteq> 0"
  shows False
proof -
  have "u \<noteq> 0" using assms(2-4) by auto
  then have "d * ((v / u) * (v / u)) = 1" using assms(2-4) by (simp add: power2_eq_square divide_simps)
  then show False using assms(1) unfolding complete_curve_def by blast
qed

lemma delta_not_root:
  assumes "complete_curve a d" and "on_curve a d P" and "on_curve a d Q"
  shows "(ed_delta d P Q)^2 \<noteq> 1"
proof
  obtain x1 y1 x2 y2 where PQ: "P = (x1, y1)" "Q = (x2, y2)" by (cases P; cases Q)
  assume "(ed_delta d P Q)^2 = 1"
  then have e: "(d * x1 * x2 * y1 * y2)^2 = 1" by (simp add: ed_delta_def PQ)
  then have nz: "d \<noteq> 0" "x1 \<noteq> 0" "y1 \<noteq> 0" "y2 \<noteq> 0" by auto
  obtain c where c: "c * c = a" using assms(1) by (auto simp: complete_curve_def)
  have eqs: "c * c * x1^2 + y1^2 = 1 + d * x1^2 * y1^2" "c * c * x2^2 + y2^2 = 1 + d * x2^2 * y2^2"
    using assms(2,3) by (simp_all add: on_curve_def PQ c)
  then have eqs': "- c * - c * x1^2 + y1^2 = 1 + d * x1^2 * y1^2" "- c * - c * x2^2 + y2^2 = 1 + d * x2^2 * y2^2"
    by simp_all
  have "c * x2 + y2 = 0"
    using complete_no_square [OF assms(1) delta_square [OF eqs e]] nz by auto
  moreover have "- c * x2 + y2 = 0"
    using complete_no_square [OF assms(1) delta_square [OF eqs' e]] nz by auto
  ultimately have "2 * y2 = 0" by algebra
  then show False using nz assms(1) by (auto simp: complete_curve_def)
qed

lemma delta_denominators:
  assumes "complete_curve a d" and "on_curve a d (x1, y1)" and "on_curve a d (x2, y2)"
  shows "1 + d * x1 * x2 * y1 * y2 \<noteq> 0" and "1 - d * x1 * x2 * y1 * y2 \<noteq> 0"
proof -
  let ?e = "d * x1 * x2 * y1 * y2"
  have e: "?e^2 \<noteq> 1" using delta_not_root [OF assms] by (simp add: ed_delta_def)
  show "1 + ?e \<noteq> 0"
  proof
    assume "1 + ?e = 0"
    then have "?e = - 1" by algebra
    with e show False by simp
  qed
  show "1 - ?e \<noteq> 0"
  proof
    assume "1 - ?e = 0"
    then have "?e = 1" by algebra
    with e show False by simp
  qed
qed

section \<open>The group\<close>

lemma ed_add_commute: "ed_add a d P Q = ed_add a d Q P"
  by (cases P; cases Q) (simp add: ed_add_def algebra_simps)

lemma ed_add_zero [simp]: "ed_add a d ed_zero P = P" "ed_add a d P ed_zero = P"
  by (cases P; simp add: ed_add_def ed_zero_def)+

lemma on_curve_zero [simp]: "on_curve a d ed_zero"
  by (simp add: on_curve_def ed_zero_def)

lemma closure_poly:
  fixes a d :: "'f::field"
  assumes "a * x1^2 + y1^2 = 1 + d * x1^2 * y1^2" and "a * x2^2 + y2^2 = 1 + d * x2^2 * y2^2"
    and "n = x1 * y2 + y1 * x2" and "m = y1 * y2 - a * x1 * x2"
    and "p = 1 + d * x1 * x2 * y1 * y2" and "q = 1 - d * x1 * x2 * y1 * y2"
  shows "a * (n * q)^2 + (m * p)^2 = (p * q)^2 + d * n^2 * m^2"
  using assms(1,2) unfolding assms(3-6) by algebra

lemma clear_denominators:
  fixes a d :: "'f::field"
  assumes "P \<noteq> 0" and "Q \<noteq> 0" and "a * (N * Q) + M * P = P * Q + d * N * M"
  shows "a * (N / P) + M / Q = 1 + d * (N / P) * (M / Q)"
proof -
  have "(a * (N * Q) + M * P) / (P * Q) = (P * Q + d * N * M) / (P * Q)" using assms(3) by simp
  then show ?thesis using assms(1,2) by (simp add: add_divide_distrib)
qed

lemma on_curve_add:
  assumes "complete_curve a d" and "on_curve a d P" and "on_curve a d Q"
  shows "on_curve a d (ed_add a d P Q)"
proof -
  obtain x1 y1 x2 y2 where PQ: "P = (x1, y1)" "Q = (x2, y2)" by (cases P; cases Q)
  note dens = delta_denominators [OF assms [unfolded PQ]]
  define n m p q where nmpq: "n = x1 * y2 + y1 * x2" "m = y1 * y2 - a * x1 * x2"
    "p = 1 + d * x1 * x2 * y1 * y2" "q = 1 - d * x1 * x2 * y1 * y2"
  have nz: "p \<noteq> 0" "q \<noteq> 0" using dens by (simp_all add: nmpq)
  have "a * (n * q)^2 + (m * p)^2 = (p * q)^2 + d * n^2 * m^2"
    by (rule closure_poly [OF _ _ nmpq]) (use assms(2,3) in \<open>simp_all add: on_curve_def PQ\<close>)
  then have "a * (n^2 * q^2) + m^2 * p^2 = p^2 * q^2 + d * n^2 * m^2" by (simp add: power_mult_distrib)
  then have "a * (n / p)^2 + (m / q)^2 = 1 + d * (n / p)^2 * (m / q)^2"
    unfolding power_divide by (rule clear_denominators [rotated 2]) (use nz in simp_all)
  then show ?thesis by (simp add: on_curve_def ed_add_def PQ nmpq)
qed

text \<open>Associativity, with the denominators cleared.\<close>

lemma assoc_poly:
  fixes a d :: "'f::field"
  assumes "a * x1^2 + y1^2 = 1 + d * x1^2 * y1^2" and "a * x2^2 + y2^2 = 1 + d * x2^2 * y2^2"
    and "a * x3^2 + y3^2 = 1 + d * x3^2 * y3^2"
    and "n = x1 * y2 + y1 * x2" and "m = y1 * y2 - a * x1 * x2"
    and "p = 1 + d * x1 * x2 * y1 * y2" and "q = 1 - d * x1 * x2 * y1 * y2"
    and "n' = x2 * y3 + y2 * x3" and "m' = y2 * y3 - a * x2 * x3"
    and "p' = 1 + d * x2 * x3 * y2 * y3" and "q' = 1 - d * x2 * x3 * y2 * y3"
  shows "(n * q * y3 + m * p * x3) * (p' * q' + d * x1 * n' * y1 * m') =
      (x1 * m' * p' + y1 * n' * q') * (p * q + d * n * x3 * m * y3)"
    and "(m * p * y3 - a * n * q * x3) * (p' * q' - d * x1 * n' * y1 * m') =
      (y1 * m' * p' - a * x1 * n' * q') * (p * q - d * n * x3 * m * y3)"
  using assms(1-3) unfolding assms(4-11) by algebra+

lemma ed_add_assoc:
  assumes C: "complete_curve a d" and P: "on_curve a d P" and Q: "on_curve a d Q" and R: "on_curve a d R"
  shows "ed_add a d (ed_add a d P Q) R = ed_add a d P (ed_add a d Q R)"
proof -
  obtain x1 y1 x2 y2 x3 y3 where PQR: "P = (x1, y1)" "Q = (x2, y2)" "R = (x3, y3)" by (cases P; cases Q; cases R)
  define n m p q where nmpq: "n = x1 * y2 + y1 * x2" "m = y1 * y2 - a * x1 * x2"
    "p = 1 + d * x1 * x2 * y1 * y2" "q = 1 - d * x1 * x2 * y1 * y2"
  define n' m' p' q' where nmpq': "n' = x2 * y3 + y2 * x3" "m' = y2 * y3 - a * x2 * x3"
    "p' = 1 + d * x2 * x3 * y2 * y3" "q' = 1 - d * x2 * x3 * y2 * y3"
  have nz: "p \<noteq> 0" "q \<noteq> 0" "p' \<noteq> 0" "q' \<noteq> 0"
    using delta_denominators [OF C P [unfolded PQR] Q [unfolded PQR]]
      delta_denominators [OF C Q [unfolded PQR] R [unfolded PQR]] by (simp_all add: nmpq nmpq')
  have PQ: "ed_add a d P Q = (n / p, m / q)" and QR: "ed_add a d Q R = (n' / p', m' / q')"
    by (simp_all add: ed_add_def PQR nmpq nmpq')
  have on: "on_curve a d (n / p, m / q)" "on_curve a d (n' / p', m' / q')"
    using on_curve_add [OF C P Q] on_curve_add [OF C Q R] PQ QR by simp_all
  have dens: "1 + d * (n / p) * x3 * (m / q) * y3 \<noteq> 0" "1 - d * (n / p) * x3 * (m / q) * y3 \<noteq> 0"
    "1 + d * x1 * (n' / p') * y1 * (m' / q') \<noteq> 0" "1 - d * x1 * (n' / p') * y1 * (m' / q') \<noteq> 0"
    using delta_denominators [OF C on(1) R [unfolded PQR]] delta_denominators [OF C P [unfolded PQR] on(2)] by simp_all
  have clear: "p * q + d * n * x3 * m * y3 = p * q * (1 + d * (n / p) * x3 * (m / q) * y3)"
    "p * q - d * n * x3 * m * y3 = p * q * (1 - d * (n / p) * x3 * (m / q) * y3)"
    "p' * q' + d * x1 * n' * y1 * m' = p' * q' * (1 + d * x1 * (n' / p') * y1 * (m' / q'))"
    "p' * q' - d * x1 * n' * y1 * m' = p' * q' * (1 - d * x1 * (n' / p') * y1 * (m' / q'))"
    using nz by (simp_all add: field_simps)
  have nz': "p * q + d * n * x3 * m * y3 \<noteq> 0" "p * q - d * n * x3 * m * y3 \<noteq> 0"
    "p' * q' + d * x1 * n' * y1 * m' \<noteq> 0" "p' * q' - d * x1 * n' * y1 * m' \<noteq> 0"
    unfolding clear using nz dens by simp_all
  have left: "ed_add a d (n / p, m / q) R = ((n * q * y3 + m * p * x3) / (p * q + d * n * x3 * m * y3),
      (m * p * y3 - a * n * q * x3) / (p * q - d * n * x3 * m * y3))"
    unfolding clear using nz dens by (simp add: ed_add_def PQR field_simps)
  have right: "ed_add a d P (n' / p', m' / q') = ((x1 * m' * p' + y1 * n' * q') / (p' * q' + d * x1 * n' * y1 * m'),
      (y1 * m' * p' - a * x1 * n' * q') / (p' * q' - d * x1 * n' * y1 * m'))"
    unfolding clear using nz dens by (simp add: ed_add_def PQR field_simps)
  have eqs: "a * x1^2 + y1^2 = 1 + d * x1^2 * y1^2" "a * x2^2 + y2^2 = 1 + d * x2^2 * y2^2"
    "a * x3^2 + y3^2 = 1 + d * x3^2 * y3^2"
    using P Q R by (simp_all add: on_curve_def PQR)
  note poly = assoc_poly [OF eqs nmpq nmpq']
  show ?thesis
    unfolding PQ QR left right prod.inject
    using poly nz' by (simp add: frac_eq_eq)
qed

section \<open>Repeated addition\<close>

lemma on_curve_mult: "complete_curve a d \<Longrightarrow> on_curve a d P \<Longrightarrow> on_curve a d (ed_mult a d n P)"
  by (induction n) (simp_all add: on_curve_add)

lemma ed_mult_add:
  assumes "complete_curve a d" and "on_curve a d P"
  shows "ed_mult a d (m + n) P = ed_add a d (ed_mult a d m P) (ed_mult a d n P)"
  by (induction m) (simp_all add: ed_add_assoc assms on_curve_mult)

lemma ed_mult_double:
  assumes "complete_curve a d" and "on_curve a d P"
  shows "ed_mult a d n (ed_add a d P P) = ed_mult a d (2 * n) P"
proof (induction n)
  case (Suc n)
  have "2 * Suc n = 2 + 2 * n" by simp
  then have "ed_mult a d (2 * Suc n) P = ed_add a d (ed_mult a d 2 P) (ed_mult a d (2 * n) P)"
    by (simp only: ed_mult_add [OF assms])
  then show ?case using Suc by (simp add: numeral_2_eq_2)
qed simp

lemma ed_mult_mult:
  assumes "complete_curve a d" and "on_curve a d P"
  shows "ed_mult a d (m * n) P = ed_mult a d m (ed_mult a d n P)"
  by (induction m) (simp_all add: ed_mult_add [OF assms])

lemma ed_mult_zero [simp]: "ed_mult a d n ed_zero = ed_zero"
  by (induction n) simp_all

text \<open>Multiples only depend on the factor modulo an order of the point.\<close>

lemma ed_mult_mod:
  assumes "complete_curve a d" and "on_curve a d P" and "ed_mult a d l P = ed_zero"
  shows "ed_mult a d (n mod l) P = ed_mult a d n P"
proof -
  have "n = (n div l) * l + n mod l" by simp
  then have "ed_mult a d n P = ed_add a d (ed_mult a d ((n div l) * l) P) (ed_mult a d (n mod l) P)"
    using ed_mult_add [OF assms(1,2), of "(n div l) * l" "n mod l"] by simp
  then show ?thesis by (simp add: ed_mult_mult [OF assms(1,2)] assms(3))
qed

end
