(* ===== verification/Babyjubjub.thy ===== *)
theory Babyjubjub
  imports Sample_Signature Edwards
begin

text \<open>
  Spending keys (\<^verbatim>\<open>crypto/src/babyjubjub.rs\<close>, \<^verbatim>\<open>common.rs\<close>, \<^verbatim>\<open>keys.rs\<close>): the projective addition on BabyJubJub,
  double-and-add over the bytes of a scalar, the pruned scalar key, and signing. The field is any field; its
  conversions are the record \<open>field_lib\<close>, Blake-512 is an argument. A non-negative \<^verbatim>\<open>BigInt\<close> is a natural number.
\<close>

section \<open>Constants and conversions (common.rs)\<close>

definition FIELD_Q :: u256 where
  "FIELD_Q = 21888242871839275222246405745257275088548364400416034343698204186575808495617"

definition ORDER :: u256 where
  "ORDER = 21888242871839275222246405745257275088614511777268538073601725287587578984328"

definition COEFF_A :: u64 where "COEFF_A = 168700"

definition COEFF_D :: u64 where "COEFF_D = 168696"

definition fr_from_u64 :: "u64 \<Rightarrow> 'f::field" where
  "fr_from_u64 x = of_nat (unat x)"

definition fr_from_u256 :: "u256 \<Rightarrow> 'f::field" where
  "fr_from_u256 x = of_nat (unat x)"

definition le_nat :: "bytes \<Rightarrow> nat" where
  "le_nat bs = be_nat (rev bs)"

text \<open>\<^verbatim>\<open>BigInt::to_bytes_le\<close> and \<^verbatim>\<open>bits\<close>.\<close>

fun to_bytes_le :: "nat \<Rightarrow> bytes" where
  "to_bytes_le n = (if n < 256 then [of_nat n] else of_nat n # to_bytes_le (n div 256))"

fun bit_count :: "nat \<Rightarrow> nat" where
  "bit_count n = (if n = 0 then 0 else Suc (bit_count (n div 2)))"

declare to_bytes_le.simps [simp del] bit_count.simps [simp del]

definition test_bit :: "bytes \<Rightarrow> nat \<Rightarrow> bool" where
  "test_bit bs i \<longleftrightarrow> bs ! (i div 8) AND push_bit (i mod 8) 1 \<noteq> 0"

section \<open>Points\<close>

record 'f bj_point =
  bp_x :: 'f
  bp_y :: 'f

record 'f bj_projective =
  pj_x :: 'f
  pj_y :: 'f
  pj_z :: 'f

definition projective :: "'f::field bj_point \<Rightarrow> 'f bj_projective" where
  "projective p = \<lparr>pj_x = bp_x p, pj_y = bp_y p, pj_z = 1\<rparr>"

definition affine :: "'f::field bj_projective \<Rightarrow> 'f bj_point" where
  "affine p =
     (if pj_z p = 0 then \<lparr>bp_x = 0, bp_y = 0\<rparr>
      else let zinv = inverse (pj_z p) in \<lparr>bp_x = pj_x p * zinv, bp_y = pj_y p * zinv\<rparr>)"

definition proj_add :: "'f::field bj_projective \<Rightarrow> 'f bj_projective \<Rightarrow> 'f bj_projective" where
  "proj_add p q =
     (let d = fr_from_u64 COEFF_D; a_coeff = fr_from_u64 COEFF_A;
          a = pj_z p * pj_z q; b = a * a; c = pj_x p * pj_x q; dxy = pj_y p * pj_y q;
          e = d * c * dxy; f = b - e; g = b + e;
          aux = (pj_x p + pj_y p) * (pj_x q + pj_y q) - c - dxy; x3 = a * f * aux;
          ac = a_coeff * c; dac = dxy - ac; y3 = a * g * dac; z3 = f * g
      in \<lparr>pj_x = x3, pj_y = y3, pj_z = z3\<rparr>)"

fun mul_loop :: "bytes \<Rightarrow> nat list \<Rightarrow> 'f::field bj_projective \<Rightarrow> 'f bj_projective \<Rightarrow> 'f bj_projective" where
  "mul_loop bs [] r exp' = r"
| "mul_loop bs (i # is) r exp' =
     mul_loop bs is (if test_bit bs i then proj_add r exp' else r) (proj_add exp' exp')"

definition mul_scalar :: "'f::field bj_point \<Rightarrow> nat \<Rightarrow> 'f bj_point" where
  "mul_scalar p n =
     affine (mul_loop (to_bytes_le n) [0..<bit_count n] \<lparr>pj_x = 0, pj_y = 1, pj_z = 1\<rparr> (projective p))"

definition B8_X :: u256 where
  "B8_X = 5299619240641551281634865583518297030282874472190772894086521144482721001553"

definition B8_Y :: u256 where
  "B8_Y = 16950150798460657717958625567821834550301663161624707787222815936182638968203"

definition b8 :: "'f::field bj_point" where
  "b8 = \<lparr>bp_x = fr_from_u256 B8_X, bp_y = fr_from_u256 B8_Y\<rparr>"

section \<open>Keys and signatures\<close>

text \<open>\<open>blake\<close> is Blake-512.\<close>

definition scalar_key :: "(bytes \<Rightarrow> bytes) \<Rightarrow> key32 \<Rightarrow> nat" where
  "scalar_key blake key =
     (let h = take 32 (blake key);
          h = h[0 := h ! 0 AND 0xF8];
          h = h[31 := h ! 31 AND 0x7F];
          h = h[31 := h ! 31 OR 0x40]
      in le_nat h div 8)"

definition public_point :: "(bytes \<Rightarrow> bytes) \<Rightarrow> key32 \<Rightarrow> 'f::field bj_point" where
  "public_point blake key = mul_scalar b8 (scalar_key blake key)"

definition spending_public_key :: "'f::field field_lib \<Rightarrow> (bytes \<Rightarrow> bytes) \<Rightarrow> key32 \<Rightarrow> babyjubjub_point" where
  "spending_public_key L blake key =
     (let public = public_point blake key
      in \<lparr>pt_x = fl_to_u256 L (bp_x public), pt_y = fl_to_u256 L (bp_y public)\<rparr>)"

record 'f signature =
  r_b8 :: "'f bj_point"
  sig_s :: nat

datatype sign_error = MsgOutsideField | MsgNotFieldElement | SignPoseidon poseidon_error

text \<open>\<^verbatim>\<open>Fr::from_str\<close> on the decimal text of an integer: a minus sign is refused.\<close>

definition fr_from_integer :: "int \<Rightarrow> sign_error + 'f::field" where
  "fr_from_integer msg = (if msg < 0 then Inl MsgNotFieldElement else Inr (of_nat (nat msg)))"

definition sign ::
  "'f::field poseidon_engine \<Rightarrow> (bytes \<Rightarrow> bytes) \<Rightarrow> key32 \<Rightarrow> int \<Rightarrow> sign_error exn + 'f signature" where
  "sign P blake key msg =
     (if msg \<ge> int (unat FIELD_Q) then Inl (Err MsgOutsideField)
      else
        let suborder = unat (drop_bit 3 ORDER);
            h = blake key;
            msg_bytes = to_bytes_le (nat \<bar>msg\<bar>)
        in if 32 < length msg_bytes then Inl Panic
        else
          let msg32 = msg_bytes @ replicate (32 - length msg_bytes) 0;
              r = le_nat (blake (take 32 (drop 32 h) @ msg32)) mod suborder;
              r_b8 = mul_scalar b8 r;
              pk = public_point blake key
          in res_bind (map_err Err (fr_from_integer msg)) (\<lambda>msg_fr.
             res_bind (map_err (map_exn SignPoseidon)
               (poseidon_hash (pe_field P) (pe_mds_bin P) (pe_rc_bin P) [bp_x r_b8, bp_y r_b8, bp_x pk, bp_y pk, msg_fr])) (\<lambda>hm.
             let s = (scalar_key blake key * 8 * unat (fl_to_u256 (pe_field P) hm) + r) mod suborder
             in Inr \<lparr>r_b8 = r_b8, sig_s = s\<rparr>)))"

section \<open>Bits of a scalar\<close>

lemma less_power_bytes: "n < 256 ^ length (to_bytes_le n)"
proof (induction n rule: to_bytes_le.induct)
  case (1 n)
  then show ?case by (auto simp: to_bytes_le.simps [of n] div_less_iff_less_mult mult.commute)
qed

lemma bit_count_le: "bit_count n \<le> k \<longleftrightarrow> n < 2 ^ k"
proof (induction n arbitrary: k rule: bit_count.induct)
  case (1 n)
  show ?case
  proof (cases k)
    case 0
    then show ?thesis by (simp add: bit_count.simps [of n])
  next
    case (Suc j)
    have "n div 2 < 2 ^ j \<longleftrightarrow> n < 2 ^ Suc j" by (simp add: div_less_iff_less_mult mult.commute)
    then show ?thesis using 1 [of j] Suc by (auto simp: bit_count.simps [of n])
  qed
qed

lemma bit_count_bytes: "i < bit_count n \<Longrightarrow> i div 8 < length (to_bytes_le n)"
proof -
  have "n < 2 ^ (8 * length (to_bytes_le n))"
    using less_power_bytes [of n] by (simp add: power_mult)
  then have "bit_count n \<le> 8 * length (to_bytes_le n)" by (simp add: bit_count_le)
  then show "i < bit_count n \<Longrightarrow> i div 8 < length (to_bytes_le n)" by simp
qed

lemma test_bit_to_bytes:
  "i div 8 < length (to_bytes_le n) \<Longrightarrow> test_bit (to_bytes_le n) i \<longleftrightarrow> odd (n div 2 ^ i)"
proof (induction n arbitrary: i rule: to_bytes_le.induct)
  case (1 n)
  have head: "(of_nat n :: byte) AND push_bit i 1 \<noteq> 0 \<longleftrightarrow> odd (n div 2 ^ i)" if "i < 8"
    using that unfolding bit_iff_and_push_bit_not_eq_0 [symmetric] by (simp add: bit_of_nat_iff bit_nat_def)
  show ?case
  proof (cases "i < 8")
    case True
    then show ?thesis using head by (auto simp: test_bit_def to_bytes_le.simps [of n])
  next
    case False
    then obtain j where j: "i = 8 + j" by (metis le_add_diff_inverse not_less)
    then have big: "\<not> n < 256" using 1(2) by (auto simp: to_bytes_le.simps [of n] split: if_splits)
    have "j div 8 < length (to_bytes_le (n div 256))"
      using 1(2) big by (simp add: j to_bytes_le.simps [of n])
    from 1(1) [OF big this] show ?thesis
      using big by (simp add: j test_bit_def to_bytes_le.simps [of n] power_add div_mult2_eq)
  qed
qed

section \<open>Projective points represent affine ones\<close>

definition coords :: "'f bj_point \<Rightarrow> 'f affine" where
  "coords p = (bp_x p, bp_y p)"

abbreviation curve_a :: "'f::field" where "curve_a \<equiv> fr_from_u64 COEFF_A"

abbreviation curve_d :: "'f::field" where "curve_d \<equiv> fr_from_u64 COEFF_D"

definition represents :: "'f::field bj_projective \<Rightarrow> 'f affine \<Rightarrow> bool" where
  "represents p P \<longleftrightarrow> pj_z p \<noteq> 0 \<and> coords (affine p) = P"

lemma represents_iff:
  "represents p (x, y) \<longleftrightarrow> pj_z p \<noteq> 0 \<and> pj_x p = x * pj_z p \<and> pj_y p = y * pj_z p"
  by (auto simp: represents_def coords_def affine_def Let_def field_simps)

lemma proj_add_represents:
  fixes p q :: "'f::field bj_projective"
  assumes C: "complete_curve (curve_a :: 'f) curve_d"
    and p: "represents p P" "on_curve curve_a curve_d P" and q: "represents q Q" "on_curve curve_a curve_d Q"
  shows "represents (proj_add p q) (ed_add curve_a curve_d P Q)"
proof -
  obtain x1 y1 x2 y2 where PQ: "P = (x1, y1)" "Q = (x2, y2)" by (cases P; cases Q)
  let ?e = "curve_d * x1 * x2 * y1 * y2" and ?z = "pj_z p * pj_z q"
  have dens: "1 + ?e \<noteq> 0" "1 - ?e \<noteq> 0"
    using delta_denominators [OF C p(2) [unfolded PQ] q(2) [unfolded PQ]] by simp_all
  have coord: "pj_x p = x1 * pj_z p" "pj_y p = y1 * pj_z p" "pj_x q = x2 * pj_z q" "pj_y q = y2 * pj_z q"
    and z: "?z \<noteq> 0" using p(1) q(1) by (simp_all add: PQ represents_iff)
  let ?f = "?z^2 * (1 - ?e)" and ?g = "?z^2 * (1 + ?e)"
  have sum: "proj_add p q = \<lparr>pj_x = ?z * ?f * (?z * (x1 * y2 + y1 * x2)),
      pj_y = ?z * ?g * (?z * (y1 * y2 - curve_a * x1 * x2)), pj_z = ?f * ?g\<rparr>"
    by (simp add: proj_add_def Let_def coord power2_eq_square algebra_simps)
  have nz: "?f * ?g \<noteq> 0" using dens z by simp
  have x: "?z * ?f * (?z * u) = u / (1 + ?e) * (?f * ?g)" for u
    using dens(1) by (simp add: power2_eq_square)
  have y: "?z * ?g * (?z * u) = u / (1 - ?e) * (?f * ?g)" for u
    using dens(2) by (simp add: power2_eq_square)
  show ?thesis
    unfolding sum PQ ed_add_def prod.case represents_iff bj_projective.simps
    by (intro conjI nz x y)
qed

text \<open>The loop adds the multiples of \<open>exp\<close> that the bits from \<open>i\<close> on select.\<close>

lemma mul_loop_represents:
  fixes r exp' :: "'f::field bj_projective"
  assumes C: "complete_curve (curve_a :: 'f) curve_d"
  assumes "represents r R" "on_curve curve_a curve_d R" and "represents exp' E" "on_curve curve_a curve_d E"
    and "\<And>j. i \<le> j \<Longrightarrow> j < i + k \<Longrightarrow> test_bit bs j \<longleftrightarrow> odd (n div 2 ^ j)"
  shows "represents (mul_loop bs [i..<i + k] r exp')
    (ed_add curve_a curve_d R (ed_mult curve_a curve_d (n div 2 ^ i mod 2 ^ k) E))"
  using assms(2-)
proof (induction k arbitrary: i r R exp' E)
  case 0
  then show ?case by simp
next
  case (Suc k)
  let ?add = "ed_add curve_a curve_d" and ?mult = "ed_mult curve_a curve_d"
  let ?b = "odd (n div 2 ^ i)" and ?v = "n div 2 ^ Suc i mod 2 ^ k"
  let ?r = "if ?b then proj_add r exp' else r" and ?R = "if ?b then ?add R E else R"
  have bit: "test_bit bs i \<longleftrightarrow> ?b" using Suc.prems(5) by simp
  have r: "represents ?r ?R" "on_curve curve_a curve_d ?R"
    using proj_add_represents [OF C] on_curve_add [OF C] Suc.prems by simp_all
  have e: "represents (proj_add exp' exp') (?add E E)" "on_curve curve_a curve_d (?add E E)"
    using proj_add_represents [OF C] on_curve_add [OF C] Suc.prems by simp_all
  have "represents (mul_loop bs [Suc i..<Suc i + k] ?r (proj_add exp' exp')) (?add ?R (?mult ?v (?add E E)))"
    by (rule Suc.IH [OF r e]) (use Suc.prems(5) in simp)
  then have "represents (mul_loop bs [i..<i + Suc k] r exp') (?add ?R (?mult ?v (?add E E)))"
    by (subst upt_conv_Cons) (simp_all add: bit)
  moreover have "n div 2 ^ i mod 2 ^ Suc k = (if ?b then 1 else 0) + 2 * ?v"
  proof -
    have "n div 2 ^ Suc i = n div 2 ^ i div 2" by (simp add: div_mult2_eq power_Suc2 del: power_Suc)
    then show ?thesis
      by (simp add: mod_mult2_eq odd_iff_mod_2_eq_one even_iff_mod_2_eq_zero)
  qed
  moreover have "?add ?R (?mult ?v (?add E E)) = ?add R (?mult ((if ?b then 1 else 0) + 2 * ?v) E)"
    using Suc.prems by (simp add: ed_mult_double [OF C] ed_mult_add [OF C] ed_add_assoc [OF C] on_curve_mult [OF C])
  ultimately show ?case by simp
qed

lemma mul_scalar_coords:
  fixes p :: "'f::field bj_point"
  assumes C: "complete_curve (curve_a :: 'f) curve_d" and "on_curve curve_a curve_d (coords p)"
  shows "coords (mul_scalar p n) = ed_mult curve_a curve_d n (coords p)"
proof -
  have "represents (projective p) (coords p)"
    by (simp add: projective_def represents_def coords_def affine_def)
  moreover have "represents \<lparr>pj_x = 0, pj_y = 1, pj_z = 1 :: 'f\<rparr> ed_zero"
    by (simp add: represents_def coords_def affine_def ed_zero_def)
  moreover have "n < 2 ^ bit_count n" using bit_count_le by blast
  ultimately have "represents (mul_loop (to_bytes_le n) [0..<bit_count n] \<lparr>pj_x = 0, pj_y = 1, pj_z = 1\<rparr> (projective p))
      (ed_mult curve_a curve_d n (coords p))"
    using mul_loop_represents [OF C, of "\<lparr>pj_x = 0, pj_y = 1, pj_z = 1\<rparr>" ed_zero "projective p" "coords p" 0
        "bit_count n" "to_bytes_le n" n] assms(2)
    by (simp add: test_bit_to_bytes bit_count_bytes)
  then show ?thesis by (simp add: mul_scalar_def represents_def)
qed

section \<open>The scalar of a key\<close>

lemma pruned_top: "64 \<le> unat ((b AND 0x7F) OR 0x40 :: byte)" "unat ((b AND 0x7F) OR 0x40 :: byte) < 128"
proof -
  have "(0x40 :: byte) \<le> (b AND 0x7F) OR 0x40"
    by (subst or.commute) (rule le_word_or2)
  then show "64 \<le> unat ((b AND 0x7F) OR 0x40 :: byte)" by (simp add: word_le_nat_alt)
  have "(b AND 0x7F) OR 0x40 = take_bit 7 (b OR 0x40)"
    by (simp add: take_bit_eq_mask mask_eq_exp_minus_1 bit.conj_disj_distrib2)
  then show "unat ((b AND 0x7F) OR 0x40 :: byte) < 128"
    using take_bit_nat_less_exp [of 7 "unat (b OR 0x40)"] by (simp only: unsigned_take_bit_eq) simp
qed

lemma le_nat_snoc: "le_nat (bs @ [b]) = unat b * 256 ^ length bs + le_nat bs"
  by (simp add: le_nat_def be_nat_Cons)

lemma scalar_key_range:
  assumes "32 \<le> length (blake key)"
  shows "2 ^ 251 \<le> scalar_key blake key \<and> scalar_key blake key < 2 ^ 252"
proof -
  define h where "h = (take 32 (blake key))[0 := take 32 (blake key) ! 0 AND 0xF8]"
  define b where "b = (h ! 31 AND 0x7F) OR 0x40"
  have len: "length h = 32" using assms by (simp add: h_def)
  have "h[31 := h ! 31 AND 0x7F, 31 := h[31 := h ! 31 AND 0x7F] ! 31 OR 0x40] = h[31 := b]"
    by (simp add: b_def len)
  also have "\<dots> = take 31 h @ [b]"
    using len by (simp add: upd_conv_take_nth_drop)
  finally have "scalar_key blake key = le_nat (take 31 h @ [b]) div 8"
    by (simp add: scalar_key_def Let_def h_def)
  moreover have "le_nat (take 31 h) < 256 ^ 31"
    using be_nat_less [of "rev (take 31 h)"] len by (simp add: le_nat_def)
  then have "64 * 256 ^ 31 \<le> le_nat (take 31 h @ [b])" "le_nat (take 31 h @ [b]) < 128 * 256 ^ 31"
    using pruned_top [of "h ! 31", folded b_def] len by (simp_all add: le_nat_snoc)
  ultimately show ?thesis by (simp add: less_mult_imp_div_less div_le_mono)
qed
section \<open>Signatures\<close>

abbreviation suborder :: nat where
  "suborder \<equiv> unat (drop_bit 3 ORDER)"

text \<open>What BabyJubJub's parameters are: a complete curve, and a base point on it whose order divides the suborder.\<close>

definition bjj_curve :: "'f::field itself \<Rightarrow> bool" where
  "bjj_curve f \<longleftrightarrow> complete_curve (curve_a :: 'f) curve_d \<and> on_curve (curve_a :: 'f) curve_d (coords b8)
     \<and> ed_mult (curve_a :: 'f) curve_d suborder (coords b8) = ed_zero"

lemma sign_Inr:
  fixes P :: "'f::field poseidon_engine"
  assumes "sign P blake key msg = Inr sig"
  obtains r hm where "r_b8 sig = mul_scalar b8 r"
    "poseidon_hash (pe_field P) (pe_mds_bin P) (pe_rc_bin P)
       [bp_x (r_b8 sig), bp_y (r_b8 sig), bp_x (public_point blake key), bp_y (public_point blake key), of_nat (nat msg)] = Inr hm"
    "sig_s sig = (scalar_key blake key * 8 * unat (fl_to_u256 (pe_field P) hm) + r) mod suborder" "0 \<le> msg"
  using assms
  by (auto simp: sign_def Let_def fr_from_integer_def split: if_splits)

section \<open>Properties\<close>

text \<open>C20: double-and-add in projective coordinates computes repeated addition on the curve. For a complete curve and
  a point on it, multiplying by \<open>n\<close> gives the affine point that adding it \<open>n\<close> times gives.\<close>

theorem mul_scalar_correct:
  fixes p :: "'f::field bj_point"
  assumes "complete_curve (curve_a :: 'f) curve_d" and "on_curve curve_a curve_d (coords p)"
  shows "coords (mul_scalar p n) = ed_mult curve_a curve_d n (coords p)
    \<and> on_curve curve_a curve_d (coords (mul_scalar p n))"
  using mul_scalar_coords [OF assms] on_curve_mult [OF assms] by simp

lemma gf3_curve: "(curve_a :: gf3) = One3" "(curve_d :: gf3) = Zero3"
  unfolding fr_from_u64_def COEFF_A_def COEFF_D_def by (simp_all, code_simp+)

lemma gf3_complete: "complete_curve (curve_a :: gf3) curve_d"
proof -
  have "(2 :: gf3) = Two3" by code_simp
  then show ?thesis
    unfolding gf3_curve complete_curve_def
    by (auto simp: zero_gf3_def one_gf3_def exI [of _ One3])
qed

lemma mul_scalar_correct_witness:
  "coords (mul_scalar \<lparr>bp_x = One3, bp_y = Zero3\<rparr> 7) = (Two3, Zero3)"
proof -
  have "on_curve curve_a curve_d (coords \<lparr>bp_x = One3, bp_y = Zero3\<rparr>)"
    unfolding gf3_curve by code_simp
  moreover have "ed_mult One3 Zero3 7 (One3, Zero3) = (Two3, Zero3)" by code_simp
  ultimately show ?thesis
    using mul_scalar_correct [OF gf3_complete, of "\<lparr>bp_x = One3, bp_y = Zero3\<rparr>" 7]
    by (simp add: gf3_curve coords_def)
qed

text \<open>Pruning a 64-byte digest always gives a scalar of exactly 252 bits, so no spending key is weak.\<close>

theorem scalar_key_bounds:
  assumes "32 \<le> length (blake key)"
  shows "2 ^ 251 \<le> scalar_key blake key \<and> scalar_key blake key < 2 ^ 252"
  using assms by (rule scalar_key_range)

lemma scalar_key_bounds_witness:
  "2 ^ 251 \<le> scalar_key (\<lambda>k. k @ k) (replicate 32 255)"
  using scalar_key_bounds [of "\<lambda>k. k @ k" "replicate 32 255"] by simp


lemma sign_total:
  assumes "\<And>a b c d e. \<exists>h. poseidon_hash (pe_field P) (pe_mds_bin P) (pe_rc_bin P) [a, b, c, d, e] = Inr h"
    and "0 \<le> msg" and "msg < int (unat FIELD_Q)" and "length (to_bytes_le (nat msg)) \<le> 32"
  shows "\<exists>sig. sign P blake key msg = Inr sig"
proof -
  let ?r = "mul_scalar b8 (le_nat (blake (take 32 (drop 32 (blake key)) @ to_bytes_le (nat msg)
    @ replicate (32 - length (to_bytes_le (nat msg))) 0)) mod suborder)" and ?pk = "public_point blake key"
  obtain h where "poseidon_hash (pe_field P) (pe_mds_bin P) (pe_rc_bin P)
      [bp_x ?r, bp_y ?r, bp_x ?pk, bp_y ?pk, of_nat (nat msg)] = Inr h"
    using assms(1) by blast
  then show ?thesis
    using assms(2-4) by (simp add: sign_def Let_def fr_from_integer_def del: of_nat_nat)
qed

lemma gf7_curve: "bjj_curve TYPE(gf7)"
proof -
  have coeffs: "(curve_a :: gf7) = E0" "(curve_d :: gf7) = E3"
    unfolding fr_from_u64_def COEFF_A_def COEFF_D_def by (simp_all, code_simp+)
  have base: "coords (b8 :: gf7 bj_point) = ed_zero"
    unfolding b8_def fr_from_u256_def B8_X_def B8_Y_def coords_def ed_zero_def by (simp, code_simp)
  have square: "E3 * (s * s) \<noteq> 1" for s
    unfolding gf7_eq_iff code7_ops by (cases s) simp_all
  have "(2 :: gf7) \<noteq> 0" "E0 * E0 = E0" by code_simp+
  then have "(2 :: gf7) \<noteq> 0" "\<exists>c. c * c = E0" by blast+
  then show ?thesis
    unfolding bjj_curve_def base coeffs complete_curve_def using square by auto
qed


end
