(* ===== verification/Derivation_Path.thy ===== *)
theory Derivation_Path
  imports Domain
begin

text \<open>
  Hardened derivation paths, \<^verbatim>\<open>types/src/derivation.rs\<close>: the fixed array of at most eight segments, its
  text and the parser. The parser walks the bytes of the text by an index in two nested loops; the
  lemmas turn both into statements about the rest of the text, and the parser property gives the exact
  grammar it accepts.
\<close>

section \<open>Definitions\<close>

definition MAX_DERIVATION_DEPTH :: nat where
  "MAX_DERIVATION_DEPTH = 8"

type_synonym account_index = u32

record derivation_path =
  path_segments :: "u32 list"
  path_len :: nat

text \<open>\<^verbatim>\<open>None\<close> is the panic of the slice \<^verbatim>\<open>out[..N]\<close> when \<^verbatim>\<open>N\<close> is over the depth.\<close>

definition from_segments :: "u32 list \<Rightarrow> derivation_path option" where
  "from_segments segs =
     (if length segs \<le> MAX_DERIVATION_DEPTH
      then Some \<lparr>path_segments = segs @ replicate (MAX_DERIVATION_DEPTH - length segs) 0,
                 path_len = length segs\<rparr>
      else None)"

definition spending_path :: "account_index \<Rightarrow> derivation_path option" where
  "spending_path i = from_segments [44, 1984, 0, 0, i]"

definition viewing_path :: "account_index \<Rightarrow> derivation_path option" where
  "viewing_path i = from_segments [420, 1984, 0, 0, i]"

definition segments :: "derivation_path \<Rightarrow> u32 list" where
  "segments p = take (path_len p) (path_segments p)"

definition is_ascii_digit :: "byte \<Rightarrow> bool" where
  "is_ascii_digit b \<longleftrightarrow> 48 \<le> b \<and> b \<le> 57"

text \<open>The inner loop: the digits of one segment. The result is the value, \<^verbatim>\<open>saw_digit\<close> and the index.\<close>

function scan_digits ::
  "bytes \<Rightarrow> nat \<Rightarrow> u32 \<Rightarrow> bool \<Rightarrow> derivation_path_error + u32 \<times> bool \<times> nat" where
  "scan_digits bs idx acc saw =
     (if idx < length bs \<and> is_ascii_digit (bs ! idx) then
        case push_digit 10 acc (ucast (bs ! idx - 48)) of
          None \<Rightarrow> Inl InvalidDerivationPath
        | Some v \<Rightarrow> scan_digits bs (idx + 1) v True
      else Inr (acc, saw, idx))"
  by pat_completeness auto
termination
  by (relation "measure (\<lambda>(bs, idx, acc, saw). length bs - idx)") auto

declare scan_digits.simps [simp del]

lemma scan_digits_index:
  "scan_digits bs idx acc saw = Inr (v, saw', idx') \<Longrightarrow> idx \<le> idx'"
proof (induction bs idx acc saw rule: scan_digits.induct)
  case (1 bs idx acc saw)
  then show ?case
    by (fastforce simp: scan_digits.simps [of bs idx] split: if_splits option.splits)
qed

text \<open>The outer loop, on the array of segments and its length.\<close>

function parse_segments ::
  "bytes \<Rightarrow> nat \<Rightarrow> u32 list \<Rightarrow> nat \<Rightarrow> derivation_path_error + derivation_path" where
  "parse_segments bs idx segs len =
     (if idx < length bs then
        if len = MAX_DERIVATION_DEPTH then Inl DerivationPathTooDeep
        else case scan_digits bs idx 0 False of
          Inl e \<Rightarrow> Inl e
        | Inr (v, saw_digit, idx1) \<Rightarrow>
            if \<not> saw_digit \<or> idx1 \<ge> length bs \<or> bs ! idx1 \<noteq> 39 then Inl InvalidDerivationPath
            else
              let idx2 = idx1 + 1; segs' = segs[len := v]; len' = len + 1 in
              if idx2 = length bs then Inr \<lparr>path_segments = segs', path_len = len'\<rparr>
              else if bs ! idx2 \<noteq> 47 then Inl InvalidDerivationPath
              else parse_segments bs (idx2 + 1) segs' len'
      else Inr \<lparr>path_segments = segs, path_len = len\<rparr>)"
  by pat_completeness auto
termination
  by (relation "measure (\<lambda>(bs, idx, segs, len). length bs - idx)") (auto dest: scan_digits_index)

declare parse_segments.simps [simp del]

definition path_from_str :: "bytes \<Rightarrow> derivation_path_error + derivation_path" where
  "path_from_str path =
     (if path = [109] then
        Inr \<lparr>path_segments = replicate MAX_DERIVATION_DEPTH 0, path_len = 0\<rparr>
      else if length path < 4 \<or> path ! 0 \<noteq> 109 \<or> path ! 1 \<noteq> 47 then Inl InvalidDerivationPath
      else parse_segments path 2 (replicate MAX_DERIVATION_DEPTH 0) 0)"

text \<open>\<^verbatim>\<open>u32\<close>'s \<^verbatim>\<open>Display\<close>, and the path's.\<close>

fun decimal :: "nat \<Rightarrow> bytes" where
  "decimal n = (if n < 10 then [of_nat (48 + n)]
     else decimal (n div 10) @ [of_nat (48 + n mod 10)])"

declare decimal.simps [simp del]

definition path_display :: "derivation_path \<Rightarrow> bytes" where
  "path_display p = 109 # concat (map (\<lambda>s. 47 # decimal (unat s) @ [39]) (segments p))"

section \<open>Decimal text\<close>

definition digit_value :: "byte \<Rightarrow> nat" where
  "digit_value b = unat b - 48"

definition value10 :: "nat \<Rightarrow> bytes \<Rightarrow> nat" where
  "value10 = foldl (\<lambda>a b. a * 10 + digit_value b)"

lemma value10_simps [simp]:
  "value10 a [] = a"
  "value10 a (b # bs) = value10 (a * 10 + digit_value b) bs"
  "value10 a (bs @ cs) = value10 (value10 a bs) cs"
  by (simp_all add: value10_def)

lemma value10_mono: "a \<le> value10 a bs"
proof (induction bs arbitrary: a)
  case (Cons b bs)
  have "a \<le> a * 10 + digit_value b" by simp
  also have "\<dots> \<le> value10 a (b # bs)" using Cons by simp
  finally show ?case .
qed simp

lemma is_ascii_digit_unat: "is_ascii_digit b \<longleftrightarrow> 48 \<le> unat b \<and> unat b \<le> 57"
  by (simp add: is_ascii_digit_def word_le_nat_alt)

lemma digit_minus:
  assumes "is_ascii_digit b"
  shows "unat (ucast (b - 48) :: u32) = digit_value b"
proof -
  have "unat (b - 48) = unat b - 48"
    using assms by (simp add: is_ascii_digit_def unat_sub)
  moreover have "unat (ucast (b - 48) :: u32) = unat (b - 48)"
    using unsigned_less [of "b - 48", where 'a = nat] by (intro unat_ucast_small) simp
  ultimately show ?thesis by (simp add: digit_value_def)
qed

lemma digit_of_nat:
  "d < 10 \<Longrightarrow> is_ascii_digit (of_nat (48 + d)) \<and> digit_value (of_nat (48 + d)) = d"
  using unat_of_nat_small [of "48 + d", where 'a = 8]
  by (simp add: is_ascii_digit_unat digit_value_def del: of_nat_add)

lemma decimal_digits: "list_all is_ascii_digit (decimal n) \<and> decimal n \<noteq> [] \<and> value10 0 (decimal n) = n"
proof (induction n rule: decimal.induct)
  case (1 n)
  then show ?case
    using digit_of_nat [of n] digit_of_nat [of "n mod 10"]
    by (cases "n < 10") (simp_all add: decimal.simps [of n] del: of_nat_add)
qed

section \<open>The loops on the rest of the text\<close>

lemma scan_digits_eq:
  "scan_digits bs idx acc saw =
     (let ds = takeWhile is_ascii_digit (drop idx bs); n = value10 (unat acc) ds
      in if n < 2 ^ 32 then Inr (of_nat n, saw \<or> ds \<noteq> [], idx + length ds)
         else Inl InvalidDerivationPath)"
proof (induction bs idx acc saw rule: scan_digits.induct)
  case (1 bs idx acc saw)
  have acc: "unat acc < 2 ^ 32" using unsigned_less [of acc, where 'a = nat] by simp
  show ?case
  proof (cases "idx < length bs \<and> is_ascii_digit (bs ! idx)")
    case False
    then have "takeWhile is_ascii_digit (drop idx bs) = []"
      by (cases "idx < length bs") (simp_all add: Cons_nth_drop_Suc [symmetric])
    with False acc show ?thesis by (auto simp: scan_digits.simps [of bs idx])
  next
    case True
    let ?b = "bs ! idx" and ?ds = "takeWhile is_ascii_digit (drop (idx + 1) bs)"
    let ?n = "unat acc * 10 + digit_value ?b"
    have ds: "takeWhile is_ascii_digit (drop idx bs) = ?b # ?ds"
      using True by (simp add: Cons_nth_drop_Suc [symmetric])
    have push: "push_digit 10 acc (ucast (?b - 48)) = (if ?n < 2 ^ 32 then Some (of_nat ?n) else None)"
      using True by (simp add: push_digit_eq digit_minus del: of_nat_add of_nat_mult)
    show ?thesis
    proof (cases "?n < 2 ^ 32")
      case n: True
      then have "unat (of_nat ?n :: u32) = ?n" by (intro unat_of_nat_small) simp
      with True n ds push "1.IH" [of "of_nat ?n"] show ?thesis
        by (simp add: scan_digits.simps [of bs idx] Let_def del: of_nat_add of_nat_mult)
    next
      case False
      then have "\<not> value10 ?n ?ds < 2 ^ 32" using value10_mono [of ?n ?ds] by simp
      with True False ds push show ?thesis
        by (simp add: scan_digits.simps [of bs idx] Let_def)
    qed
  qed
qed
section \<open>The grammar\<close>

text \<open>A segment is a non-empty run of digits whose value fits \<^verbatim>\<open>u32\<close>; each is closed by a quote and a
  slash, the last slash optional.\<close>

definition segment_ok :: "bytes \<Rightarrow> bool" where
  "segment_ok d \<longleftrightarrow> d \<noteq> [] \<and> list_all is_ascii_digit d \<and> value10 0 d < 2 ^ 32"

definition segments_text :: "bytes list \<Rightarrow> bytes" where
  "segments_text ds = concat (map (\<lambda>d. d @ [39, 47]) ds)"

definition segment_value :: "bytes \<Rightarrow> u32" where
  "segment_value d = of_nat (value10 0 d)"

definition rest_parses :: "bytes \<Rightarrow> u32 list \<Rightarrow> nat \<Rightarrow> derivation_path \<Rightarrow> bool" where
  "rest_parses r segs len p \<longleftrightarrow> (\<exists>ds. (r = segments_text ds \<or> r @ [47] = segments_text ds)
     \<and> len + length ds \<le> 8 \<and> list_all segment_ok ds
     \<and> p = \<lparr>path_segments = take len segs @ map segment_value ds @ drop (len + length ds) segs,
            path_len = len + length ds\<rparr>)"

lemma segments_text_simps [simp]:
  "segments_text [] = []"
  "segments_text (d # ds) = d @ 39 # 47 # segments_text ds"
  by (simp_all add: segments_text_def)

lemma segments_text_eq_Nil [simp]: "segments_text ds = [] \<longleftrightarrow> ds = []" "[] = segments_text ds \<longleftrightarrow> ds = []"
  by (cases ds; simp)+

lemma segments_text_snoc: "segments_text ds \<noteq> [] \<Longrightarrow> \<exists>r. segments_text ds = r @ [47]"
proof (induction ds)
  case (Cons d ds)
  show ?case
  proof (cases "ds = []")
    case True
    then show ?thesis by (intro exI [of _ "d @ [39]"]) simp
  next
    case False
    with Cons obtain r where "segments_text ds = r @ [47]" by auto
    then show ?thesis by (intro exI [of _ "d @ 39 # 47 # r"]) simp
  qed
qed simp

lemma segments_text_not_slash [simp]: "[47] \<noteq> segments_text ds"
  by (cases ds) (auto simp: append_eq_Cons_conv Cons_eq_append_conv)

lemma takeWhile_segment:
  "segment_ok d \<Longrightarrow> takeWhile is_ascii_digit (d @ 39 # x) = d"
  by (simp add: segment_ok_def takeWhile_append list_all_iff is_ascii_digit_def)

lemma segments_text_Cons_rest:
  "(r = segments_text (d # ds) \<or> r @ [47] = segments_text (d # ds)) \<longleftrightarrow>
     (\<exists>x. r = d @ 39 # x \<and> (x = [] \<and> ds = []
        \<or> (\<exists>r'. x = 47 # r' \<and> (r' = segments_text ds \<or> r' @ [47] = segments_text ds))))"
proof (cases "ds = []")
  case True
  have "r @ [47] = d @ [39, 47] \<longleftrightarrow> r = d @ [39]"
    using append1_eq_conv [of r 47 "d @ [39]" 47] by simp
  with True show ?thesis by auto
next
  case False
  then obtain u where u: "segments_text ds = u @ [47]"
    using segments_text_snoc [of ds] by auto
  have "r @ [47] = d @ 39 # 47 # u @ [47] \<longleftrightarrow> r = d @ 39 # 47 # u"
    using append1_eq_conv [of r 47 "d @ 39 # 47 # u" 47] by simp
  with u False show ?thesis by auto
qed

lemma rest_parses_Nil:
  "length segs = 8 \<Longrightarrow> len \<le> 8 \<Longrightarrow> rest_parses [] segs len p \<longleftrightarrow> p = \<lparr>path_segments = segs, path_len = len\<rparr>"
  by (auto simp: rest_parses_def)

lemma segs_update:
  assumes "len < length segs"
  shows "take (Suc len) (segs[len := v]) @ xs @ drop (Suc len + n) (segs[len := v])
    = take len segs @ v # xs @ drop (Suc len + n) segs"
  using assms by (simp add: take_Suc_conv_app_nth drop_update_cancel)

lemma rest_parses_step:
  assumes "r \<noteq> []" and "length segs = 8" and "len \<le> 8"
    and d: "d = takeWhile is_ascii_digit r"
  shows "rest_parses r segs len p \<longleftrightarrow> len < 8 \<and> segment_ok d
    \<and> (\<exists>x. r = d @ 39 # x \<and> (let segs' = segs[len := segment_value d] in
         x = [] \<and> p = \<lparr>path_segments = segs', path_len = Suc len\<rparr>
         \<or> (\<exists>r'. x = 47 # r' \<and> rest_parses r' segs' (Suc len) p)))"
    (is "?l \<longleftrightarrow> ?r")
proof
  assume ?l
  then obtain ds0 where ds0: "r = segments_text ds0 \<or> r @ [47] = segments_text ds0"
    "len + length ds0 \<le> 8" "list_all segment_ok ds0"
    "p = \<lparr>path_segments = take len segs @ map segment_value ds0 @ drop (len + length ds0) segs,
            path_len = len + length ds0\<rparr>"
    unfolding rest_parses_def by blast
  with assms(1) obtain d' ds where [simp]: "ds0 = d' # ds" by (cases ds0) auto
  from ds0(1) obtain x where x: "r = d' @ 39 # x" and alt: "x = [] \<and> ds = []
        \<or> (\<exists>r'. x = 47 # r' \<and> (r' = segments_text ds \<or> r' @ [47] = segments_text ds))"
    using segments_text_Cons_rest [of r d' ds] by auto
  have d': "d' = d" using ds0(3) x d takeWhile_segment [of d' x] by simp
  have "len < 8" using ds0(2) by simp
  moreover have "p = \<lparr>path_segments = take (Suc len) (segs[len := segment_value d])
      @ map segment_value ds @ drop (Suc len + length ds) (segs[len := segment_value d]),
      path_len = Suc len + length ds\<rparr>"
    using ds0(4) d' assms(2) \<open>len < 8\<close> segs_update [of len segs] by simp
  ultimately show ?r
    using ds0(2,3) x d' alt assms(2) unfolding rest_parses_def Let_def
    by (auto simp: take_Suc_conv_app_nth upd_conv_take_nth_drop)
next
  assume r: ?r
  then obtain x where x: "r = d @ 39 # x" and len: "len < 8" and ok: "segment_ok d"
    and alt: "x = [] \<and> p = \<lparr>path_segments = segs[len := segment_value d], path_len = Suc len\<rparr>
         \<or> (\<exists>r'. x = 47 # r' \<and> rest_parses r' (segs[len := segment_value d]) (Suc len) p)"
    by (auto simp: Let_def)
  from alt obtain ds where ds: "x = [] \<and> ds = []
        \<or> (\<exists>r'. x = 47 # r' \<and> (r' = segments_text ds \<or> r' @ [47] = segments_text ds))"
    "Suc len + length ds \<le> 8" "list_all segment_ok ds"
    "p = \<lparr>path_segments = take (Suc len) (segs[len := segment_value d])
      @ map segment_value ds @ drop (Suc len + length ds) (segs[len := segment_value d]),
      path_len = Suc len + length ds\<rparr>"
  proof (elim disjE exE conjE)
    assume "x = []" and "p = \<lparr>path_segments = segs[len := segment_value d], path_len = Suc len\<rparr>"
    moreover have "take (Suc len) (segs[len := segment_value d]) @ drop (Suc len) segs
        = segs[len := segment_value d]"
      using append_take_drop_id [of "Suc len" "segs[len := segment_value d]"] by simp
    ultimately show thesis using that [of "[]"] len by simp
  next
    fix r'
    assume "x = 47 # r'" and "rest_parses r' (segs[len := segment_value d]) (Suc len) p"
    then show thesis using that unfolding rest_parses_def by blast
  qed
  have "r = segments_text (d # ds) \<or> r @ [47] = segments_text (d # ds)"
    unfolding segments_text_Cons_rest using x ds(1) by blast
  moreover have "p = \<lparr>path_segments = take len segs @ map segment_value (d # ds) @ drop (len + length (d # ds)) segs,
            path_len = len + length (d # ds)\<rparr>"
    using ds(4) segs_update [of len segs] len assms(2) by simp
  ultimately show ?l
    unfolding rest_parses_def using ds(2,3) ok by (intro exI [of _ "d # ds"]) simp
qed

lemma drop_eq_Cons:
  "drop i bs = b # x \<longleftrightarrow> i < length bs \<and> bs ! i = b \<and> x = drop (Suc i) bs"
  by (cases "i < length bs") (auto simp: Cons_nth_drop_Suc [symmetric])

lemma parse_segments_eq:
  assumes "length segs = 8" and "len \<le> 8" and "idx \<le> length bs"
  shows "parse_segments bs idx segs len = Inr p \<longleftrightarrow> rest_parses (drop idx bs) segs len p"
  using assms
proof (induction bs idx segs len rule: parse_segments.induct)
  case (1 bs idx segs len)
  let ?r = "drop idx bs"
  let ?d = "takeWhile is_ascii_digit ?r"
  let ?i = "idx + length ?d"
  show ?case
  proof (cases "idx < length bs \<and> len < 8 \<and> value10 0 ?d < 2 ^ 32")
    case False
    then show ?thesis
      using "1.prems" rest_parses_Nil [of segs len p] rest_parses_step [of ?r segs len ?d p]
      by (auto simp: parse_segments.simps [of bs idx] scan_digits_eq Let_def segment_ok_def
          MAX_DERIVATION_DEPTH_def)
  next
    case True
    then have idx: "idx < length bs" and len: "len < 8" and val: "value10 0 ?d < 2 ^ 32" by simp_all
    have scan: "scan_digits bs idx 0 False = Inr (segment_value ?d, ?d \<noteq> [], ?i)"
      using val by (simp add: scan_digits_eq segment_value_def Let_def)
    have after: "drop ?i bs = drop (length ?d) ?r" by (simp add: add.commute)
    have digits: "list_all is_ascii_digit ?d" by (auto simp: list_all_iff dest: set_takeWhileD)
    have rdrop: "?r = ?d @ drop ?i bs"
      unfolding after by (metis takeWhile_dropWhile_id dropWhile_eq_drop)
    have ok: "segment_ok ?d \<longleftrightarrow> ?d \<noteq> []" using digits val by (simp add: segment_ok_def)
    have quote: "?r = ?d @ 39 # x \<longleftrightarrow> ?i < length bs \<and> bs ! ?i = 39 \<and> x = drop (Suc ?i) bs" for x
      using rdrop drop_eq_Cons [of ?i bs 39 x] by (metis same_append_eq)
    let ?segs = "segs[len := segment_value ?d]"
    have spec: "rest_parses ?r segs len p \<longleftrightarrow> ?d \<noteq> [] \<and> ?i < length bs \<and> bs ! ?i = 39
        \<and> (Suc ?i = length bs \<and> p = \<lparr>path_segments = ?segs, path_len = Suc len\<rparr>
          \<or> Suc ?i < length bs \<and> bs ! Suc ?i = 47 \<and> rest_parses (drop (Suc (Suc ?i)) bs) ?segs (Suc len) p)"
      using rest_parses_step [of ?r segs len ?d p] idx len "1.prems"
      by (auto simp: Let_def ok quote drop_eq_Cons)
    show ?thesis
      unfolding spec using idx len scan "1.IH" [OF idx _ scan refl refl] "1.prems"
      by (auto simp: parse_segments.simps [of bs idx] MAX_DERIVATION_DEPTH_def Let_def)
  qed
qed

section \<open>Properties\<close>

lemma segments_text_length: "segment_ok d \<Longrightarrow> 3 \<le> length (segments_text (d # ds))"
  by (cases d) (simp_all add: segment_ok_def)

lemma path_from_str_rest:
  "path_from_str s = Inr p \<longleftrightarrow>
     s = [109] \<and> p = \<lparr>path_segments = replicate 8 0, path_len = 0\<rparr>
     \<or> (\<exists>r. s = 109 # 47 # r \<and> r \<noteq> [] \<and> rest_parses r (replicate 8 0) 0 p)"
proof (cases "s = [109]")
  case True
  then show ?thesis by (auto simp: path_from_str_def MAX_DERIVATION_DEPTH_def)
next
  case s: False
  have short: False if r: "rest_parses r (replicate 8 0) 0 p" "length r < 2" "r \<noteq> []" for r
  proof -
    obtain ds where ds: "r = segments_text ds \<or> r @ [47] = segments_text ds" "list_all segment_ok ds"
      using r(1) unfolding rest_parses_def by blast
    with r(3) obtain d ds' where "ds = d # ds'" by (cases ds) auto
    with ds r(2) segments_text_length [of d ds'] show False by (auto dest: arg_cong [where f = length])
  qed
  show ?thesis
  proof (cases "\<exists>r. s = 109 # 47 # r \<and> 2 \<le> length r")
    case True
    then obtain r where r: "s = 109 # 47 # r" "2 \<le> length r" by blast
    then show ?thesis
      using parse_segments_eq [of "replicate 8 0" 0 2 s p]
      by (auto simp: path_from_str_def MAX_DERIVATION_DEPTH_def)
  next
    case False
    have "path_from_str s = Inl InvalidDerivationPath"
      using s False by (cases s; cases "tl s") (auto simp: path_from_str_def)
    with s False short show ?thesis by force
  qed
qed

lemma path_from_str_grammar:
  "path_from_str s = Inr p \<longleftrightarrow>
     (\<exists>ds. (s @ [47] = 109 # 47 # segments_text ds \<or> s = 109 # 47 # segments_text ds \<and> ds \<noteq> [])
       \<and> length ds \<le> 8 \<and> list_all segment_ok ds
       \<and> p = \<lparr>path_segments = map segment_value ds @ replicate (8 - length ds) 0, path_len = length ds\<rparr>)"
proof -
  define G where "G ds \<longleftrightarrow> (s @ [47] = 109 # 47 # segments_text ds \<or> s = 109 # 47 # segments_text ds \<and> ds \<noteq> [])
       \<and> length ds \<le> 8 \<and> list_all segment_ok ds
       \<and> p = \<lparr>path_segments = map segment_value ds @ replicate (8 - length ds) 0, path_len = length ds\<rparr>" for ds
  have nonempty: "\<exists>r. s = 109 # 47 # r \<and> r \<noteq> []" if G: "G ds" and ds: "ds \<noteq> []" for ds
  proof -
    obtain u where "segments_text ds = u @ [47]" and u: "u \<noteq> []"
      using ds segments_text_snoc [of ds] segments_text_not_slash [of ds] by fastforce
    then have "s @ [47] = (109 # 47 # u) @ [47] \<or> s = 109 # 47 # (u @ [47])"
      using G unfolding G_def by auto
    then have "s = 109 # 47 # u \<or> s = 109 # 47 # (u @ [47])"
      unfolding append1_eq_conv by blast
    then show ?thesis using u by blast
  qed
  have empty: "G [] \<longleftrightarrow> s = [109] \<and> p = \<lparr>path_segments = replicate 8 0, path_len = 0\<rparr>"
    using append1_eq_conv [of s 47 "[109]" 47] by (simp add: G_def)
  have rest: "(\<exists>ds. ds \<noteq> [] \<and> G ds) \<longleftrightarrow> rest_parses r (replicate 8 0) 0 p"
    if s: "s = 109 # 47 # r" and r: "r \<noteq> []" for r
  proof -
    have "ds \<noteq> [] \<and> G ds \<longleftrightarrow> (r = segments_text ds \<or> r @ [47] = segments_text ds)
     \<and> 0 + length ds \<le> 8 \<and> list_all segment_ok ds
     \<and> p = \<lparr>path_segments = take 0 (replicate 8 0) @ map segment_value ds @ drop (0 + length ds) (replicate 8 0),
            path_len = 0 + length ds\<rparr>" for ds
    proof (cases "ds = []")
      case True
      with r show ?thesis by simp
    next
      case False
      then show ?thesis unfolding G_def s by (simp add: disj_commute)
    qed
    then show ?thesis unfolding rest_parses_def by presburger
  qed
  have "path_from_str s = Inr p \<longleftrightarrow> (\<exists>ds. G ds)"
    unfolding path_from_str_rest using nonempty empty rest by metis
  then show ?thesis unfolding G_def .
qed

text \<open>C36: the derivation-path parser accepts exactly the texts of this grammar and returns the segments
  they denote: \<open>m\<close>, or \<open>m/\<close> and one to eight segments, each a non-empty run of decimal digits whose value
  fits 32 bits (leading zeros allowed) closed by a quote, separated by slashes, with an optional slash
  after the last.\<close>

theorem path_from_str_exact:
  "path_from_str s = Inr p \<longleftrightarrow>
     (\<exists>ds. (s @ [47] = 109 # 47 # segments_text ds \<or> s = 109 # 47 # segments_text ds \<and> ds \<noteq> [])
       \<and> length ds \<le> 8 \<and> list_all segment_ok ds
       \<and> p = \<lparr>path_segments = map segment_value ds @ replicate (8 - length ds) 0, path_len = length ds\<rparr>)"
  by (rule path_from_str_grammar)

lemma segment_ok_decimal: "segment_ok (decimal (unat (w :: u32))) \<and> segment_value (decimal (unat w)) = w"
  using decimal_digits [of "unat w"] unsigned_less [of w, where 'a = nat]
  by (simp add: segment_ok_def segment_value_def)

text \<open>Every path built from segments, the account paths included, is displayed as text that parses
  back to it, and its segments are the ones it was built from.\<close>

theorem path_display_parses:
  assumes "from_segments segs = Some p"
  shows "segments p = segs \<and> path_from_str (path_display p) = Inr p"
proof -
  let ?ds = "map (\<lambda>w. decimal (unat w)) segs"
  from assms have p: "length segs \<le> 8"
    "p = \<lparr>path_segments = segs @ replicate (8 - length segs) 0, path_len = length segs\<rparr>"
    by (auto simp: from_segments_def MAX_DERIVATION_DEPTH_def split: if_splits)
  then have segs: "segments p = segs" by (simp add: segments_def)
  have "concat (map (\<lambda>s. 47 # decimal (unat s) @ [39]) segs) @ [47] = 47 # segments_text ?ds"
    by (induction segs) simp_all
  then have "path_display p @ [47] = 109 # 47 # segments_text ?ds"
    by (simp add: path_display_def segs)
  moreover have "list_all segment_ok ?ds" "map segment_value ?ds = segs"
    by (induction segs) (simp_all add: segment_ok_decimal)
  ultimately have "path_from_str (path_display p) = Inr p"
    unfolding path_from_str_grammar using p by (intro exI [of _ ?ds]) simp
  with segs show ?thesis ..
qed

lemma path_display_parses_witness:
  "\<exists>p. spending_path 7 = Some p \<and> segments p = [44, 1984, 0, 0, 7]
     \<and> path_from_str (path_display p) = Inr p"
proof -
  obtain p where p: "from_segments [44, 1984, 0, 0, 7] = Some p"
    by (simp add: from_segments_def MAX_DERIVATION_DEPTH_def)
  with path_display_parses [OF p] show ?thesis by (simp add: spending_path_def)
qed

end
