(* ===== verification/Address.thy ===== *)
theory Address
  imports Domain
begin

text \<open>
  The \<^verbatim>\<open>0zk\<close> address of \<^verbatim>\<open>types/src/address.rs\<close>: a 73-byte payload (version, master key, masked network
  id, viewing key) under a bech32m envelope. The \<^verbatim>\<open>bech32\<close> crate is not part of the repository, so its
  \<^verbatim>\<open>encode\<close> and \<^verbatim>\<open>decode\<close> are the record \<open>bech32\<close>; the properties assume of it only that decoding what it
  encoded under the address prefix gives the prefix and the payload back.
\<close>

section \<open>Definitions\<close>

definition VERSION :: u8 where
  "VERSION = 1"

definition PREFIX :: string where
  "PREFIX = ''0zk''"

definition NETWORK_ID_XOR_KEY :: bytes where
  "NETWORK_ID_XOR_KEY = map of_char ''railgun'' @ [0]"

definition ALL_CHAINS_NETWORK_ID :: bytes where
  "ALL_CHAINS_NETWORK_ID = replicate 8 0xff"

definition CHAIN_TYPE_EVM :: u8 where
  "CHAIN_TYPE_EVM = 0"

datatype chain_id = AllChains | Evm u64

text \<open>\<open>bech_encode hrp data\<close> is \<^verbatim>\<open>bech32::encode::<Bech32m>\<close> (\<open>None\<close> its error), \<open>bech_decode text\<close> is
  \<^verbatim>\<open>bech32::decode\<close>, with the crate's \<^verbatim>\<open>DecodeError\<close> as \<open>'de\<close> and an \<^verbatim>\<open>Hrp\<close> as its lower-case text.\<close>

record 'de bech32 =
  bech_encode :: "string \<Rightarrow> bytes \<Rightarrow> string option"
  bech_decode :: "string \<Rightarrow> 'de + string \<times> bytes"

datatype 'de address_error =
    Bech32Decode 'de
  | InvalidPrefix string
  | BadLength nat
  | InvalidVersion u8
  | UnknownChainType u8

record railgun_address =
  addr_master_key :: poseidon_hash
  addr_viewing_pubkey :: key32
  addr_chain :: chain_id

fun to_network_id :: "chain_id \<Rightarrow> bytes" where
  "to_network_id AllChains = ALL_CHAINS_NETWORK_ID"
| "to_network_id (Evm i) = to_be_bytes (i AND 0x00ffffffffffffff)"

definition from_network_id :: "bytes \<Rightarrow> 'de address_error + chain_id" where
  "from_network_id bs =
     (if bs = ALL_CHAINS_NETWORK_ID then Inr AllChains
      else
        let v = (from_be_bytes bs :: u64);
            chain_type = (ucast (drop_bit 56 v) :: u8);
            i = v AND 0x00ffffffffffffff
        in if chain_type = CHAIN_TYPE_EVM then Inr (Evm i)
           else Inl (UnknownChainType chain_type))"

definition xor_network_id :: "bytes \<Rightarrow> bytes" where
  "xor_network_id bs = map2 (\<lambda>b key. b XOR key) bs NETWORK_ID_XOR_KEY"

definition from_public_keys :: "poseidon_hash \<Rightarrow> key32 \<Rightarrow> chain_id \<Rightarrow> railgun_address" where
  "from_public_keys mk vk c = \<lparr>addr_master_key = mk, addr_viewing_pubkey = vk, addr_chain = c\<rparr>"

definition address_payload :: "railgun_address \<Rightarrow> bytes" where
  "address_payload a =
     VERSION # to_be_bytes (addr_master_key a)
       @ xor_network_id (to_network_id (addr_chain a)) @ addr_viewing_pubkey a"

text \<open>\<^verbatim>\<open>Display\<close>; \<open>None\<close> is the \<^verbatim>\<open>expect\<close> on the encoder.\<close>

definition address_display :: "'de bech32 \<Rightarrow> railgun_address \<Rightarrow> string option" where
  "address_display B a = bech_encode B PREFIX (address_payload a)"

text \<open>\<^verbatim>\<open>FromStr\<close>. The two \<^verbatim>\<open>expect\<close>s are on slices whose lengths the check on 73 bytes fixes.\<close>

definition address_from_str :: "'de bech32 \<Rightarrow> string \<Rightarrow> 'de address_error exn + railgun_address" where
  "address_from_str B s =
     res_bind (map_err (\<lambda>e. Err (Bech32Decode e)) (bech_decode B s)) (\<lambda>(hrp, payload).
     if hrp \<noteq> PREFIX then Inl (Err (InvalidPrefix hrp))
     else if length payload \<noteq> 73 then Inl (Err (BadLength (length payload)))
     else if payload ! 0 \<noteq> VERSION then Inl (Err (InvalidVersion (payload ! 0)))
     else
       let network_id = xor_network_id (take 8 (drop 33 payload)) in
       res_bind (map_err Err (from_network_id network_id)) (\<lambda>chain.
       res_bind (map_err (\<lambda>_. Panic) (key_try_from_slice (take 32 (drop 41 payload)))) (\<lambda>viewing_pubkey.
       Inr \<lparr>addr_master_key = from_be_bytes (take 32 (drop 1 payload)),
            addr_viewing_pubkey = viewing_pubkey, addr_chain = chain\<rparr>)))"

text \<open>What the Rust types guarantee of an address.\<close>

definition wf_address :: "railgun_address \<Rightarrow> bool" where
  "wf_address a \<longleftrightarrow> length (addr_viewing_pubkey a) = 32"

text \<open>The chain id an address can carry: 56 bits of it.\<close>

fun truncate_chain :: "chain_id \<Rightarrow> chain_id" where
  "truncate_chain AllChains = AllChains"
| "truncate_chain (Evm i) = Evm (take_bit 56 i)"

section \<open>Lemmas\<close>

lemma mask_56: "(i :: u64) AND 0x00ffffffffffffff = take_bit 56 i"
  by (simp add: take_bit_eq_mask mask_eq_exp_minus_1)

lemma length_xor_key: "length NETWORK_ID_XOR_KEY = 8"
  by (simp add: NETWORK_ID_XOR_KEY_def)

lemma length_xor [simp]: "length (xor_network_id bs) = min (length bs) 8"
  by (simp add: xor_network_id_def length_xor_key)

lemma xor_xor: "length bs = 8 \<Longrightarrow> xor_network_id (xor_network_id bs) = bs"
  by (rule nth_equalityI) (simp_all add: xor_network_id_def length_xor_key xor.assoc)

lemma length_to_network_id [simp]: "length (to_network_id c) = 8"
  by (cases c) (simp_all add: ALL_CHAINS_NETWORK_ID_def)

lemma replicate_8: "replicate 8 x = [x, x, x, x, x, x, x, x]"
  by (simp add: eval_nat_numeral)

lemma all_chains_bytes: "ALL_CHAINS_NETWORK_ID = to_be_bytes (- 1 :: u64)"
proof -
  let ?bs = "[255, 255, 255, 255, 255, 255, 255, 255 :: byte]"
  have n: "be_nat ?bs = 2 ^ 64 - 1" by (simp add: be_nat_def)
  have "ALL_CHAINS_NETWORK_ID = ?bs" by (simp add: ALL_CHAINS_NETWORK_ID_def replicate_8)
  also have "\<dots> = be_bytes (length ?bs) (be_nat ?bs)" by (rule be_bytes_be_nat [symmetric])
  also have "\<dots> = to_be_bytes (- 1 :: u64)"
    unfolding n to_be_bytes_def
    by (rule arg_cong2 [where f = be_bytes]) (simp_all add: unat_minus_one)
  finally show ?thesis .
qed

lemma evm_not_all: "to_be_bytes (take_bit 56 (i :: u64)) \<noteq> ALL_CHAINS_NETWORK_ID"
proof -
  have "unat (take_bit 56 i) < 2 ^ 56"
    unfolding unsigned_take_bit_eq by (rule take_bit_nat_less_exp)
  then have "take_bit 56 i \<noteq> - 1" by (auto simp: unat_minus_one)
  then show ?thesis unfolding all_chains_bytes by simp
qed

lemma network_id_round: "from_network_id (to_network_id c) = Inr (truncate_chain c)"
proof (cases c)
  case AllChains
  then show ?thesis by (simp add: from_network_id_def)
next
  case (Evm i)
  have "drop_bit 56 (take_bit 56 i) = 0" by (simp add: drop_bit_take_bit)
  with Evm evm_not_all [of i] show ?thesis
    by (simp add: from_network_id_def mask_56 CHAIN_TYPE_EVM_def)
qed

lemma from_network_id_back:
  assumes "length bs = 8" and "from_network_id bs = Inr c"
  shows "to_network_id c = bs \<and> truncate_chain c = c"
proof (cases "bs = ALL_CHAINS_NETWORK_ID")
  case True
  with assms show ?thesis by (auto simp: from_network_id_def)
next
  case False
  let ?v = "from_be_bytes bs :: u64"
  from False assms have c: "c = Evm (take_bit 56 ?v)" and tag: "ucast (drop_bit 56 ?v) = (0 :: u8)"
    by (auto simp: from_network_id_def Let_def mask_56 CHAIN_TYPE_EVM_def split: if_splits)
  have "unat (drop_bit 56 ?v) = unat ?v div 2 ^ 56"
    unfolding unat_drop_bit_eq by (rule drop_bit_eq_div)
  then have "unat (drop_bit 56 ?v) < 2 ^ 8"
    using unsigned_less [of ?v, where 'a = nat] by simp
  then have "unat (ucast (drop_bit 56 ?v) :: u8) = unat (drop_bit 56 ?v)"
    by (intro unat_ucast_small) simp
  with tag have "drop_bit 56 ?v = 0" by (simp add: word_unat_eq_iff)
  then have "take_bit 56 ?v = ?v"
    using bits_ident [of 56 ?v] by simp
  with c assms(1) show ?thesis by (simp add: mask_56 to_from_be_bytes)
qed

lemma payload_fields:
  assumes "length vk = 32" and "length net = 8" and "length mk = 32"
  shows "take 32 (drop 1 (v # mk @ net @ vk)) = mk" "take 8 (drop 33 (v # mk @ net @ vk)) = net"
    "take 32 (drop 41 (v # mk @ net @ vk)) = vk"
  using assms by (simp_all add: numeral_eq_Suc)

lemma length_address_payload: "wf_address a \<Longrightarrow> length (address_payload a) = 73"
  by (simp add: address_payload_def wf_address_def)

lemma address_from_payload:
  assumes "wf_address a" and "bech_decode B s = Inr (PREFIX, address_payload a)"
  shows "address_from_str B s = Inr (a\<lparr>addr_chain := truncate_chain (addr_chain a)\<rparr>)"
proof -
  have vk: "length (addr_viewing_pubkey a) = 32" using assms(1) by (simp add: wf_address_def)
  show ?thesis
    using assms length_address_payload [OF assms(1)] vk
    by (simp add: address_from_str_def address_payload_def payload_fields xor_xor network_id_round
        key_try_from_slice_def)
qed

lemma address_parsed_fields:
  fixes B :: "'de bech32"
  assumes "address_from_str B s = Inr a"
  shows "wf_address a \<and> truncate_chain (addr_chain a) = addr_chain a
    \<and> bech_decode B s = Inr (PREFIX, address_payload a)"
proof -
  from assms obtain p where dec: "bech_decode B s = Inr (PREFIX, p)" and len: "length p = 73"
    and ver: "p ! 0 = VERSION"
    and chain: "(from_network_id (xor_network_id (take 8 (drop 33 p))) :: 'de address_error + chain_id)
        = Inr (addr_chain a)"
    and mk: "addr_master_key a = from_be_bytes (take 32 (drop 1 p))"
    and vk: "addr_viewing_pubkey a = take 32 (drop 41 p)"
    by (auto simp: address_from_str_def key_try_from_slice_def map_err_def Let_def
        split: if_splits sum.splits)
  have net: "xor_network_id (to_network_id (addr_chain a)) = take 8 (drop 33 p)"
    and trunc: "truncate_chain (addr_chain a) = addr_chain a"
    using from_network_id_back [OF _ chain] len xor_xor [of "take 8 (drop 33 p)"] by simp_all
  have "p = p ! 0 # drop 1 p" using len by (cases p) simp_all
  also have "drop 1 p = take 32 (drop 1 p) @ drop 33 p"
    using append_take_drop_id [of 32 "drop 1 p"] by simp
  also have "drop 33 p = take 8 (drop 33 p) @ drop 41 p"
    using append_take_drop_id [of 8 "drop 33 p"] by simp
  also have "drop 41 p = take 32 (drop 41 p)" using len by simp
  finally have "p = address_payload a"
    using ver net len by (simp add: address_payload_def mk vk to_from_be_bytes)
  with dec trunc vk len show ?thesis by (simp add: wf_address_def)
qed

section \<open>Properties\<close>

text \<open>C37: parsing an address never panics, and it accepts exactly the texts whose bech32 payload is the
  payload the address itself would be displayed with; so no two payloads denote one address, and an
  accepted chain id always fits 56 bits.\<close>

theorem address_from_str_exact:
  "address_from_str B s \<noteq> Inl Panic
   \<and> (address_from_str B s = Inr a \<longleftrightarrow> wf_address a \<and> truncate_chain (addr_chain a) = addr_chain a
        \<and> bech_decode B s = Inr (PREFIX, address_payload a))"
proof -
  have "address_from_str B s \<noteq> Inl Panic"
    by (auto simp: address_from_str_def res_bind_def key_try_from_slice_def map_err_def Let_def
        split: sum.splits if_splits)
  then show ?thesis
    using address_parsed_fields [of B s a] address_from_payload [of a B s] by auto
qed

text \<open>C38: if bech32 decodes what it encoded under the address prefix, every address is displayed as a text
  that parses back to it, with an EVM chain id cut to its low 56 bits; so the round trip is exact
  precisely when the chain id fits 56 bits.\<close>

theorem address_display_parses:
  assumes "wf_address a"
    and "\<And>payload. length payload = 73 \<Longrightarrow>
      \<exists>s. bech_encode B PREFIX payload = Some s \<and> bech_decode B s = Inr (PREFIX, payload)"
  shows "\<exists>s. address_display B a = Some s
    \<and> address_from_str B s = Inr (a\<lparr>addr_chain := truncate_chain (addr_chain a)\<rparr>)
    \<and> (address_from_str B s = Inr a \<longleftrightarrow> truncate_chain (addr_chain a) = addr_chain a)"
proof -
  obtain s where "bech_encode B PREFIX (address_payload a) = Some s"
    and dec: "bech_decode B s = Inr (PREFIX, address_payload a)"
    using assms(2) [OF length_address_payload [OF assms(1)]] by blast
  then show ?thesis
    using address_from_payload [OF assms(1) dec]
    by (intro exI [of _ s]) (cases a; auto simp: address_display_def)
qed

definition plain_bech32 :: "unit bech32" where
  "plain_bech32 =
     \<lparr>bech_encode = \<lambda>hrp payload. Some (hrp @ map (\<lambda>b. char_of (unat b)) payload),
      bech_decode = \<lambda>s. Inr (take 3 s, map (\<lambda>c. of_nat (of_char c)) (drop 3 s))\<rparr>"

definition sample_address :: railgun_address where
  "sample_address = from_public_keys 1 (replicate 32 2) (Evm 0x0100000000000001)"

lemma address_display_parses_witness:
  "\<exists>s. address_display plain_bech32 sample_address = Some s
    \<and> address_from_str plain_bech32 s = Inr (sample_address\<lparr>addr_chain := Evm 1\<rparr>)"
proof -
  have "wf_address sample_address"
    by (simp add: sample_address_def wf_address_def from_public_keys_def)
  moreover have "\<exists>s. bech_encode plain_bech32 PREFIX payload = Some s
      \<and> bech_decode plain_bech32 s = Inr (PREFIX, payload)" for payload
  proof -
    have "unat (b :: byte) < 256" for b by (rule unat_byte_less)
    then have "map ((\<lambda>c. of_nat (of_char c)) \<circ> (\<lambda>b. char_of (unat b))) payload = payload"
      by (intro map_idI) simp
    then show ?thesis by (simp add: plain_bech32_def PREFIX_def)
  qed
  moreover have "truncate_chain (addr_chain sample_address) = Evm 1"
    by (simp add: sample_address_def from_public_keys_def)
  ultimately show ?thesis using address_display_parses [of sample_address plain_bech32] by metis
qed

end
