(* ===== verification/Key_Derivation.thy ===== *)
theory Key_Derivation
  imports Babyjubjub Derivation_Path Address Decoder
begin

text \<open>
  From a mnemonic to an account (\<^verbatim>\<open>crypto/src/mnemonic.rs\<close>, \<^verbatim>\<open>derivation.rs\<close>, and the constructors of the
  decryptor and the decoder): the hardened key tree over HMAC-SHA-512, the account's two paths and its keys. The
  crates \<^verbatim>\<open>hmac\<close>, \<^verbatim>\<open>hex\<close> and \<^verbatim>\<open>bip39\<close> are the record \<open>key_lib\<close>.
\<close>

section \<open>Third-party primitives\<close>

record 'm key_lib =
  kl_hmac :: "bytes \<Rightarrow> bytes \<Rightarrow> bytes"
  kl_hex :: "string \<Rightarrow> string + bytes"
  kl_generate :: "nat \<Rightarrow> string + 'm"
  kl_parse :: "string \<Rightarrow> string + 'm"
  kl_text :: "'m \<Rightarrow> string"
  kl_seed :: "'m \<Rightarrow> string \<Rightarrow> bytes"
  kl_entropy :: "'m \<Rightarrow> bytes"

section \<open>Mnemonics (mnemonic.rs)\<close>

record railgun_mnemonic =
  mn_phrase :: string

datatype mnemonic_strength = Words12 | Words18 | Words24

fun word_count :: "mnemonic_strength \<Rightarrow> nat" where
  "word_count Words12 = 12"
| "word_count Words18 = 18"
| "word_count Words24 = 24"

definition mnemonic_generate :: "'m key_lib \<Rightarrow> mnemonic_strength \<Rightarrow> crypto_error + railgun_mnemonic" where
  "mnemonic_generate K strength =
     res_bind (map_err Bip39Err (kl_generate K (word_count strength))) (\<lambda>mnemonic.
     Inr \<lparr>mn_phrase = kl_text K mnemonic\<rparr>)"

definition mnemonic_parse :: "'m key_lib \<Rightarrow> string \<Rightarrow> crypto_error + railgun_mnemonic" where
  "mnemonic_parse K phrase =
     res_bind (map_err Bip39Err (kl_parse K phrase)) (\<lambda>_. Inr \<lparr>mn_phrase = phrase\<rparr>)"

definition mnemonic_validate :: "'m key_lib \<Rightarrow> string \<Rightarrow> bool" where
  "mnemonic_validate K phrase = (case kl_parse K phrase of Inl _ \<Rightarrow> False | Inr _ \<Rightarrow> True)"

definition as_phrase :: "railgun_mnemonic \<Rightarrow> string" where
  "as_phrase m = mn_phrase m"

text \<open>\<open>None\<close> is the \<^verbatim>\<open>expect\<close> on parsing the stored phrase again.\<close>

definition to_seed :: "'m key_lib \<Rightarrow> railgun_mnemonic \<Rightarrow> string \<Rightarrow> bytes option" where
  "to_seed K m passphrase =
     (case kl_parse K (mn_phrase m) of Inl _ \<Rightarrow> None | Inr mnemonic \<Rightarrow> Some (kl_seed K mnemonic passphrase))"

definition to_entropy :: "'m key_lib \<Rightarrow> railgun_mnemonic \<Rightarrow> bytes option" where
  "to_entropy K m =
     (case kl_parse K (mn_phrase m) of Inl _ \<Rightarrow> None | Inr mnemonic \<Rightarrow> Some (kl_entropy K mnemonic))"

section \<open>The key tree (derivation.rs)\<close>

text \<open>The ASCII text \<^verbatim>\<open>babyjubjub seed\<close>.\<close>

definition CURVE_SEED :: bytes where
  "CURVE_SEED = map (\<lambda>c. of_nat (of_char c)) ''babyjubjub seed''"

definition HARDENED_OFFSET :: u32 where
  "HARDENED_OFFSET = 0x80000000"

record key_node =
  chain_key :: bytes
  chain_code :: bytes

definition node_from_digest :: "bytes \<Rightarrow> key_node" where
  "node_from_digest digest = \<lparr>chain_key = take 32 digest, chain_code = drop 32 digest\<rparr>"

definition from_seed :: "'m key_lib \<Rightarrow> bytes \<Rightarrow> key_node" where
  "from_seed K seed = node_from_digest (kl_hmac K CURVE_SEED seed)"

definition from_seed_hex :: "'m key_lib \<Rightarrow> string \<Rightarrow> crypto_error + key_node" where
  "from_seed_hex K seed_hex =
     (if length seed_hex \<noteq> 128 then Inl InvalidSeedHex
      else res_bind (map_err HexErr (kl_hex K seed_hex)) (\<lambda>seed. Inr (from_seed K seed)))"

definition derive_hardened :: "'m key_lib \<Rightarrow> key_node \<Rightarrow> u32 \<Rightarrow> key_node" where
  "derive_hardened K n index =
     (let index = to_be_bytes (index + HARDENED_OFFSET);
          preimage = 0 # chain_key n @ index
      in node_from_digest (kl_hmac K (chain_code n) preimage))"

definition derive_path :: "'m key_lib \<Rightarrow> key_node \<Rightarrow> derivation_path \<Rightarrow> key_node" where
  "derive_path K n path = foldl (derive_hardened K) n (segments path)"

definition node_spending_key :: "key_node \<Rightarrow> key32" where
  "node_spending_key n = chain_key n"

definition node_viewing_key :: "key_node \<Rightarrow> key32" where
  "node_viewing_key n = chain_key n"

record derived_keys =
  dk_spending_key :: key32
  dk_viewing_key :: key32
  dk_spending_public_key :: babyjubjub_point
  dk_nullifying_key :: poseidon_hash
  dk_master_public_key :: poseidon_hash

definition derive_railgun_keys ::
  "'m key_lib \<Rightarrow> 'f::field poseidon_engine \<Rightarrow> (bytes \<Rightarrow> bytes) \<Rightarrow> railgun_mnemonic \<Rightarrow> account_index
     \<Rightarrow> crypto_error exn + derived_keys" where
  "derive_railgun_keys K P blake mnemonic index =
     res_bind (ok_or Panic (to_seed K mnemonic '''')) (\<lambda>seed.
     let master = from_seed K seed in
     res_bind (ok_or Panic (spending_path index)) (\<lambda>spending.
     res_bind (ok_or Panic (viewing_path index)) (\<lambda>viewing.
     let spending_key = node_spending_key (derive_path K master spending);
         viewing_key = node_viewing_key (derive_path K master viewing);
         spending_public = spending_public_key (pe_field P) blake spending_key
     in res_bind (nullifying_key P viewing_key) (\<lambda>nullifying.
        res_bind (input_hash P (InTuple [InPoint spending_public, InPoseidonHash nullifying])) (\<lambda>master_public.
        Inr \<lparr>dk_spending_key = spending_key, dk_viewing_key = viewing_key, dk_spending_public_key = spending_public,
             dk_nullifying_key = nullifying, dk_master_public_key = master_public\<rparr>)))))"

definition account_address :: "('pt, 'sc) crypto_lib \<Rightarrow> derived_keys \<Rightarrow> chain_id \<Rightarrow> railgun_address" where
  "account_address L keys chain =
     from_public_keys (dk_master_public_key keys) (viewing_public_key L (dk_viewing_key keys)) chain"

section \<open>Wiring (note.rs, decode.rs)\<close>

definition decryptor_new :: "key32 \<Rightarrow> babyjubjub_point \<Rightarrow> poseidon_hash \<Rightarrow> note_decryptor" where
  "decryptor_new viewing_key spending_public nullifying =
     \<lparr>nd_viewing_key = viewing_key, nd_spending_public_key = spending_public, nd_nullifying_key = nullifying\<rparr>"

definition decryptor_from_keys :: "derived_keys \<Rightarrow> note_decryptor" where
  "decryptor_from_keys keys =
     decryptor_new (dk_viewing_key keys) (dk_spending_public_key keys) (dk_nullifying_key keys)"

definition decoder_from_keys :: "derived_keys \<Rightarrow> decoder" where
  "decoder_from_keys keys = \<lparr>dc_decryptor = decryptor_from_keys keys\<rparr>"

section \<open>The key tree\<close>

lemma node_from_digest_inject [simp]: "node_from_digest a = node_from_digest b \<longleftrightarrow> a = b"
  by (auto simp: node_from_digest_def) (metis append_take_drop_id)

definition hmac_collision :: "'m key_lib \<Rightarrow> bool" where
  "hmac_collision K \<longleftrightarrow> (\<exists>k d k' d'. (k, d) \<noteq> (k', d') \<and> kl_hmac K k d = kl_hmac K k' d')"

lemma no_collisionD:
  "\<not> hmac_collision K \<Longrightarrow> kl_hmac K k d = kl_hmac K k' d' \<longleftrightarrow> k = k' \<and> d = d'"
  by (auto simp: hmac_collision_def)

lemma derive_hardened_inject:
  assumes "\<not> hmac_collision K" and "length (chain_key n) = length (chain_key n')"
  shows "derive_hardened K n i = derive_hardened K n' j \<longleftrightarrow> n = n' \<and> i = j"
  using assms(2) by (auto simp: derive_hardened_def Let_def no_collisionD [OF assms(1)])

definition hmac_length :: "'m key_lib \<Rightarrow> bool" where
  "hmac_length K \<longleftrightarrow> (\<forall>k d. length (kl_hmac K k d) = 64)"

lemma derived_lengths:
  "hmac_length K \<Longrightarrow> length (chain_key (foldl (derive_hardened K) (from_seed K seed) segs)) = 32
     \<and> length (chain_code (foldl (derive_hardened K) (from_seed K seed) segs)) = 32"
  by (induction segs rule: rev_induct)
    (simp_all add: from_seed_def node_from_digest_def derive_hardened_def Let_def hmac_length_def)

lemma seed_not_derived:
  assumes "\<not> hmac_collision K" and "hmac_length K"
  shows "from_seed K seed \<noteq> derive_hardened K (foldl (derive_hardened K) (from_seed K seed') segs) i"
proof -
  have "length CURVE_SEED = 15" by (simp add: CURVE_SEED_def)
  then have "CURVE_SEED \<noteq> chain_code (foldl (derive_hardened K) (from_seed K seed') segs)"
    using derived_lengths [OF assms(2), of seed' segs] by auto
  then show ?thesis
    by (simp add: from_seed_def derive_hardened_def Let_def no_collisionD [OF assms(1)])
qed

lemma derive_inject:
  assumes "\<not> hmac_collision K" and "hmac_length K"
  shows "foldl (derive_hardened K) (from_seed K seed) segs = foldl (derive_hardened K) (from_seed K seed') segs'
    \<longleftrightarrow> seed = seed' \<and> segs = segs'"
proof (induction segs arbitrary: segs' rule: rev_induct)
  case Nil
  show ?case
  proof (cases segs' rule: rev_cases)
    case Nil
    then show ?thesis by (simp add: from_seed_def no_collisionD [OF assms(1)])
  next
    case (snoc js j)
    then show ?thesis using seed_not_derived [OF assms, of seed seed' js j] by simp
  qed
next
  case (snoc i segs)
  show ?case
  proof (cases segs' rule: rev_cases)
    case Nil
    then show ?thesis using seed_not_derived [OF assms, of seed' seed segs i] by (simp add: eq_commute)
  next
    case (snoc js j)
    then show ?thesis
      using snoc.IH [of js] derived_lengths [OF assms(2)]
      by (simp add: derive_hardened_inject [OF assms(1)])
  qed
qed

section \<open>Accounts\<close>

lemma account_paths:
  "spending_path i = Some \<lparr>path_segments = [44, 1984, 0, 0, i, 0, 0, 0], path_len = 5\<rparr>"
  "viewing_path i = Some \<lparr>path_segments = [420, 1984, 0, 0, i, 0, 0, 0], path_len = 5\<rparr>"
proof -
  have "replicate 3 (0 :: u32) = [0, 0, 0]" by code_simp
  then show "spending_path i = Some \<lparr>path_segments = [44, 1984, 0, 0, i, 0, 0, 0], path_len = 5\<rparr>"
    "viewing_path i = Some \<lparr>path_segments = [420, 1984, 0, 0, i, 0, 0, 0], path_len = 5\<rparr>"
    by (simp_all add: spending_path_def viewing_path_def from_segments_def MAX_DERIVATION_DEPTH_def)
qed

text \<open>The node of an account's spending or viewing key.\<close>

definition account_node :: "'m key_lib \<Rightarrow> bytes \<Rightarrow> derivation_path option \<Rightarrow> key_node option" where
  "account_node K seed path = map_option (derive_path K (from_seed K seed)) path"

section \<open>Properties\<close>



text \<open>Deriving an account from a parsed mnemonic never fails when the Poseidon constants load, and the decryptor
  built from it computes the account's own master public key, so notes to the account can be opened by it.\<close>

theorem derive_railgun_keys_total:
  assumes "mnemonic_parse K phrase = Inr m"
    and "load_params (pe_field P) 2 (pe_mds_bin P 2) (pe_rc_bin P 2) = Some p2"
    and "load_params (pe_field P) 4 (pe_mds_bin P 4) (pe_rc_bin P 4) = Some p4"
  shows "\<exists>keys. derive_railgun_keys K P blake m i = Inr keys
    \<and> decryptor_master P (decryptor_from_keys keys) = Inr (dk_master_public_key keys)
    \<and> nullifying_key P (dk_viewing_key keys) = Inr (dk_nullifying_key keys)"
proof -
  obtain mnemonic where "kl_parse K (mn_phrase m) = Inr mnemonic"
    using assms(1) by (auto simp: mnemonic_parse_def)
  then have seed: "to_seed K m '''' = Some (kl_seed K mnemonic '''')" by (simp add: to_seed_def)
  have hash: "\<exists>h. hash_field_inputs P [a] = Inr h" "\<exists>h. hash_field_inputs P [a, b, c] = Inr h" for a b c
    using hash_field_inputs_total [of "[a]" P p2] hash_field_inputs_total [of "[a, b, c]" P p4] assms(2,3)
    by (simp_all add: numeral_eq_Suc)
  let ?node = "\<lambda>path. derive_path K (from_seed K (kl_seed K mnemonic '''')) path"
  let ?vk = "node_viewing_key (?node (the (viewing_path i)))"
    and ?sk = "node_spending_key (?node (the (spending_path i)))"
  obtain nk where nk: "hash_field_inputs P [from_be_bytes ?vk] = Inr nk" using hash(1) by blast
  let ?pub = "spending_public_key (pe_field P) blake ?sk"
  obtain mk where mk: "hash_field_inputs P [pt_x ?pub, pt_y ?pub, nk] = Inr mk" using hash(2) by blast
  have "derive_railgun_keys K P blake m i = Inr \<lparr>dk_spending_key = ?sk, dk_viewing_key = ?vk,
      dk_spending_public_key = ?pub, dk_nullifying_key = nk, dk_master_public_key = mk\<rparr>"
    using nk mk by (simp add: derive_railgun_keys_def seed account_paths Let_def nullifying_key_def input_hash_def)
  then show ?thesis
    using nk mk by (simp add: decryptor_from_keys_def decryptor_new_def decryptor_master_def
        commitment_inputs nullifying_key_def input_hash_def)
qed

definition toy_keys :: "unit key_lib" where
  "toy_keys = \<lparr>kl_hmac = \<lambda>k d. replicate 64 (of_nat (length (k @ d))), kl_hex = \<lambda>_. Inl [], kl_generate = \<lambda>_. Inr (),
     kl_parse = \<lambda>_. Inr (), kl_text = \<lambda>_. [], kl_seed = \<lambda>_ _. [], kl_entropy = \<lambda>_. []\<rparr>"

lemma derive_railgun_keys_total_witness:
  "\<exists>keys. derive_railgun_keys toy_keys sample_engine (\<lambda>b. b @ b) \<lparr>mn_phrase = ''abandon''\<rparr> 7 = Inr keys
    \<and> decryptor_master sample_engine (decryptor_from_keys keys) = Inr (dk_master_public_key keys)"
proof -
  have "mnemonic_parse toy_keys ''abandon'' = Inr \<lparr>mn_phrase = ''abandon''\<rparr>"
    by (simp add: mnemonic_parse_def toy_keys_def)
  moreover obtain p2 p4 where
    "load_params (pe_field sample_engine) 2 (pe_mds_bin sample_engine 2) (pe_rc_bin sample_engine 2) = Some p2"
    "load_params (pe_field sample_engine) 4 (pe_mds_bin sample_engine 4) (pe_rc_bin sample_engine 4) = Some p4"
    using sample_load [of 2] sample_load [of 4] by auto
  ultimately show ?thesis using derive_railgun_keys_total by blast
qed

end
