(* ===== verification/Base37.thy ===== *)
theory Base37
  imports Domain
begin

text \<open>
  The base-37 text of \<^verbatim>\<open>types/src/protocol.rs\<close>: a string over a space, the digits and the lower-case
  letters is read as a number in base 37 and kept as sixteen big-endian bytes. Decoding divides
  digit by digit into the tail of a 32-byte buffer. The lemmas relate both loops to the list of
  base-37 digits of the number; the properties are the two round trips, exactly, and that the
  buffer is never overrun.
\<close>

section \<open>Definitions\<close>

definition CHARSET :: bytes where
  "CHARSET = map of_char '' 0123456789abcdefghijklmnopqrstuvwxyz''"

definition BASE :: u128 where
  "BASE = 37"

definition MAX_DECODED_LEN :: nat where
  "MAX_DECODED_LEN = 32"

text \<open>\<^verbatim>\<open>RailgunBase37([u8; 16])\<close> is its array.\<close>

type_synonym railgun_base37 = bytes

record base37_decoded =
  dec_bytes :: bytes
  dec_len :: nat

definition charset_index :: "rust_char \<Rightarrow> u8 option" where
  "charset_index c =
     (if c = 32 then Some 0
      else if 48 \<le> c \<and> c \<le> 57 then Some (of_nat c - 48 + 1)
      else if 97 \<le> c \<and> c \<le> 122 then Some (of_nat c - 97 + 11)
      else None)"

primrec encode_chars :: "rust_char list \<Rightarrow> u128 \<Rightarrow> base37_error + u128" where
  "encode_chars [] acc = Inr acc"
| "encode_chars (c # cs) acc =
     res_bind (ok_or (InvalidCharacter c) (charset_index c)) (\<lambda>idx.
     res_bind (ok_or (OutputTooLong 16) (push_digit BASE acc (ucast idx))) (\<lambda>v.
     encode_chars cs v))"

definition base37_encode :: "rust_char list \<Rightarrow> base37_error + railgun_base37" where
  "base37_encode text = res_bind (encode_chars text 0) (\<lambda>v. Inr (to_be_bytes v))"

text \<open>\<^verbatim>\<open>None\<close> is the panic of \<^verbatim>\<open>MAX_DECODED_LEN - 1 - len\<close> once the buffer is full.\<close>

function decode_loop :: "u128 \<Rightarrow> bytes \<Rightarrow> nat \<Rightarrow> base37_decoded option" where
  "decode_loop v bs len =
     (if 0 < v then
        if len < MAX_DECODED_LEN
        then decode_loop (v div BASE)
               (bs[MAX_DECODED_LEN - 1 - len := CHARSET ! unat (v mod BASE)]) (len + 1)
        else None
      else Some \<lparr>dec_bytes = bs, dec_len = len\<rparr>)"
  by pat_completeness auto
termination
  by (relation "measure (\<lambda>(v, bs, len). unat v)")
    (auto simp: BASE_def unat_div word_less_nat_alt)

declare decode_loop.simps [simp del]

definition try_decode :: "railgun_base37 \<Rightarrow> base37_decoded option" where
  "try_decode b = decode_loop (from_be_bytes b) (replicate MAX_DECODED_LEN 0) 0"

definition decoded_as_bytes :: "base37_decoded \<Rightarrow> bytes" where
  "decoded_as_bytes d = drop (MAX_DECODED_LEN - dec_len d) (dec_bytes d)"

text \<open>\<^verbatim>\<open>Display\<close>: the decoded bytes as UTF-8 text. \<^verbatim>\<open>None\<close> is a panic, of the buffer or of the
  \<^verbatim>\<open>expect\<close> on bytes that are not ASCII.\<close>

definition decoded_as_str :: "base37_decoded \<Rightarrow> rust_char list option" where
  "decoded_as_str d =
     (if list_all (\<lambda>b. unat b < 128) (decoded_as_bytes d)
      then Some (map unat (decoded_as_bytes d)) else None)"

definition base37_display :: "railgun_base37 \<Rightarrow> rust_char list option" where
  "base37_display b = Option.bind (try_decode b) decoded_as_str"

section \<open>Digits\<close>

text \<open>The digits of a number, most significant first, without leading zeros; and their value.\<close>

fun digits37 :: "nat \<Rightarrow> nat list" where
  "digits37 n = (if n = 0 then [] else digits37 (n div 37) @ [n mod 37])"

declare digits37.simps [simp del]

definition value37 :: "nat \<Rightarrow> nat list \<Rightarrow> nat" where
  "value37 = foldl (\<lambda>a d. a * 37 + d)"

definition charset_char :: "nat \<Rightarrow> rust_char" where
  "charset_char d = (if d = 0 then 32 else if d \<le> 10 then d + 47 else d + 86)"

lemma digits37_zero [simp]: "digits37 0 = []"
  by (simp add: digits37.simps)

lemma value37_simps [simp]:
  "value37 a [] = a"
  "value37 a (d # ds) = value37 (a * 37 + d) ds"
  "value37 a (ds @ es) = value37 (value37 a ds) es"
  by (simp_all add: value37_def)

lemma value37_mono: "a \<le> value37 a ds"
proof (induction ds arbitrary: a)
  case (Cons d ds)
  have "a \<le> a * 37 + d" by simp
  also have "\<dots> \<le> value37 a (d # ds)" using Cons by simp
  finally show ?case .
qed simp

lemma value37_digits37 [simp]: "value37 0 (digits37 n) = n"
proof (induction n rule: digits37.induct)
  case (1 n)
  then show ?case by (cases "n = 0") (simp_all add: digits37.simps [of n])
qed

lemma digits37_less: "d \<in> set (digits37 n) \<Longrightarrow> d < 37"
proof (induction n rule: digits37.induct)
  case (1 n)
  then show ?case by (cases "n = 0") (auto simp: digits37.simps [of n])
qed

lemma digits37_value37:
  assumes "\<forall>d\<in>set ds. d < 37"
  shows "digits37 (value37 0 ds) = dropWhile (\<lambda>d. d = 0) ds"
  using assms
proof (induction ds rule: rev_induct)
  case Nil
  then show ?case by (simp add: digits37.simps)
next
  case (snoc d ds)
  let ?v = "value37 0 ds"
  have d: "d < 37" and IH: "digits37 ?v = dropWhile (\<lambda>d. d = 0) ds"
    using snoc by simp_all
  have zero: "?v = 0 \<longleftrightarrow> dropWhile (\<lambda>d. d = 0) ds = []"
    using IH by (metis digits37.simps snoc_eq_iff_butlast value37_digits37 value37_simps(1))
  show ?case
  proof (cases "?v * 37 + d = 0")
    case True
    with zero show ?thesis by (auto simp: digits37.simps [of 0] dropWhile_append)
  next
    case False
    then have "digits37 (?v * 37 + d) = digits37 ?v @ [d]"
      using d by (simp add: digits37.simps [of "?v * 37 + d"])
    with False zero IH show ?thesis by (auto simp: dropWhile_append)
  qed
qed

lemma length_digits37: "n < 37 ^ k \<Longrightarrow> length (digits37 n) \<le> k"
proof (induction k arbitrary: n)
  case 0
  then show ?case by (simp add: digits37.simps)
next
  case (Suc k)
  then have "n div 37 < 37 ^ k" by (simp add: div_less_iff_less_mult mult.commute)
  with Suc.IH [of "n div 37"] show ?case by (simp add: digits37.simps [of n])
qed

section \<open>The alphabet\<close>

lemma charset_nth_all:
  "list_all (\<lambda>d. unat (CHARSET ! d) = charset_char d) [0..<37]"
  by code_simp

lemma charset_nth: "d < 37 \<Longrightarrow> unat (CHARSET ! d) = charset_char d"
  using charset_nth_all by (auto simp: list_all_iff)

lemma charset_char_less: "d < 37 \<Longrightarrow> charset_char d < 128"
  by (simp add: charset_char_def)

lemma charset_index_eq:
  "charset_index c = Some i \<longleftrightarrow> unat i < 37 \<and> c = charset_char (unat i)"
proof -
  have "unat (of_nat c - 48 + 1 :: u8) = c - 47" if "48 \<le> c" "c \<le> 57"
  proof -
    have "(of_nat c - 48 + 1 :: u8) = of_nat (c - 47)" using that by (simp add: of_nat_diff)
    moreover have "unat (of_nat (c - 47) :: u8) = c - 47"
      using that by (intro unat_of_nat_small) simp
    ultimately show ?thesis by simp
  qed
  moreover have "unat (of_nat c - 97 + 11 :: u8) = c - 86" if "97 \<le> c" "c \<le> 122"
  proof -
    have "(of_nat c - 97 + 11 :: u8) = of_nat (c - 86)" using that by (simp add: of_nat_diff)
    moreover have "unat (of_nat (c - 86) :: u8) = c - 86"
      using that by (intro unat_of_nat_small) simp
    ultimately show ?thesis by simp
  qed
  ultimately show ?thesis
    by (auto simp: charset_index_def charset_char_def word_unat_eq_iff split: if_splits)
qed

section \<open>The loops\<close>

lemma encode_chars_eq:
  "encode_chars cs acc = Inr v \<longleftrightarrow>
     (\<exists>ds. (\<forall>d\<in>set ds. d < 37) \<and> cs = map charset_char ds \<and> unat v = value37 (unat acc) ds)"
proof (induction cs arbitrary: acc)
  case Nil
  then show ?case by (auto simp: word_unat_eq_iff)
next
  case (Cons c cs)
  have b: "unat BASE = 37" by (simp add: BASE_def)
  have idx: "unat (ucast i :: u128) = unat i" for i :: u8
    using unsigned_less [of i, where 'a = nat] by (intro unat_ucast_small) simp
  show ?case (is "?l = ?r")
  proof
    assume ?l
    then obtain i w where i: "charset_index c = Some i"
      and w: "push_digit BASE acc (ucast i) = Some w" and rest: "encode_chars cs w = Inr v"
      by auto
    then have "unat w = unat acc * 37 + unat i"
      by (auto simp: push_digit_eq b idx unat_of_nat_small split: if_splits simp del: of_nat_add of_nat_mult)
    with rest i show ?r
      unfolding Cons.IH charset_index_eq by (force intro: exI [of _ "unat i # ds" for ds])
  next
    assume ?r
    then obtain d ds where ds: "\<forall>d\<in>set (d # ds). d < 37" "c # cs = map charset_char (d # ds)"
      and v: "unat v = value37 (unat acc) (d # ds)"
      by (metis list.simps(8) list.distinct(1) neq_Nil_conv)
    let ?n = "unat acc * 37 + d"
    have "?n \<le> unat v" using v value37_mono [of ?n ds] by simp
    then have n: "?n < 2 ^ LENGTH(128)" using unsigned_less [of v, where 'a = nat] by simp
    have i: "unat (of_nat d :: u8) = d" using ds(1) by (intro unat_of_nat_small) simp
    have "charset_index c = Some (of_nat d)" using ds i by (simp add: charset_index_eq)
    moreover have "push_digit BASE acc (ucast (of_nat d :: u8)) = Some (of_nat ?n)"
      using n by (simp add: push_digit_eq b idx i del: of_nat_add of_nat_mult)
    moreover have "encode_chars cs (of_nat ?n) = Inr v"
      unfolding Cons.IH using ds v n unat_of_nat_small [of ?n, where 'a = 128]
      by (auto simp del: of_nat_add of_nat_mult)
    ultimately show ?l by (simp del: of_nat_add of_nat_mult)
  qed
qed

lemma decode_loop_eq:
  assumes "length bs = 32" and "len + length (digits37 (unat v)) \<le> 32"
  shows "\<exists>d. decode_loop v bs len = Some d
    \<and> decoded_as_bytes d = map (\<lambda>i. CHARSET ! i) (digits37 (unat v)) @ drop (32 - len) bs"
  using assms
proof (induction v bs len rule: decode_loop.induct)
  case (1 v bs len)
  have b: "unat BASE = 37" by (simp add: BASE_def)
  show ?case
  proof (cases "v = 0")
    case True
    then show ?thesis
      by (simp add: decode_loop.simps [of 0] decoded_as_bytes_def MAX_DECODED_LEN_def)
  next
    case False
    then have v: "0 < v" "unat v \<noteq> 0" by (auto simp: word_unat_eq_iff word_less_nat_alt)
    have dig: "digits37 (unat v) = digits37 (unat (v div BASE)) @ [unat (v mod BASE)]"
      using v(2) by (simp add: digits37.simps [of "unat v"] unat_div unat_mod b)
    then have len: "len < MAX_DECODED_LEN" using "1.prems"(2) by (simp add: MAX_DECODED_LEN_def)
    let ?c = "CHARSET ! unat (v mod BASE)"
    let ?bs = "bs[31 - len := ?c]"
    have "drop (31 - len) ?bs = ?c # drop (32 - len) bs"
      using len "1.prems"(1) by (simp add: MAX_DECODED_LEN_def drop_update_swap Cons_nth_drop_Suc [symmetric] Suc_diff_le [symmetric])
    with "1.IH" [OF v(1) len] "1.prems" dig v(1) len show ?thesis
      by (simp add: decode_loop.simps [of v] MAX_DECODED_LEN_def)
  qed
qed

lemma try_decode_bytes:
  assumes "length b = 16"
  shows "\<exists>d. try_decode b = Some d
    \<and> decoded_as_bytes d = map (\<lambda>i. CHARSET ! i) (digits37 (be_nat b))"
proof -
  have b: "be_nat b < 2 ^ 128" using be_nat_less [of b] assms by simp
  then have n: "unat (from_be_bytes b :: u128) = be_nat b"
    by (simp add: from_be_bytes_def unat_of_nat_small)
  have "be_nat b < 37 ^ 25" using b by simp
  then have "length (digits37 (be_nat b)) \<le> 32" using length_digits37 [of "be_nat b" 25] by simp
  then show ?thesis
    using decode_loop_eq [of "replicate 32 0" 0 "from_be_bytes b"] n
    by (simp add: try_decode_def MAX_DECODED_LEN_def)
qed

lemma base37_display_digits:
  assumes "length b = 16"
  shows "base37_display b = Some (map charset_char (digits37 (be_nat b)))"
proof -
  obtain d where d: "try_decode b = Some d"
    and bytes: "decoded_as_bytes d = map (\<lambda>i. CHARSET ! i) (digits37 (be_nat b))"
    using try_decode_bytes [OF assms] by blast
  show ?thesis
    by (auto simp: base37_display_def decoded_as_str_def d bytes list_all_iff charset_nth charset_char_less
        dest: digits37_less)
qed

lemma charset_char_zero [simp]: "charset_char d = 32 \<longleftrightarrow> d = 0"
  by (simp add: charset_char_def)

section \<open>Properties\<close>

text \<open>C35: displaying a base-37 value never panics and the text parses back to the same sixteen bytes, for
  every array, not only those an encoder produced.\<close>

theorem base37_display_parses:
  assumes "length b = 16"
  shows "\<exists>text. base37_display b = Some text \<and> base37_encode text = Inr b"
proof -
  have less: "be_nat b < 2 ^ LENGTH(128)" using be_nat_less [of b] assms by simp
  have "encode_chars (map charset_char (digits37 (be_nat b))) 0 = Inr (from_be_bytes b)"
    unfolding encode_chars_eq from_be_bytes_def
    using unat_of_nat_small [OF less]
    by (intro exI [of _ "digits37 (be_nat b)"]) (auto dest: digits37_less)
  then show ?thesis
    using base37_display_digits [OF assms] assms by (simp add: base37_encode_def to_from_be_bytes)
qed

lemma base37_display_parses_witness:
  "\<exists>text. base37_display (replicate 15 0 @ [38]) = Some text
     \<and> base37_encode text = Inr (replicate 15 0 @ [38])"
  by (rule base37_display_parses) simp

text \<open>Encoding succeeds exactly on the strings over the alphabet whose base-37 value fits 128 bits, and
  displaying the encoding gives the string back without its leading spaces, which are zero digits and
  are lost.\<close>

theorem base37_encode_exact:
  "base37_encode text = Inr b \<longleftrightarrow>
     length b = 16
     \<and> base37_display b = Some (dropWhile (\<lambda>c. c = 32) text)"
proof
  assume "base37_encode text = Inr b"
  then obtain v where v: "encode_chars text 0 = Inr v" and b: "b = to_be_bytes v"
    by (auto simp: base37_encode_def)
  then obtain ds where ds: "\<forall>d\<in>set ds. d < 37" "text = map charset_char ds"
    and val: "unat v = value37 0 ds"
    by (auto simp: encode_chars_eq)
  have "base37_display b = Some (map charset_char (dropWhile (\<lambda>d. d = 0) ds))"
    using base37_display_digits [of b] b digits37_value37 [OF ds(1)] val
    by (simp add: be_nat_to_be_bytes)
  then show "length b = 16 \<and> base37_display b = Some (dropWhile (\<lambda>c. c = 32) text)"
    using b ds(2) by (simp add: dropWhile_map comp_def)
next
  assume r: "length b = 16 \<and> base37_display b = Some (dropWhile (\<lambda>c. c = 32) text)"
  let ?ds = "digits37 (be_nat b)"
  let ?s = "length (takeWhile (\<lambda>c. c = 32) text)"
  have "takeWhile (\<lambda>c. c = 32) text = replicate ?s 32"
    by (rule replicate_eqI) (auto dest: set_takeWhileD)
  then have split: "text = map charset_char (replicate ?s 0 @ ?ds)"
    using r base37_display_digits [of b] takeWhile_dropWhile_id [of "\<lambda>c. c = 32" "text"]
    by (simp add: charset_char_def)
  have zeros: "value37 0 (replicate k 0) = 0" for k by (induction k) simp_all
  have less: "be_nat b < 2 ^ LENGTH(128)" using be_nat_less [of b] r by simp
  have "encode_chars text 0 = Inr (from_be_bytes b)"
    unfolding encode_chars_eq from_be_bytes_def
    using unat_of_nat_small [OF less] split zeros
    by (intro exI [of _ "replicate ?s 0 @ ?ds"]) (auto dest: digits37_less)
  then show "base37_encode text = Inr b"
    using r by (simp add: base37_encode_def to_from_be_bytes)
qed

end
