(* ===== verification/Text.thy ===== *)
theory Text
  imports Derivation_Path
begin

text \<open>
  Text of values: the redacted and the hexadecimal display of keys (\<^verbatim>\<open>types/src/macros.rs\<close>), the one-line display of a
  node (\<^verbatim>\<open>types/src/commitment.rs\<close>), and the reading of decimal block numbers that the indexer sends as strings
  (\<^verbatim>\<open>sync/src/graphql.rs\<close>). The hexadecimal and checksummed texts of \<^verbatim>\<open>alloy\<close> and the reading of a JSON string
  are parameters.
\<close>

definition utf8 :: "string \<Rightarrow> bytes" where
  "utf8 = map (of_nat \<circ> of_char)"

section \<open>Keys (macros.rs)\<close>

text \<open>Secret keys: the text is the type's name whatever the bytes; the bytes are read through \<open>reveal_hex\<close>.\<close>

definition secret_key_text :: "bytes \<Rightarrow> key32 \<Rightarrow> bytes" where
  "secret_key_text name key = name @ utf8 ''(<redacted>)''"

definition reveal_hex :: "(bytes \<Rightarrow> bytes) \<Rightarrow> key32 \<Rightarrow> bytes" where
  "reveal_hex encode_prefixed key = encode_prefixed key"

definition public_key_text :: "(bytes \<Rightarrow> bytes) \<Rightarrow> key32 \<Rightarrow> bytes" where
  "public_key_text encode_prefixed key = encode_prefixed key"

definition public_key_debug :: "(bytes \<Rightarrow> bytes) \<Rightarrow> bytes \<Rightarrow> key32 \<Rightarrow> bytes" where
  "public_key_debug encode_prefixed name key = name @ [40] @ encode_prefixed key @ [41]"

section \<open>Nodes (commitment.rs)\<close>

fun body_text :: "(asset_id \<Rightarrow> bytes) \<Rightarrow> node_body \<Rightarrow> bytes" where
  "body_text asset_debug (Shield b) =
     utf8 ''shield value='' @ decimal (unat (sh_value b)) @ utf8 '' token='' @ asset_debug (sh_token b)
       @ utf8 '' bundle_words='' @ decimal (length (sh_encrypted_bundle b))"
| "body_text asset_debug (Transact b) =
     utf8 ''transact memo='' @ decimal (length (tr_memo b)) @ utf8 ''B annotation='' @ decimal (length (tr_annotation b))
       @ utf8 ''B data_words='' @ decimal (length (ct_data (tr_ciphertext b)))"

definition node_text :: "(asset_id \<Rightarrow> bytes) \<Rightarrow> node \<Rightarrow> bytes" where
  "node_text asset_debug n =
     utf8 ''['' @ decimal (unat (tree_number (nd_position n))) @ utf8 '':'' @ decimal (unat (leaf_index (nd_position n)))
       @ utf8 ''] block='' @ decimal (unat (nd_block n)) @ utf8 '' hash='' @ decimal (unat (nd_hash n)) @ utf8 '' ''
       @ body_text asset_debug (nd_body n)"

section \<open>Decimal numbers in replies (graphql.rs)\<close>

text \<open>\<^verbatim>\<open>str::parse::<u64>\<close>: an optional plus sign, then digits accumulated with checked arithmetic; at each character
  an invalid digit is reported before an overflow.\<close>

datatype int_error = EmptyInt | InvalidDigit | PosOverflow

fun parse_digits :: "bytes \<Rightarrow> u64 \<Rightarrow> int_error + u64" where
  "parse_digits [] acc = Inr acc"
| "parse_digits (c # cs) acc =
     (if \<not> is_ascii_digit c then Inl InvalidDigit
      else if 2 ^ 64 \<le> unat acc * 10 then Inl PosOverflow
      else if 2 ^ 64 \<le> unat (acc * 10) + digit_value c then Inl PosOverflow
      else parse_digits cs (acc * 10 + of_nat (digit_value c)))"

definition parse_u64 :: "bytes \<Rightarrow> int_error + u64" where
  "parse_u64 bs =
     (if bs = [] then Inl EmptyInt
      else if bs = [43] \<or> bs = [45] then Inl InvalidDigit
      else parse_digits (if hd bs = 43 then tl bs else bs) 0)"

text \<open>\<open>String::deserialize\<close> is the argument, \<open>message\<close> the text of a number error.\<close>

definition de_string_u64 :: "(int_error \<Rightarrow> string) \<Rightarrow> string + bytes \<Rightarrow> string + u64" where
  "de_string_u64 message s = res_bind s (\<lambda>bs. map_err message (parse_u64 bs))"

lemma parse_digits_eq:
  "list_all is_ascii_digit cs \<Longrightarrow>
    parse_digits cs acc = (let n = value10 (unat acc) cs in if n < 2 ^ 64 then Inr (of_nat n) else Inl PosOverflow)"
proof (induction cs arbitrary: acc)
  case Nil
  then show ?case using unsigned_less [of acc, where 'a = nat] by simp
next
  case (Cons c cs)
  let ?n = "unat acc * 10 + digit_value c"
  have d: "is_ascii_digit c" "list_all is_ascii_digit cs" using Cons.prems by simp_all
  show ?case
  proof (cases "?n < 2 ^ 64")
    case True
    then have ten: "unat (acc * 10) = unat acc * 10" by (simp add: unat_word_ariths)
    have "acc * 10 + of_nat (digit_value c) = of_nat ?n" by simp
    moreover have "unat (of_nat ?n :: u64) = ?n" using True by (intro unat_of_nat_small) simp
    ultimately show ?thesis using True d ten Cons.IH [OF d(2), of "of_nat ?n"] by simp
  next
    case False
    then have "\<not> value10 ?n cs < 2 ^ 64" using value10_mono [of ?n cs] by simp
    moreover have "unat acc * 10 < 2 ^ 64 \<Longrightarrow> unat (acc * 10) = unat acc * 10" by (simp add: unat_word_ariths)
    ultimately show ?thesis using False d by (simp add: Let_def)
  qed
qed

lemma parse_digits_invalid:
  "\<not> list_all is_ascii_digit cs \<Longrightarrow> \<exists>e. parse_digits cs acc = Inl e"
  by (induction cs arbitrary: acc) auto

text \<open>A text parses to a number exactly when it is a non-empty digit string, perhaps after a plus sign, of that value.\<close>

lemma parse_u64_exact:
  "parse_u64 bs = Inr w \<longleftrightarrow>
     (let ds = (if bs \<noteq> [] \<and> hd bs = 43 then tl bs else bs)
      in ds \<noteq> [] \<and> list_all is_ascii_digit ds \<and> value10 0 ds = unat w)"
proof -
  let ?ds = "if bs \<noteq> [] \<and> hd bs = 43 then tl bs else bs"
  have digits: "parse_digits ds 0 = Inr w \<longleftrightarrow> list_all is_ascii_digit ds \<and> value10 0 ds = unat w" for ds
    using parse_digits_eq [of ds 0] parse_digits_invalid [of ds 0] unsigned_less [of w, where 'a = nat]
    by (cases "list_all is_ascii_digit ds") (auto simp: Let_def unat_of_nat_small)
  have minus: "\<not> is_ascii_digit 45" by (simp add: is_ascii_digit_def word_le_nat_alt)
  show ?thesis
    by (cases bs) (auto simp: parse_u64_def digits minus Let_def)
qed

lemma parse_u64_decimal: "parse_u64 (decimal (unat w)) = Inr w"
proof -
  have d: "list_all is_ascii_digit (decimal (unat w))" "decimal (unat w) \<noteq> []" "value10 0 (decimal (unat w)) = unat w"
    using decimal_digits [of "unat w"] by simp_all
  have "\<not> is_ascii_digit 43" by (simp add: is_ascii_digit_def word_le_nat_alt)
  then have "hd (decimal (unat w)) \<noteq> 43" using d(1,2) by (cases "decimal (unat w)") auto
  then show ?thesis using d by (simp add: parse_u64_exact)
qed

end
