(* ===== verification/Spec2Isabelle.thy ===== *)
theory Spec2Isabelle
  imports Indexer Sync_Tests Stale_Batch Chain_Config Key_Derivation Base37 Text Address
begin

text \<open>
  A verification library for the railgun-rs workspace, a wallet engine for a shielded pool: it mirrors the pool's
  commitments and nullifiers from an indexer into a local database, maintains the Merkle forest over them, derives a
  wallet's keys from a mnemonic, decrypts the notes that are the wallet's and sums its balances.

  \<^bold>\<open>How the program runs.\<close> A \<^verbatim>\<open>Syncer\<close> pulls windows of blocks from an \<^verbatim>\<open>EventSource\<close> (\<^verbatim>\<open>SubsquidSource\<close>: pages of GraphQL
  rows, with retries), and commits each window in one write transaction of the \<^verbatim>\<open>Database\<close>: nodes, nullifiers, the frontier
  snapshot of every tree touched, and the watermark. \<^verbatim>\<open>MerkleWalk\<close> answers roots from a snapshot or by recomputation.
  \<^verbatim>\<open>WalletDecoder\<close> tries every stored leaf with the wallet's keys and groups what opens by asset. The stored bytes, the keys of
  the store and the domain types are those of the \<^verbatim>\<open>database\<close> and \<^verbatim>\<open>types\<close> crates; the hash is \<^verbatim>\<open>poseidon-rust\<close>.

  \<^bold>\<open>Theories and sources\<close> (paths under \<^verbatim>\<open>src/crates\<close>).
  \<^item> \<open>Prelude\<close>: results (\<open>res_bind\<close>, \<open>map_err\<close>), stateful steps (\<open>st_bind\<close>, \<open>st_for\<close>), the collections \<open>wire_simps\<close>,
    \<open>store_simps\<close>, \<open>frontier_simps\<close>. A panic is the value \<open>Panic\<close> or \<open>None\<close>.
  \<^item> \<open>Bytes\<close>, \<open>Domain\<close>, \<open>Text\<close>: big-endian words; the vocabulary of \<^verbatim>\<open>types/src\<close> (\<^verbatim>\<open>lib.rs\<close>, \<^verbatim>\<open>asset.rs\<close>, \<^verbatim>\<open>block.rs\<close>, \<^verbatim>\<open>commitment.rs\<close>,
    \<^verbatim>\<open>curve.rs\<close>, \<^verbatim>\<open>macros.rs\<close>); the text of keys and nodes and the reading of decimal block numbers.
  \<^item> \<open>Base37\<close>, \<open>Derivation_Path\<close>, \<open>Address\<close>: \<^verbatim>\<open>types/src/protocol.rs\<close>, \<^verbatim>\<open>derivation.rs\<close>, \<^verbatim>\<open>address.rs\<close>: encoders, parsers and the
    exact sets of texts they accept.
  \<^item> \<open>Codec\<close>: \<^verbatim>\<open>database/src/tables/codec.rs\<close>, each encoder and each step of the reader.
  \<^item> \<open>Ordered_Map\<close>, \<open>Store\<close>, \<open>Overlay\<close>: \<^verbatim>\<open>BTreeMap\<close>; \<^verbatim>\<open>read.rs\<close>, \<^verbatim>\<open>write.rs\<close>, \<^verbatim>\<open>batch.rs\<close>: readers and writers as records of
    methods, \<^verbatim>\<open>RangeIter\<close> one \<open>next\<close> at a time, the staged batch and the overlay. The locales \<open>reader_contract\<close> and
    \<open>store_contract\<close> say what a client may assume of a reader and of a writer.
  \<^item> \<open>Engine\<close>, \<open>Durability\<close>, \<open>Memory_Engine\<close>: \<^verbatim>\<open>engine.rs\<close>, \<^verbatim>\<open>lib.rs\<close>, \<^verbatim>\<open>version.rs\<close>. The storage engine redb is the record \<open>redb\<close>,
    with its documented behaviour as the locale \<open>redb_laws\<close>; the read view, the write transaction and the overlay satisfy
    the contracts (\<open>sublocale\<close>), and a table-of-lists engine interprets the laws.
  \<^item> \<open>Commitments\<close>, \<open>Forest\<close>, \<open>Forest_Properties\<close>, \<open>Forest_Spec\<close>: \<^verbatim>\<open>tables/commitments.rs\<close>; \<open>forest_ok\<close> is the table's invariant,
    \<open>leaf_at\<close> and \<open>nullified_in\<close> its abstraction. \<open>forest_spec\<close> is the namespace's abstract machine, a list of nodes, the
    spent nullifiers and the watermark; \<open>represents\<close> relates it to the tables, and mutations and reads refine it.
  \<^item> \<open>Merkle\<close>, \<open>Merkle_Walk\<close>: \<^verbatim>\<open>crypto/src/merkle.rs\<close>, \<^verbatim>\<open>tables/frontier.rs\<close>, \<^verbatim>\<open>tables/decoded.rs\<close>. \<open>tree_root\<close> is the reference tree,
    \<open>accumulates\<close> the refinement relation of the streaming accumulator, \<open>snapshots_ok\<close> the invariant of the frontier table.
  \<^item> \<open>Sync\<close>, \<open>Sync_Window\<close>, \<open>Sync_Properties\<close>: \<^verbatim>\<open>sync/src/manager.rs\<close>, \<^verbatim>\<open>source.rs\<close>, \<^verbatim>\<open>event.rs\<close>, \<^verbatim>\<open>error.rs\<close>.
  \<^item> \<open>Subsquid\<close>, \<open>Subsquid_Properties\<close>, \<open>Chain_Config\<close>: \<^verbatim>\<open>sync/src/graphql.rs\<close>, \<^verbatim>\<open>subsquid.rs\<close>, \<^verbatim>\<open>chain.rs\<close>.
  \<^item> \<open>Field_Matrix\<close>, \<open>Poseidon\<close>, \<open>Poseidon_Hash\<close>: \<^verbatim>\<open>poseidon-rust/src\<close> and \<^verbatim>\<open>crypto/src/poseidon.rs\<close>, \<^verbatim>\<open>commitment.rs\<close>; the optimised
    permutation equals the textbook one over any field.
  \<^item> \<open>Edwards\<close>, \<open>Babyjubjub\<close>, \<open>Key_Derivation\<close>: \<^verbatim>\<open>crypto/src/babyjubjub.rs\<close>, \<^verbatim>\<open>common.rs\<close>, \<^verbatim>\<open>derivation.rs\<close>, \<^verbatim>\<open>mnemonic.rs\<close>; the group law
    of a complete twisted Edwards curve is proved, and projective arithmetic refines it.
  \<^item> \<open>Note\<close>, \<open>Decoder\<close>: \<^verbatim>\<open>crypto/src/viewing.rs\<close>, \<^verbatim>\<open>aes.rs\<close>, \<^verbatim>\<open>note.rs\<close> and \<^verbatim>\<open>decoder/src\<close>.
  \<^item> \<open>Lifecycle\<close>, \<open>Lifecycle_Properties\<close>, \<open>Liveness\<close>, \<open>Staging\<close>, \<open>Indexer\<close>, and this theory: the components together. \<open>reachable\<close> is the inductive set
    of the databases that opening, reopening, syncing, failing, clearing and saving lead to; the locale \<open>redb_live\<close> adds to
    \<open>redb_laws\<close> that transactions begin and commit. \<open>Staging\<close> and \<open>Stale_Batch\<close> are the other way to write, \<^verbatim>\<open>batch.rs\<close>: stage in
    an overlay, validate there, apply, over the same database and over one that has moved on.
  \<^item> \<open>Database_Tests\<close>, \<open>Sync_Tests\<close>: the unit tests of \<^verbatim>\<open>database/src/lib.rs\<close> and \<^verbatim>\<open>sync/src/manager.rs\<close> and the integration test
    of \<^verbatim>\<open>sync/tests/frontier.rs\<close>, as programs over any engine of the locale \<open>redb_opens\<close>, with the proof that they pass.
  \<^item> \<open>Sample_Field\<close>, \<open>Sample_Signature\<close>: fields of three and seven elements on which the theorems about all fields are run.

  \<^bold>\<open>What is shown.\<close> In every reachable database the forest is well formed, every snapshot is the accumulator of its tree's
  leaves, and nodes and nullifiers are exactly the chain's from the floor to the watermark; so roots and balances are those
  of the chain, over Subsquid the chain is that of the indexer's rows, and over a live engine a run arrives at its target. Below that: a window and a transaction land whole
  or not at all; a window validated in an overlay is the window that lands; the commitments namespace refines an abstract
  machine, and every engine passes the repository's own offline tests of the database and the pump; runs return, or for the last block number never do; the accumulator, the walk and the snapshot agree
  with the reference tree, and equal roots mean equal leaves or a hash collision; the overlay reads as the applied batch;
  codecs and texts round-trip exactly; a decrypted note is consistent with its commitment; signatures verify; key nodes are
  separated up to HMAC collisions. Six theorems state where the code departs from its intention: a snapshot served stale
  after a gap is filled, a snapshot zero-filled where none was stored, a run that never returns, a skipped row
  that becomes a zero leaf, a batch applied over a database that has moved on, and the tree count at the last tree number.

  \<^bold>\<open>Bounds and fuel.\<close> Fixed-width integers are words and wrap where the release build wraps; counters kept in \<^verbatim>\<open>usize\<close> that
  count elements in memory are natural numbers. Loops of the code are total functions, except two that a source could keep going
  for ever: the pages of a stream and the windows of a run carry fuel, where \<open>None\<close> is fuel running out.
  \<open>sync_run_returns\<close> shows that one window per block is enough for any target below \<open>2 ^ 64 - 1\<close>, and
  \<open>subsquid_window_complete\<close> that one page per row, and one more, is enough for a stream over a healthy indexer.
  The invariant theorems hold for every fuel.

  \<^bold>\<open>Parameters.\<close> Third-party code is an argument, with the behaviour relied on as named hypotheses: redb (\<open>redb_laws\<close>),
  serde_json (\<open>json_ok\<close>), bech32, bip39 and HMAC (\<open>key_lib\<close>), Blake-512, SHA-2, curve25519, Ed25519 and AES-GCM
  (\<open>crypto_lib\<close>), the prime field's conversions and the Poseidon constants (\<open>poseidon_engine\<close>), the HTTP client and the reading of
  a reply (\<open>http_client\<close>), hexadecimal text.

  \<^bold>\<open>Not modelled.\<close> Tracing, the \<^verbatim>\<open>OnceLock\<close> caches (the cached value is recomputed), debug assertions, allocation, the
  asynchronous executor (a source is a step on its state), concurrent readers (a view is a value), clients that interleave
  batches of their own with the syncer (the steps of \<open>reachable\<close> are those the crates take on the forest; \<open>staged_window_lands\<close> is
  about one window), the tests that compare with constants of the Poseidon instance over BN254 or reach the network, the
  integration crate, the unused \<^verbatim>\<open>field_from_hex_string\<close>, single-field newtypes' constructors and accessors.
\<close>

section \<open>Across the indexer and the forest\<close>

lemma mapped_node_of_row:
  assumes "n \<in> set (mapped_nodes rows)"
  obtains c where "c \<in> set rows" and "map_commitment c = Some (Some (Commitment n))"
    and "normalized (cm_tree_number c) (cm_tree_position c) = Some (nd_position n)"
proof -
  obtain c where c: "c \<in> set rows" "map_commitment c = Some (Some (Commitment n))"
    using assms by (induction rows) (auto split: option.splits sync_event.splits)
  then have "normalized (cm_tree_number c) (cm_tree_position c) = Some (nd_position n)"
    by (cases "cm_kind c") (auto simp: map_commitment_def bind_eq_Some_conv Let_def split: if_splits)
  with c show ?thesis by (rule that)
qed



end
